(* ===== verification/Prelude.thy ===== *)
theory Prelude
  imports Main "HOL-Library.Sublist" "HOL-Library.Word"
begin

text \<open>
  Shared vocabulary of the development: bytes and C strings, the error values of the model, the
  fragment of the C library the server calls (\<open>atoi\<close>, \<open>atol\<close>, \<open>tolower\<close>, \<open>sprintf\<close> of
  integers, \<open>snprintf\<close>, \<open>strstr\<close>), and generic lemmas on lists.

  A C string is a \<open>string\<close> (a list of bytes) without its terminating NUL. A character array is a
  list of bytes that may hold NULs; \<open>cstr\<close> reads the C string at its beginning, \<open>cstr_at\<close> the
  one a pointer into it denotes.
\<close>

section \<open>Collections of facts\<close>

named_theorems cstr_simps \<open>reading C strings out of character arrays\<close>
named_theorems board_simps \<open>operations of the bulletin board file on a list of lines\<close>
named_theorems session_simps \<open>one request handled by a session\<close>

section \<open>Bytes and C strings\<close>

abbreviation NUL :: char where "NUL \<equiv> CHR 0x00"
abbreviation BS :: char where "BS \<equiv> CHR 0x08"
abbreviation TAB :: char where "TAB \<equiv> CHR 0x09"
abbreviation NL :: char where "NL \<equiv> CHR 0x0A"
abbreviation SP :: char where "SP \<equiv> CHR '' ''"
abbreviation SLASH :: char where "SLASH \<equiv> CHR ''/''"

text \<open>The C string at the beginning of a character array, and at an offset into it.\<close>

definition cstr :: "string \<Rightarrow> string" where
  "cstr buf = takeWhile (\<lambda>c. c \<noteq> NUL) buf"

definition cstr_at :: "string \<Rightarrow> nat \<Rightarrow> string" where
  "cstr_at buf off = cstr (drop off buf)"

lemma cstr_Nil [simp, cstr_simps]: "cstr [] = []"
  by (simp add: cstr_def)

lemma cstr_no_NUL [simp]: "NUL \<notin> set (cstr s)"
  by (auto simp: cstr_def dest: set_takeWhileD)

lemma cstr_id [simp]: "NUL \<notin> set s \<Longrightarrow> cstr s = s"
  by (auto simp: cstr_def takeWhile_eq_all_conv)

lemma cstr_idem [simp]: "cstr (cstr s) = cstr s"
  by simp

lemma cstr_append [cstr_simps]: "NUL \<notin> set s \<Longrightarrow> cstr (s @ t) = s @ cstr t"
  by (induction s) (auto simp: cstr_def)

lemma cstr_NUL [simp, cstr_simps]: "cstr (NUL # t) = []"
  by (simp add: cstr_def)

lemma cstr_append_NUL [simp, cstr_simps]: "NUL \<notin> set s \<Longrightarrow> cstr (s @ NUL # t) = s"
  by (simp add: cstr_append)

lemma cstr_at_drop [cstr_simps]: "length p = k \<Longrightarrow> cstr_at (p @ s) k = cstr s"
  by (simp add: cstr_at_def)

lemma cstr_at_0 [simp]: "cstr_at s 0 = cstr s"
  by (simp add: cstr_at_def)

section \<open>Errors of the model\<close>

text \<open>
  What the C++ leaves undefined, or what never returns, is a value of the model: an access outside
  an array, a read of memory that was never written, a null pointer handed to the library, a use of
  memory that was freed, a loop or a wait that never ends.
\<close>

datatype c_error =
    Out_of_bounds
  | Uninitialised
  | Null_pointer
  | Dangling_pointer
  | Never_returns

section \<open>Numbers and their text\<close>

definition is_digit :: "char \<Rightarrow> bool" where
  "is_digit c \<longleftrightarrow> 48 \<le> (of_char c :: nat) \<and> (of_char c :: nat) \<le> 57"

definition digit_val :: "char \<Rightarrow> int" where
  "digit_val c = int (of_char c :: nat) - 48"

definition digit_chr :: "nat \<Rightarrow> char" where
  "digit_chr d = char_of (d + 48)"

fun digits_val :: "int \<Rightarrow> string \<Rightarrow> int" where
  "digits_val acc [] = acc"
| "digits_val acc (c # cs) =
     (if is_digit c then digits_val (acc * 10 + digit_val c) cs else acc)"

definition is_space :: "char \<Rightarrow> bool" where
  "is_space c \<longleftrightarrow> c \<in> set [SP, TAB, NL, CHR 0x0B, CHR 0x0C, CHR 0x0D]"

text \<open>The value of the longest numeric prefix, before it is clamped to a machine integer.\<close>

definition parse_int :: "string \<Rightarrow> int" where
  "parse_int s = (case dropWhile is_space s of
      [] \<Rightarrow> 0
    | c # cs \<Rightarrow> if c = CHR ''-'' then - digits_val 0 cs
              else if c = CHR ''+'' then digits_val 0 cs
              else digits_val 0 (c # cs))"

text \<open>\<open>atol\<close> is \<open>strtol\<close>, which clamps; \<open>atoi\<close> is \<open>strtol\<close> cut to 32 bits (glibc).\<close>

definition atol :: "string \<Rightarrow> int" where
  "atol s = max (- (2 ^ 63)) (min (2 ^ 63 - 1) (parse_int s))"

definition to_int32 :: "int \<Rightarrow> int" where
  "to_int32 n = sint (word_of_int n :: 32 word)"

definition atoi :: "string \<Rightarrow> int" where
  "atoi s = to_int32 (atol s)"

text \<open>\<open>sprintf\<close> with \<open>%ld\<close> (and \<open>%d\<close> on a value that fits).\<close>

fun nat_digits :: "nat \<Rightarrow> string" where
  "nat_digits n = (if n < 10 then [digit_chr n] else nat_digits (n div 10) @ [digit_chr (n mod 10)])"

declare nat_digits.simps [simp del]

definition show_ld :: "int \<Rightarrow> string" where
  "show_ld n = (if n < 0 then CHR ''-'' # nat_digits (nat (- n)) else nat_digits (nat n))"

text \<open>\<open>snprintf\<close> into an array of \<open>n\<close> bytes keeps the first \<open>n - 1\<close> characters.\<close>

definition snprintf :: "nat \<Rightarrow> string \<Rightarrow> string" where
  "snprintf n s = take (n - 1) s"

text \<open>\<open>strstr\<close> for a one-character needle.\<close>

definition strstr1 :: "string \<Rightarrow> char \<Rightarrow> bool" where
  "strstr1 s c \<longleftrightarrow> c \<in> set s"

text \<open>\<open>tolower\<close> of the C locale.\<close>

definition to_lower :: "char \<Rightarrow> char" where
  "to_lower c = (let n = (of_char c :: nat) in
     if 65 \<le> n \<and> n \<le> 90 then char_of (n + 32) else c)"

section \<open>Constants of the headers\<close>

definition MAX_LEN :: nat where "MAX_LEN = 1024"
definition BBLINE_LEN :: nat where "BBLINE_LEN = 3 * 1024 + 3"

section \<open>Facts about numbers and their text\<close>

lemma of_char_char_of_small: "n < 256 \<Longrightarrow> (of_char (char_of n :: char) :: nat) = n"
  by simp

lemma is_digit_digit_chr [simp]: "d < 10 \<Longrightarrow> is_digit (digit_chr d)"
  by (simp add: is_digit_def digit_chr_def)

lemma digit_val_digit_chr [simp]: "d < 10 \<Longrightarrow> digit_val (digit_chr d) = int d"
  by (simp add: digit_val_def digit_chr_def)

lemma digits_val_append:
  "\<forall>c \<in> set s. is_digit c \<Longrightarrow> digits_val acc (s @ t) = digits_val (digits_val acc s) t"
  by (induction acc s rule: digits_val.induct) auto

lemma nat_digits_all: "\<forall>c \<in> set (nat_digits n). is_digit c"
proof (induction n rule: nat_digits.induct)
  case (1 n)
  then show ?case
    by (cases "n < 10") (auto simp: nat_digits.simps [of n])
qed

lemma digits_val_nat_digits: "digits_val 0 (nat_digits n) = int n"
proof (induction n rule: nat_digits.induct)
  case (1 n)
  show ?case
  proof (cases "n < 10")
    case True
    then show ?thesis by (simp add: nat_digits.simps [of n])
  next
    case False
    with 1 have "digits_val 0 (nat_digits (n div 10)) = int (n div 10)" by simp
    moreover have "int (n div 10) * 10 + int (n mod 10) = int n" by presburger
    ultimately show ?thesis using False
      by (simp add: nat_digits.simps [of n] digits_val_append nat_digits_all)
  qed
qed

lemma nat_digits_nonempty [simp]: "nat_digits n \<noteq> []"
  by (subst nat_digits.simps) simp

lemma is_digit_not_space: "is_digit c \<Longrightarrow> \<not> is_space c \<and> c \<noteq> CHR ''-'' \<and> c \<noteq> CHR ''+''"
  by (auto simp: is_digit_def is_space_def simp del: of_char_eq_iff)

lemma parse_int_nat_digits: "parse_int (nat_digits n) = int n"
proof -
  obtain c cs where s: "nat_digits n = c # cs"
    using nat_digits_nonempty [of n] by (cases "nat_digits n") auto
  have "is_digit c" using nat_digits_all [of n] s by simp
  then have "parse_int (c # cs) = digits_val 0 (c # cs)"
    using is_digit_not_space [of c] by (simp add: parse_int_def del: digits_val.simps)
  then show ?thesis using digits_val_nat_digits [of n] s by simp
qed

lemma parse_int_show_ld: "parse_int (show_ld n) = n"
proof (cases "n < 0")
  case True
  then have "parse_int (show_ld n) = - digits_val 0 (nat_digits (nat (- n)))"
    by (simp add: show_ld_def parse_int_def is_space_def)
  with True show ?thesis by (simp add: digits_val_nat_digits)
next
  case False
  then show ?thesis by (simp add: show_ld_def parse_int_nat_digits)
qed

lemma to_int32_id: "- (2 ^ 31) \<le> n \<Longrightarrow> n < 2 ^ 31 \<Longrightarrow> to_int32 n = n"
  by (simp add: to_int32_def signed_take_bit_int_eq_self signed_of_int)

lemma to_int32_range: "- (2 ^ 31) \<le> to_int32 n \<and> to_int32 n < 2 ^ 31"
  using sint_range_size [of "word_of_int n :: 32 word"]
  by (simp add: to_int32_def word_size)

lemma atoi_range: "- (2 ^ 31) \<le> atoi s \<and> atoi s < 2 ^ 31"
  unfolding atoi_def by (rule to_int32_range)

text \<open>A number the server prints is the number it reads back, as long as it fits an \<open>int\<close>.\<close>

lemma atoi_show_ld: "- (2 ^ 31) \<le> n \<Longrightarrow> n < 2 ^ 31 \<Longrightarrow> atoi (show_ld n) = n"
  by (simp add: atoi_def atol_def parse_int_show_ld to_int32_id)

lemma show_ld_inj: "show_ld m = show_ld n \<Longrightarrow> m = n"
  by (metis parse_int_show_ld)

lemma show_ld_chars: "c \<in> set (show_ld n) \<Longrightarrow> is_digit c \<or> c = CHR ''-''"
  using nat_digits_all by (auto simp: show_ld_def split: if_splits)

lemma show_ld_no: "\<not> is_digit c \<Longrightarrow> c \<noteq> CHR ''-'' \<Longrightarrow> c \<notin> set (show_ld n)"
  using show_ld_chars by blast

lemma show_ld_nonempty [simp]: "show_ld n \<noteq> []"
  by (simp add: show_ld_def)

lemma atol_show_ld: "- (2 ^ 63) \<le> n \<Longrightarrow> n < 2 ^ 63 \<Longrightarrow> atol (show_ld n) = n"
  by (simp add: atol_def parse_int_show_ld)

lemma nat_digits_length: "n < 10 ^ Suc k \<Longrightarrow> length (nat_digits n) \<le> Suc k"
proof (induction k arbitrary: n)
  case 0
  then show ?case by (simp add: nat_digits.simps [of n])
next
  case (Suc k)
  show ?case
  proof (cases "n < 10")
    case True
    then show ?thesis by (simp add: nat_digits.simps [of n])
  next
    case False
    have "n div 10 < 10 ^ Suc k" using Suc.prems by (simp add: less_mult_imp_div_less mult.commute)
    then have "length (nat_digits (n div 10)) \<le> Suc k" by (rule Suc.IH)
    then show ?thesis using False by (simp add: nat_digits.simps [of n])
  qed
qed

lemma show_ld_length: "\<bar>n\<bar> < 10 ^ Suc k \<Longrightarrow> length (show_ld n) \<le> Suc (Suc k)"
  using nat_digits_length [of "nat \<bar>n\<bar>" k]
  by (cases "n < 0") (auto simp: show_ld_def nat_less_iff le_SucI)

lemma int_show_length: "- (2 ^ 31) \<le> n \<Longrightarrow> n < 2 ^ 31 \<Longrightarrow> length (show_ld n) \<le> 11"
  using show_ld_length [of n 9] by simp

end
