(* ===== verification/Tokenize.thy ===== *)
theory Tokenize
  imports Prelude
begin

text \<open>
  The in-place tokenizers of \<open>src/tokenize.cc\<close>. Both replace separators in the caller's character
  array by NUL and store pointers into it: the model works on the array as a list of bytes and on
  tokens as offsets into it, and returns the changed array. \<open>str_tokenize\<close> splits at blanks and
  at \<open>=\<close>, \<open>bbline_tokenize\<close> at \<open>/\<close>; after a separator both skip blanks.

  The theory also gives a pure specification \<open>split_tokens\<close> of the token texts and proves that
  the in-place loop computes it; everything above the tokenizer reasons with the specification.
\<close>

section \<open>The in-place loops\<close>

text \<open>\<open>for (; i < n && str[i] == ' '; i++)\<close>\<close>

function skip_blanks :: "nat \<Rightarrow> string \<Rightarrow> nat \<Rightarrow> nat" where
  "skip_blanks n str i = (if i < n \<and> str ! i = SP then skip_blanks n str (Suc i) else i)"
  by pat_completeness auto
termination
  by (relation "measure (\<lambda>(n, str, i). n - i)") auto

declare skip_blanks.simps [simp del]

lemma skip_blanks_ge: "i \<le> skip_blanks n str i"
  by (induction n str i rule: skip_blanks.induct)
    (metis Suc_leD order_refl skip_blanks.simps)

text \<open>The \<open>while (i < n)\<close> loop, with the test for a separator as a parameter.\<close>

function tok_loop ::
  "(char \<Rightarrow> bool) \<Rightarrow> nat \<Rightarrow> string \<Rightarrow> nat list \<Rightarrow> nat \<Rightarrow> string \<times> nat list" where
  "tok_loop sep n str toks i =
     (if i < n then
        if sep (str ! i) then
          (let str' = str[i := NUL]; j = skip_blanks n str' (Suc i)
           in tok_loop sep n str' (if j < n then toks @ [j] else toks) j)
        else tok_loop sep n str toks (Suc i)
      else (str, toks))"
  by pat_completeness auto
termination
proof (relation "measure (\<lambda>(sep, n, str, toks, i). n - i)", goal_cases)
  case (2 sep n str toks i x xa)
  then have "Suc i \<le> xa" using skip_blanks_ge by simp
  with 2 show ?case by simp
qed auto

declare tok_loop.simps [simp del]

definition str_sep :: "char \<Rightarrow> bool" where
  "str_sep c \<longleftrightarrow> c = CHR ''='' \<or> c = SP"

definition bbline_sep :: "char \<Rightarrow> bool" where
  "bbline_sep c \<longleftrightarrow> c = SLASH"

definition str_tokenize :: "string \<Rightarrow> nat \<Rightarrow> string \<times> nat list" where
  "str_tokenize str n = tok_loop str_sep n str [0] 0"

definition bbline_tokenize :: "string \<Rightarrow> nat \<Rightarrow> string \<times> nat list" where
  "bbline_tokenize str n = tok_loop bbline_sep n str [0] 0"

text \<open>The texts that the stored pointers denote after the call.\<close>

definition token_texts :: "string \<times> nat list \<Rightarrow> string list" where
  "token_texts r = map (cstr_at (fst r)) (snd r)"

section \<open>The other string helpers\<close>

text \<open>\<open>trimTrailingSpaces\<close> cuts after the last character that is no blank, tab or newline.\<close>

definition trail_blank :: "char \<Rightarrow> bool" where
  "trail_blank c \<longleftrightarrow> \<not> (c \<noteq> SP \<and> c \<noteq> TAB \<and> c \<noteq> NL)"

fun last_non_blank :: "string \<Rightarrow> nat \<Rightarrow> int \<Rightarrow> int" where
  "last_non_blank [] i index = index"
| "last_non_blank (c # cs) i index =
     last_non_blank cs (Suc i) (if \<not> trail_blank c then int i else index)"

definition trimTrailingSpaces :: "string \<Rightarrow> string" where
  "trimTrailingSpaces str = take (nat (last_non_blank str 0 (- 1) + 1)) str"

text \<open>
  \<open>tolwr\<close> allocates \<open>strlen(input)\<close> bytes and appends one lower-case character per round with
  \<open>sprintf(output, "%s%c", output, l_let)\<close>. The model returns the text built, the number of bytes
  allocated and the number of bytes the last \<open>sprintf\<close> (or the first assignment) wrote, the
  terminator included. A C string has no NUL, so no appended character is a NUL.
\<close>

fun tolwr_loop :: "string \<Rightarrow> string \<Rightarrow> string" where
  "tolwr_loop output [] = output"
| "tolwr_loop output (c # cs) = tolwr_loop (output @ [to_lower c]) cs"

definition tolwr :: "string \<Rightarrow> string" where
  "tolwr input = tolwr_loop [] input"

definition tolwr_allocated :: "string \<Rightarrow> nat" where
  "tolwr_allocated input = length input"

definition tolwr_written :: "string \<Rightarrow> nat" where
  "tolwr_written input = length (tolwr input) + 1"

section \<open>What the loop computes\<close>

text \<open>
  The token texts of \<open>s\<close>, where \<open>rest\<close> is what follows the scanned part in the array up to its
  terminator (the last token runs on into it).
\<close>

function split_tokens :: "(char \<Rightarrow> bool) \<Rightarrow> string \<Rightarrow> string \<Rightarrow> string list" where
  "split_tokens sep rest s =
     (case dropWhile (\<lambda>c. \<not> sep c) s of
        [] \<Rightarrow> [s @ rest]
      | c # r \<Rightarrow> takeWhile (\<lambda>c. \<not> sep c) s #
          (let r' = dropWhile (\<lambda>c. c = SP) r
           in if r' = [] then [] else split_tokens sep rest r'))"
  by pat_completeness auto
termination
proof (relation "measure (\<lambda>(sep, rest, s). length s)", goal_cases)
  case (2 sep rest s c r x)
  have "length x \<le> length r" using 2 by (simp add: length_dropWhile_le)
  moreover have "length (c # r) \<le> length s"
    using 2(1) length_dropWhile_le [of "\<lambda>c. \<not> sep c" s] by simp
  ultimately show ?case by simp
qed auto

declare split_tokens.simps [simp del]

lemma split_tokens_nosep:
  "\<forall>c \<in> set s. \<not> sep c \<Longrightarrow> split_tokens sep rest s = [s @ rest]"
  by (subst split_tokens.simps) (simp add: dropWhile_eq_Nil_conv [THEN iffD2])

lemma split_tokens_sep:
  "\<forall>c \<in> set s. \<not> sep c \<Longrightarrow> sep d \<Longrightarrow>
   split_tokens sep rest (s @ d # r) =
     s # (if dropWhile (\<lambda>c. c = SP) r = [] then []
          else split_tokens sep rest (dropWhile (\<lambda>c. c = SP) r))"
  by (subst split_tokens.simps) (simp add: Let_def)

lemma split_tokens_nonempty [simp]: "split_tokens sep rest s \<noteq> []"
  by (subst split_tokens.simps) (simp split: list.split)

text \<open>Skipping blanks moves to the first character that is none.\<close>

lemma skip_blanks_spec:
  "n = length (p @ todo) \<Longrightarrow>
   skip_blanks n (p @ todo @ t) (length p) = n - length (dropWhile (\<lambda>c. c = SP) todo)"
proof (induction todo arbitrary: p)
  case Nil
  then show ?case by (simp add: skip_blanks.simps)
next
  case (Cons c todo)
  show ?case
  proof (cases "c = SP")
    case True
    have "skip_blanks n (p @ (c # todo) @ t) (length p) =
          skip_blanks n ((p @ [c]) @ todo @ t) (length (p @ [c]))"
      using Cons.prems True by (subst skip_blanks.simps) (simp add: nth_append)
    also have "\<dots> = n - length (dropWhile (\<lambda>c. c = SP) todo)"
      using Cons.prems by (intro Cons.IH) simp
    finally show ?thesis using True by simp
  next
    case False
    then show ?thesis
      using Cons.prems by (subst skip_blanks.simps) (simp add: nth_append)
  qed
qed

text \<open>
  The invariant of the loop: the array is \<open>pre @ cur @ todo @ t\<close>, the loop has reached the end of
  \<open>cur\<close>, which is the part of the current token read so far.
\<close>

lemma tok_loop_stop: "\<not> i < n \<Longrightarrow> tok_loop sep n str toks i = (str, toks)"
  by (subst tok_loop.simps) simp

lemma tok_loop_char:
  assumes "\<not> sep c" and "i = length p" and "i < n"
  shows "tok_loop sep n (p @ c # q) toks i = tok_loop sep n ((p @ [c]) @ q) toks (length (p @ [c]))"
  using assms by (subst tok_loop.simps) (simp add: nth_append)

lemma tok_loop_sep:
  assumes "sep c" and "n = length (p @ c # todo)"
  shows "tok_loop sep n (p @ c # todo @ t) toks (length p) =
    (let j = n - length (dropWhile (\<lambda>c. c = SP) todo)
     in tok_loop sep n (p @ NUL # todo @ t) (if j < n then toks @ [j] else toks) j)"
proof -
  have "skip_blanks n ((p @ [NUL]) @ todo @ t) (length (p @ [NUL])) =
        n - length (dropWhile (\<lambda>c. c = SP) todo)"
    using assms(2) by (intro skip_blanks_spec) simp
  with assms show ?thesis
    by (subst tok_loop.simps) (simp add: nth_append)
qed

lemma tok_loop_spec:
  assumes "n = length (pre @ cur @ todo)" and "\<forall>c \<in> set cur. \<not> sep c \<and> c \<noteq> NUL"
    and "NUL \<notin> set todo"
  shows "\<exists>tl offs. tok_loop sep n (pre @ cur @ todo @ t) toks (length (pre @ cur)) =
      (pre @ tl, toks @ offs) \<and>
      cstr tl # map (cstr_at (pre @ tl)) offs = split_tokens sep (cstr t) (cur @ todo)"
  using assms
proof (induction "length todo" arbitrary: pre cur todo toks rule: less_induct)
  case less
  have cur: "NUL \<notin> set cur" "\<forall>c \<in> set cur. \<not> sep c" using less.prems(2) by auto
  show ?case
  proof (cases todo)
    case Nil
    have "tok_loop sep n (pre @ cur @ todo @ t) toks (length (pre @ cur)) = (pre @ (cur @ t), toks @ [])"
      using Nil less.prems(1) by (simp add: tok_loop_stop)
    moreover have "[cstr (cur @ t)] = split_tokens sep (cstr t) (cur @ todo)"
      using Nil cur by (simp add: split_tokens_nosep cstr_append)
    ultimately show ?thesis by (intro exI [of _ "cur @ t"] exI [of _ "[]"]) simp
  next
    case (Cons c todo')
    show ?thesis
    proof (cases "sep c")
      case False
      have "tok_loop sep n (pre @ cur @ todo @ t) toks (length (pre @ cur)) =
            tok_loop sep n (pre @ (cur @ [c]) @ todo' @ t) toks (length (pre @ cur @ [c]))"
        using Cons less.prems(1) False
          tok_loop_char [of sep c "length (pre @ cur)" "pre @ cur" n "todo' @ t" toks] by simp
      moreover have "c \<noteq> NUL" "NUL \<notin> set todo'" using Cons less.prems(3) by auto
      ultimately show ?thesis
        using less.hyps [of todo' pre "cur @ [c]" toks] less.prems Cons False by auto
    next
      case True
      define r where "r = dropWhile (\<lambda>c. c = SP) todo'"
      define b where "b = takeWhile (\<lambda>c. c = SP) todo'"
      define j where "j = n - length r"
      have todo': "todo' = b @ r" by (simp add: b_def r_def)
      have step: "tok_loop sep n (pre @ cur @ todo @ t) toks (length (pre @ cur)) =
          tok_loop sep n (pre @ cur @ NUL # todo' @ t) (if j < n then toks @ [j] else toks) j"
        using tok_loop_sep [of sep c n "pre @ cur" todo' t toks] True Cons less.prems(1)
        by (simp add: j_def r_def Let_def)
      have split: "split_tokens sep (cstr t) (cur @ todo) =
          cur # (if r = [] then [] else split_tokens sep (cstr t) r)"
        using split_tokens_sep [of cur sep c "cstr t" todo'] cur True Cons by (simp add: r_def)
      show ?thesis
      proof (cases "r = []")
        case True
        with step have "tok_loop sep n (pre @ cur @ todo @ t) toks (length (pre @ cur)) =
            (pre @ (cur @ NUL # todo' @ t), toks @ [])" by (simp add: j_def tok_loop_stop)
        moreover have "[cstr (cur @ NUL # todo' @ t)] = split_tokens sep (cstr t) (cur @ todo)"
          using split True cur by simp
        ultimately show ?thesis by (intro exI [of _ "cur @ NUL # todo' @ t"] exI [of _ "[]"]) simp
      next
        case False
        have j: "j = length (pre @ cur @ NUL # b)" "j < n"
          using less.prems(1) Cons todo' False by (auto simp: j_def)
        have "NUL \<notin> set r" using less.prems(3) Cons todo' by auto
        moreover have "length r < length todo" using Cons todo' by simp
        moreover have "n = length ((pre @ cur @ NUL # b) @ [] @ r)"
          using less.prems(1) Cons todo' by simp
        ultimately obtain tl offs where
          tl: "tok_loop sep n ((pre @ cur @ NUL # b) @ [] @ r @ t) (toks @ [j])
                (length ((pre @ cur @ NUL # b) @ [])) =
              ((pre @ cur @ NUL # b) @ tl, (toks @ [j]) @ offs)"
          and texts: "cstr tl # map (cstr_at ((pre @ cur @ NUL # b) @ tl)) offs =
              split_tokens sep (cstr t) ([] @ r)"
          using less.hyps [of r "pre @ cur @ NUL # b" "[]" "toks @ [j]"] by auto
        have "tok_loop sep n (pre @ cur @ todo @ t) toks (length (pre @ cur)) =
            (pre @ (cur @ NUL # b @ tl), toks @ (j # offs))"
          using step tl j todo' by simp
        moreover have "cstr_at ((pre @ cur @ NUL # b) @ tl) j = cstr tl"
          using j(1) by (intro cstr_at_drop) simp
        ultimately show ?thesis using split False texts cur
          by (intro exI [of _ "cur @ NUL # b @ tl"] exI [of _ "j # offs"]) simp
      qed
    qed
  qed
qed

text \<open>The two tokenizers, on an array that holds the C string \<open>s\<close> and then \<open>t\<close>.\<close>

lemma token_texts_loop:
  assumes "NUL \<notin> set s"
  shows "token_texts (tok_loop sep (length s) (s @ t) [0] 0) = split_tokens sep (cstr t) s"
proof -
  obtain tl offs where
    "tok_loop sep (length s) ([] @ [] @ s @ t) [0] (length ([] @ [] :: string)) = ([] @ tl, [0] @ offs)"
    and texts: "cstr tl # map (cstr_at ([] @ tl)) offs = split_tokens sep (cstr t) ([] @ s)"
    using tok_loop_spec [of "length s" "[]" "[]" s sep t "[0]"] assms by auto
  then have "tok_loop sep (length s) (s @ t) [0] 0 = (tl, 0 # offs)" by simp
  with texts show ?thesis by (simp add: token_texts_def)
qed

lemma str_tokenize_spec:
  "NUL \<notin> set s \<Longrightarrow> token_texts (str_tokenize (s @ t) (length s)) = split_tokens str_sep (cstr t) s"
  by (simp add: str_tokenize_def token_texts_loop)

lemma bbline_tokenize_spec:
  "NUL \<notin> set s \<Longrightarrow> token_texts (bbline_tokenize (s @ t) (length s)) = split_tokens bbline_sep (cstr t) s"
  by (simp add: bbline_tokenize_def token_texts_loop)

section \<open>Consequences for the helpers\<close>

lemma tolwr_loop_map: "tolwr_loop acc s = acc @ map to_lower s"
  by (induction acc s rule: tolwr_loop.induct) auto

lemma tolwr_map [simp]: "tolwr s = map to_lower s"
  by (simp add: tolwr_def tolwr_loop_map)

text \<open>
  \<open>tolwr\<close> writes one byte more than it allocates, for every command word.
\<close>

theorem tolwr_overruns: "tolwr_written s = Suc (tolwr_allocated s)"
  by (simp add: tolwr_written_def tolwr_allocated_def)

lemma last_non_blank_spec:
  "last_non_blank s i idx =
     (let k = length (dropWhile trail_blank (rev s)) in if k = 0 then idx else int (i + k) - 1)"
proof (induction s i idx rule: last_non_blank.induct)
  case (1 i idx)
  then show ?case by simp
next
  case (2 c cs i idx)
  have eq: "length (dropWhile trail_blank (rev (c # cs))) =
      (if length (dropWhile trail_blank (rev cs)) = 0 then (if trail_blank c then 0 else 1)
       else length (dropWhile trail_blank (rev cs)) + 1)"
    by (simp add: dropWhile_append)
  show ?case
    unfolding last_non_blank.simps 2 eq Let_def
    by (cases "trail_blank c"; cases "length (dropWhile trail_blank (rev cs)) = 0") auto
qed

text \<open>
  \<open>trimTrailingSpaces\<close> drops exactly the blanks, tabs and newlines at the end.
\<close>

theorem trimTrailingSpaces_spec:
  "trimTrailingSpaces s = rev (dropWhile trail_blank (rev s))"
proof -
  have "nat (last_non_blank s 0 (- 1) + 1) = length (dropWhile trail_blank (rev s))"
    by (simp add: last_non_blank_spec Let_def)
  moreover have "rev s = takeWhile trail_blank (rev s) @ dropWhile trail_blank (rev s)" by simp
  then have "s = rev (dropWhile trail_blank (rev s)) @ rev (takeWhile trail_blank (rev s))"
    by (metis rev_append rev_rev_ident)
  then have "take (length (dropWhile trail_blank (rev s))) s = rev (dropWhile trail_blank (rev s))"
    by (metis append_eq_conv_conj length_rev)
  ultimately show ?thesis by (simp add: trimTrailingSpaces_def)
qed

section \<open>The token table\<close>

text \<open>The last token found so far starts before the place the loop has reached.\<close>

lemma tok_loop_fits:
  assumes "tok_loop sep n str toks i = (str', toks')" and "sorted_wrt (<) toks" and "set toks \<subseteq> {..<max 1 n}"
    and "set toks \<subseteq> {..i}" and "toks \<noteq> []"
  shows "length str' = length str \<and> sorted_wrt (<) toks' \<and> set toks' \<subseteq> {..<max 1 n} \<and> toks' \<noteq> []"
  using assms
proof (induction sep n str toks i rule: tok_loop.induct)
  case (1 sep n str toks i)
  show ?case
  proof (cases "i < n \<and> sep (str ! i)")
    case False
    then show ?thesis
      using 1(2-) by (subst (asm) tok_loop.simps) (cases "i < n"; use 1 in \<open>force split: if_splits\<close>)
  next
    case True
    define j where "j = skip_blanks n (str[i := NUL]) (Suc i)"
    have j: "Suc i \<le> j" unfolding j_def by (rule skip_blanks_ge)
    have "tok_loop sep n (str[i := NUL]) (if j < n then toks @ [j] else toks) j = (str', toks')"
      unfolding j_def using 1(3) True by (subst (asm) tok_loop.simps) (simp add: Let_def split del: if_split)
    moreover have "sorted_wrt (<) (if j < n then toks @ [j] else toks)"
      using 1(4,6) j by (auto simp: sorted_wrt_append)
    moreover have "set (if j < n then toks @ [j] else toks) \<subseteq> {..<max 1 n}"
      "set (if j < n then toks @ [j] else toks) \<subseteq> {..j}" using 1(5,6) j by auto
    ultimately show ?thesis
      using 1(1) [OF _ _ refl j_def] True 1(7) by (simp split: if_splits)
  qed
qed

text \<open>
  Property C31: the tables of tokens do not overflow. Whatever the bytes, both tokenizers store
  increasing positions inside the scanned part, so at most as many as bytes are scanned (and one for
  an empty scan), and they keep the length of the array.
\<close>

theorem tokenizers_fit:
  "(case str_tokenize str n of (str', toks) \<Rightarrow> length str' = length str \<and> sorted_wrt (<) toks \<and>
     set toks \<subseteq> {..<max 1 n} \<and> length toks \<le> max 1 n) \<and>
   (case bbline_tokenize str n of (str', toks) \<Rightarrow> length str' = length str \<and> sorted_wrt (<) toks \<and>
     set toks \<subseteq> {..<max 1 n} \<and> length toks \<le> max 1 n)"
proof -
  have "length str' = length str \<and> sorted_wrt (<) toks \<and> set toks \<subseteq> {..<max 1 n} \<and> length toks \<le> max 1 n"
    if "tok_loop sep n str [0] 0 = (str', toks)" for sep str' toks
  proof -
    have f: "length str' = length str" "sorted_wrt (<) toks" "set toks \<subseteq> {..<max 1 n}"
      using tok_loop_fits [OF that] by auto
    have "length toks = card (set toks)"
      using f(2) by (simp add: distinct_card strict_sorted_iff)
    also have "\<dots> \<le> max 1 n" using card_mono [OF _ f(3)] by simp
    finally show ?thesis using f by simp
  qed
  then show ?thesis
    unfolding str_tokenize_def bbline_tokenize_def by (simp split: prod.split)
qed

section \<open>Words between separators\<close>

text \<open>The positions of consecutive words that are each followed by one separator.\<close>

fun offsets :: "nat \<Rightarrow> string list \<Rightarrow> nat list" where
  "offsets k [] = []"
| "offsets k (w # ws) = k # offsets (Suc (k + length w)) ws"

abbreviation sep_words :: "(char \<times> string) list \<Rightarrow> string" where
  "sep_words ps \<equiv> concat (map (\<lambda>(c, w). c # w) ps)"

abbreviation nul_words :: "string list \<Rightarrow> string" where
  "nul_words ws \<equiv> concat (map (\<lambda>w. NUL # w) ws)"

definition plain_word :: "(char \<Rightarrow> bool) \<Rightarrow> string \<Rightarrow> bool" where
  "plain_word sep w \<longleftrightarrow> w \<noteq> [] \<and> hd w \<noteq> SP \<and> list_all (\<lambda>c. \<not> sep c) w"

lemma tok_loop_plain:
  "list_all (\<lambda>c. \<not> sep c) w \<Longrightarrow> length p + length w \<le> n \<Longrightarrow>
   tok_loop sep n (p @ w @ q) toks (length p) = tok_loop sep n ((p @ w) @ q) toks (length (p @ w))"
proof (induction w arbitrary: p)
  case (Cons c w)
  have "tok_loop sep n (p @ (c # w) @ q) toks (length p) =
      tok_loop sep n ((p @ [c]) @ w @ q) toks (length (p @ [c]))"
    using Cons.prems tok_loop_char [of sep c "length p" p n "w @ q" toks] by simp
  also have "\<dots> = tok_loop sep n (((p @ [c]) @ w) @ q) toks (length ((p @ [c]) @ w))"
    by (rule Cons.IH) (use Cons.prems in auto)
  finally show ?case by simp
qed simp

lemma tok_loop_words:
  assumes "list_all (\<lambda>(c, w). sep c \<and> plain_word sep w) ps" and "n = length pre + length (sep_words ps)"
  shows "tok_loop sep n (pre @ sep_words ps @ t) toks (length pre) =
    (pre @ nul_words (map snd ps) @ t, toks @ offsets (Suc (length pre)) (map snd ps))"
  using assms
proof (induction ps arbitrary: pre toks)
  case Nil
  then show ?case by (simp add: tok_loop_stop)
next
  case (Cons x ps)
  obtain c w where x: "x = (c, w)" by (cases x)
  let ?todo = "w @ sep_words ps" and ?pre = "pre @ [NUL]"
  have c: "sep c" and w: "w \<noteq> []" "hd w \<noteq> SP" "list_all (\<lambda>c. \<not> sep c) w"
    using Cons.prems(1) x by (auto simp: plain_word_def)
  have n: "n = length (pre @ c # ?todo)" using Cons.prems(2) x by simp
  have d: "dropWhile (\<lambda>c. c = SP) ?todo = ?todo" using w(1,2) by (cases w) auto
  have "tok_loop sep n (pre @ c # ?todo @ t) toks (length pre) =
      tok_loop sep n (?pre @ w @ (sep_words ps @ t)) (toks @ [length ?pre]) (length ?pre)"
    unfolding tok_loop_sep [where sep = sep, OF c n] Let_def d using n w(1) by simp
  also have "\<dots> = tok_loop sep n ((?pre @ w) @ sep_words ps @ t) (toks @ [length ?pre]) (length (?pre @ w))"
    by (rule tok_loop_plain) (use w n in auto)
  also have "\<dots> = ((?pre @ w) @ nul_words (map snd ps) @ t,
      (toks @ [length ?pre]) @ offsets (Suc (length (?pre @ w))) (map snd ps))"
    by (rule Cons.IH) (use Cons.prems n in auto)
  finally show ?case using x by simp
qed

lemma str_tokenize_words:
  assumes "list_all (\<lambda>c. \<not> str_sep c) w" "list_all (\<lambda>(c, w). str_sep c \<and> plain_word str_sep w) ps"
    and "n = length (w @ sep_words ps)"
  shows "str_tokenize (w @ sep_words ps @ t) n =
    (w @ nul_words (map snd ps) @ t, 0 # offsets (Suc (length w)) (map snd ps))"
proof -
  have "tok_loop str_sep n (w @ sep_words ps @ t) [0] 0 =
      tok_loop str_sep n (w @ sep_words ps @ t) [0] (length w)"
    using tok_loop_plain [of str_sep w "[]" n "sep_words ps @ t" "[0]"] assms by simp
  also have "\<dots> = (w @ nul_words (map snd ps) @ t, [0] @ offsets (Suc (length w)) (map snd ps))"
    by (rule tok_loop_words) (use assms in auto)
  finally show ?thesis by (simp add: str_tokenize_def)
qed

lemma length_offsets [simp]: "length (offsets k ws) = length ws"
  by (induction k ws rule: offsets.induct) auto

end
