(* ===== verification/TcpUtils.thy ===== *)
theory TcpUtils
  imports Prelude
begin

text \<open>
  \<open>src/tcp-utils.cc\<close>: line input, input with a timeout, and opening of sockets. System calls are
  the environment. A descriptor is the list of what the following one-byte \<open>read\<close>s return (a
  byte, or \<open>Fail\<close> for \<open>-1\<close>; the end of the list is end of file); a socket under
  \<open>recv_nonblock\<close> is the list of what the following \<open>poll\<close>/\<open>recv\<close> pairs return.
\<close>

section \<open>Error codes\<close>

definition err_host :: int where "err_host = - 1"
definition err_sock :: int where "err_sock = - 2"
definition err_connect :: int where "err_connect = - 3"
definition err_bind :: int where "err_bind = - 5"
definition err_listen :: int where "err_listen = - 6"
definition recv_nodata :: int where "recv_nodata = - 2"

section \<open>Reading lines\<close>

datatype rd = Byte char | Fail

text \<open>
  The \<open>for\<close> loop of \<open>readline\<close>: \<open>k\<close> rounds are left, \<open>acc\<close> has been stored. The result is the
  value returned, the bytes stored (with the NUL where one is written) and the rest of the input.
\<close>

fun readline_loop :: "nat \<Rightarrow> bool \<Rightarrow> string \<Rightarrow> rd list \<Rightarrow> int \<times> string \<times> rd list" where
  "readline_loop 0 begin_flag acc s = (int (length acc), acc @ [NUL], s)"
| "readline_loop (Suc k) begin_flag acc [] =
     (if begin_flag then (recv_nodata, acc, []) else (int (length acc), acc @ [NUL], []))"
| "readline_loop (Suc k) begin_flag acc (Fail # s) = (- 1, acc, s)"
| "readline_loop (Suc k) begin_flag acc (Byte c # s) =
     (if c = NL then (int (length acc), acc @ [NUL], s)
      else readline_loop k False (acc @ [c]) s)"

definition overwrite :: "string \<Rightarrow> string \<Rightarrow> string" where
  "overwrite new buf = new @ drop (length new) buf"

definition readline :: "rd list \<Rightarrow> string \<Rightarrow> nat \<Rightarrow> int \<times> string \<times> rd list" where
  "readline fd buf maxn =
     (case readline_loop maxn True [] fd of (ret, stored, rest) \<Rightarrow> (ret, overwrite stored buf, rest))"

lemma readline_loop_line:
  "NL \<notin> set l \<Longrightarrow> length l < k \<Longrightarrow>
   readline_loop k b acc (map Byte l @ Byte NL # s) = (int (length (acc @ l)), acc @ l @ [NUL], s)"
proof (induction l arbitrary: k b acc)
  case Nil
  then show ?case by (cases k) auto
next
  case (Cons c l)
  then show ?case by (cases k) auto
qed

lemma readline_loop_full:
  "NL \<notin> set l \<Longrightarrow> length l = k \<Longrightarrow>
   readline_loop k b acc (map Byte l @ s) = (int (length (acc @ l)), acc @ l @ [NUL], s)"
proof (induction l arbitrary: k b acc)
  case (Cons c l)
  then show ?case by (cases k) auto
qed simp

lemma readline_loop_eof:
  "NL \<notin> set l \<Longrightarrow> length l < k \<Longrightarrow> l \<noteq> [] \<or> \<not> b \<Longrightarrow>
   readline_loop k b acc (map Byte l) = (int (length (acc @ l)), acc @ l @ [NUL], [])"
proof (induction l arbitrary: k b acc)
  case Nil
  then show ?case by (cases k) auto
next
  case (Cons c l)
  then show ?case by (cases k) auto
qed

lemma readline_loop_ret_nonneg: "readline_loop k False acc s = (r, st, s') \<Longrightarrow> r \<noteq> recv_nodata"
  by (induction k False acc s rule: readline_loop.induct)
    (auto simp: recv_nodata_def split: if_splits)

lemma readline_loop_consumes: "length (snd (snd (readline_loop k b acc s))) \<le> length s"
  by (induction k b acc s rule: readline_loop.induct) auto

lemma readline_rest: "snd (snd (readline s buf maxn)) = snd (snd (readline_loop maxn True [] s))"
  by (simp add: readline_def split: prod.splits)

lemma readline_ret: "fst (readline s buf maxn) = fst (readline_loop maxn True [] s)"
  by (simp add: readline_def split: prod.splits)

lemma readline_consumes:
  assumes "fst (readline s buf maxn) \<noteq> recv_nodata" and "maxn \<noteq> 0"
  shows "length (snd (snd (readline s buf maxn))) < length s"
proof -
  from assms(2) obtain k where k: "maxn = Suc k" by (cases maxn) auto
  show ?thesis
  proof (cases s)
    case Nil
    with assms k show ?thesis by (simp add: readline_ret)
  next
    case (Cons a t)
    with k show ?thesis
      using readline_loop_consumes [of k False "[c]" t for c]
      by (cases a) (auto simp: readline_rest less_Suc_eq_le)
  qed
qed

text \<open>A complete line that fits: its length is returned and the array holds it as a C string.\<close>

lemma readline_line:
  assumes "NL \<notin> set l" and "length l < maxn"
  shows "readline (map Byte l @ Byte NL # s) buf maxn =
    (int (length l), l @ NUL # drop (Suc (length l)) buf, s)"
  using assms by (simp add: readline_def readline_loop_line overwrite_def)

lemma readline_eof: "0 < maxn \<Longrightarrow> readline [] buf maxn = (recv_nodata, buf, [])"
  by (cases maxn) (auto simp: readline_def overwrite_def)

text \<open>
  A line of \<open>maxn\<close> bytes or more fills the array and the terminator goes to index
  \<open>maxn\<close>: one byte beyond an array of \<open>maxn\<close> bytes, as the sessions pass.
\<close>

theorem readline_overflow:
  assumes "NL \<notin> set l" and "length l = maxn" and "length buf = maxn" and "0 < maxn"
  shows "\<exists>buf'. readline (map Byte l @ s) buf maxn = (int maxn, buf', s) \<and> length buf' = Suc maxn \<and>
    buf' ! maxn = NUL"
proof -
  have "readline (map Byte l @ s) buf maxn = (int maxn, l @ [NUL], s)"
    using assms by (simp add: readline_def readline_loop_full overwrite_def)
  with assms show ?thesis by (auto simp: nth_append)
qed

theorem readline_overflow_witness:
  "\<exists>buf'. readline (map Byte ''READ'' @ [Byte NL]) ''xxxx'' 4 = (4, buf', [Byte NL]) \<and> length buf' = 5 \<and>
    buf' ! 4 = NUL"
  using readline_overflow [of "''READ''" 4 "''xxxx''" "[Byte NL]"] by simp

section \<open>The lines of a file\<close>

text \<open>
  \<open>while (readline(fd, line, max) != recv_nodata)\<close> over a file: the lines as the loop body sees
  them (C strings), each with the file offset after it.
\<close>

function read_lines :: "nat \<Rightarrow> nat \<Rightarrow> rd list \<Rightarrow> (string \<times> nat) list" where
  "read_lines maxn pos s =
     (let r = readline s [] maxn; rest = snd (snd r); pos' = pos + (length s - length rest)
      in if fst r = recv_nodata \<or> maxn = 0 then []
         else (cstr (fst (snd r)), pos') # read_lines maxn pos' rest)"
  by pat_completeness auto
termination
  by (relation "measure (\<lambda>(maxn, pos, s). length s)") (auto dest: readline_consumes)

declare read_lines.simps [simp del]

lemma read_lines_Nil [simp]: "read_lines maxn pos [] = []"
  by (cases maxn) (simp_all add: read_lines.simps readline_eof)

lemma read_lines_line:
  assumes "NL \<notin> set l" and "length l < maxn"
  shows "read_lines maxn pos (map Byte l @ Byte NL # s) =
    (cstr l, pos + length l + 1) # read_lines maxn (pos + length l + 1) s"
proof -
  have "cstr (l @ [NUL]) = cstr l"
    by (induction l) (auto simp: cstr_def)
  with assms show ?thesis
    by (subst read_lines.simps) (simp add: readline_line recv_nodata_def)
qed

section \<open>Receiving with a timeout\<close>

text \<open>
  What one \<open>recv_nonblock\<close> meets: no data within the timeout, a failing \<open>poll\<close>, a failing
  \<open>recv\<close>, or data (none at end of file). \<open>recv\<close> stores at most \<open>maxn\<close> bytes at the beginning of
  the array and no terminator.
\<close>

datatype poll_result = Poll_timeout | Poll_error | Recv_error | Recv_data string

definition recv_nonblock :: "poll_result \<Rightarrow> string \<Rightarrow> nat \<Rightarrow> int \<times> string" where
  "recv_nonblock ev buf maxn = (case ev of
      Poll_timeout \<Rightarrow> (recv_nodata, buf)
    | Poll_error \<Rightarrow> (- 1, buf)
    | Recv_error \<Rightarrow> (- 1, buf)
    | Recv_data d \<Rightarrow> (int (length (take maxn d)), overwrite (take maxn d) buf))"

text \<open>
  The senders' loop \<open>while ((n = recv_nonblock(...)) != recv_nodata) if (n == 0) break;\<close> over the
  events of the socket; a socket with no further event times out. The last value of \<open>n\<close> and the
  array are returned.
\<close>

fun recv_loop :: "nat \<Rightarrow> string \<Rightarrow> poll_result list \<Rightarrow> int \<times> string" where
  "recv_loop maxn buf [] = recv_nonblock Poll_timeout buf maxn"
| "recv_loop maxn buf (ev # evs) =
     (let r = recv_nonblock ev buf maxn
      in if fst r = recv_nodata \<or> fst r = 0 then r else recv_loop maxn (snd r) evs)"

lemma recv_loop_one:
  "d \<noteq> [] \<Longrightarrow> length d \<le> maxn \<Longrightarrow>
   recv_loop maxn buf [Recv_data d] = (recv_nodata, overwrite d buf)"
  by (simp add: recv_nonblock_def recv_nodata_def)

lemma recv_loop_silent [simp]: "recv_loop maxn buf [] = (recv_nodata, buf)"
  by (simp add: recv_nonblock_def)

text \<open>
  The loop over \<open>recv_nonblock\<close> is left with no data or at end of file only, whatever
  the socket does, so the test \<open>n == -1\<close> after it in \<open>send_commit\<close> never holds.
\<close>

theorem recv_loop_exit: "fst (recv_loop maxn buf evs) = recv_nodata \<or> fst (recv_loop maxn buf evs) = 0"
  by (induction maxn buf evs rule: recv_loop.induct) (auto simp: Let_def recv_nonblock_def)

section \<open>Opening sockets\<close>

text \<open>
  The environment of the socket calls: name resolution, and the values returned by \<open>socket\<close>,
  \<open>connect\<close>, \<open>bind\<close> and \<open>listen\<close>. A call returns its value and the descriptors it closed.
\<close>

record net_env =
  gethostbyname :: "string \<Rightarrow> bool"
  getservbyname :: "string \<Rightarrow> int option"
  socket_ret :: int
  connect_ret :: "string \<Rightarrow> 16 word \<Rightarrow> int"
  bind_ret :: "32 word \<Rightarrow> 16 word \<Rightarrow> int"
  listen_ret :: "nat \<Rightarrow> int"

definition err_proto :: int where "err_proto = - 4"

definition connectbyportint :: "net_env \<Rightarrow> string \<Rightarrow> 16 word \<Rightarrow> int \<times> int list" where
  "connectbyportint env host port =
     (if \<not> gethostbyname env host then (err_host, [])
      else let sd = socket_ret env
      in if sd < 0 then (err_sock, [])
      else if connect_ret env host port < 0 then (err_connect, [sd])
      else (sd, []))"

definition connectbyport :: "net_env \<Rightarrow> string \<Rightarrow> string \<Rightarrow> int \<times> int list" where
  "connectbyport env host port = connectbyportint env host (word_of_int (atoi port))"

definition connectbyservice :: "net_env \<Rightarrow> string \<Rightarrow> string \<Rightarrow> int \<times> int list" where
  "connectbyservice env host service = (case getservbyname env service of
      None \<Rightarrow> (err_proto, [])
    | Some p \<Rightarrow> connectbyportint env host (word_of_int p))"

definition INADDR_ANY :: "32 word" where "INADDR_ANY = 0"
definition INADDR_LOOPBACK :: "32 word" where "INADDR_LOOPBACK = 0x7F000001"

definition passivesockaux :: "net_env \<Rightarrow> 16 word \<Rightarrow> nat \<Rightarrow> 32 word \<Rightarrow> int \<times> int list" where
  "passivesockaux env port backlog ip_addr =
     (let sd = socket_ret env
      in if sd < 0 then (err_sock, [])
      else if bind_ret env ip_addr port < 0 then (err_bind, [sd])
      else if listen_ret env backlog < 0 then (err_listen, [sd])
      else (sd, []))"

definition passivesocket :: "net_env \<Rightarrow> 16 word \<Rightarrow> nat \<Rightarrow> int \<times> int list" where
  "passivesocket env port backlog = passivesockaux env port backlog INADDR_ANY"

definition controlsocket :: "net_env \<Rightarrow> 16 word \<Rightarrow> nat \<Rightarrow> int \<times> int list" where
  "controlsocket env port backlog = passivesockaux env port backlog INADDR_LOOPBACK"

definition passivesocketstr :: "net_env \<Rightarrow> string \<Rightarrow> nat \<Rightarrow> int \<times> int list" where
  "passivesocketstr env port backlog = passivesocket env (word_of_int (atoi port)) backlog"

definition passivesocketserv :: "net_env \<Rightarrow> string \<Rightarrow> nat \<Rightarrow> int \<times> int list" where
  "passivesocketserv env service backlog = (case getservbyname env service of
      None \<Rightarrow> (err_proto, [])
    | Some p \<Rightarrow> passivesocket env (word_of_int p) backlog)"

text \<open>
  A negative result of \<open>connectbyport\<close> means that every descriptor obtained was closed
  again; otherwise the result is the open descriptor and none was closed. The same holds of the
  passive sockets, whatever address they bind.
\<close>

theorem sockets_closed:
  "(case connectbyport env host port of (r, closed) \<Rightarrow>
     if 0 \<le> r then r = socket_ret env \<and> closed = []
     else r \<in> {err_host, err_sock, err_connect} \<and>
       closed = (if r = err_connect then [socket_ret env] else [])) \<and>
   (case passivesockaux env p backlog ip of (r, closed) \<Rightarrow>
     if 0 \<le> r then r = socket_ret env \<and> closed = []
     else r \<in> {err_sock, err_bind, err_listen} \<and>
       closed = (if r = err_sock then [] else [socket_ret env]))"
  by (simp add: connectbyport_def connectbyportint_def passivesockaux_def
      err_host_def err_sock_def err_connect_def err_bind_def err_listen_def Let_def)

lemma readline_loop_stores: "length (fst (snd (readline_loop k b acc s))) \<le> Suc (length acc + k)"
proof (induction k b acc s rule: readline_loop.induct)
  case (4 k b acc c s)
  then show ?case by (cases "c = NL") auto
qed auto

lemma readline_length: "length buf = Suc maxn \<Longrightarrow> length (fst (snd (readline fd buf maxn))) = Suc maxn"
  using readline_loop_stores [of maxn True "[]" fd]
  by (cases "readline_loop maxn True [] fd") (auto simp: readline_def overwrite_def)

end
