(* ===== verification/Descriptor.thy ===== *)
theory Descriptor
  imports Tokenize TcpUtils
begin

text \<open>
  \<open>src/descriptor.cc\<close>: every access to the bulletin board file. The state holds the files of the
  working directory, the count of open descriptors of the process with its limit, whether the disk
  is full, and the globals of the module (\<open>source_file\<close>, the buffer of generated numbers).
  The locks of the module are modelled in theory \<open>FileLock\<close>; here each function is the effect of
  its body. A call that overruns an array of the function, or that loops for ever because an
  \<open>open\<close> failed, is an error value.
\<close>

section \<open>State\<close>

record bfile =
  bytes :: string
  may_read :: bool
  may_write :: bool

record board_state =
  source_file :: string
  files :: "string \<Rightarrow> bfile option"
  open_fds :: nat
  fd_limit :: nat
  disk_full :: bool
  dir_writable :: bool
  temp_list :: "int list"

section \<open>System calls on regular files\<close>

definition open_rd :: "string \<Rightarrow> board_state \<Rightarrow> board_state option" where
  "open_rd name st = (case files st name of None \<Rightarrow> None | Some f \<Rightarrow>
     if may_read f \<and> open_fds st < fd_limit st then Some (st\<lparr>open_fds := Suc (open_fds st)\<rparr>)
     else None)"

definition open_rw :: "string \<Rightarrow> board_state \<Rightarrow> board_state option" where
  "open_rw name st = (case files st name of None \<Rightarrow> None | Some f \<Rightarrow>
     if may_read f \<and> may_write f \<and> open_fds st < fd_limit st
     then Some (st\<lparr>open_fds := Suc (open_fds st)\<rparr>) else None)"

text \<open>With \<open>O_CREAT\<close>; \<open>need_read\<close> tells \<open>O_RDWR\<close> from \<open>O_WRONLY\<close>.\<close>

definition open_create :: "bool \<Rightarrow> string \<Rightarrow> board_state \<Rightarrow> board_state option" where
  "open_create need_read name st =
     (if open_fds st < fd_limit st then
        (case files st name of
           Some f \<Rightarrow> if (need_read \<longrightarrow> may_read f) \<and> may_write f
                      then Some (st\<lparr>open_fds := Suc (open_fds st)\<rparr>) else None
         | None \<Rightarrow> if dir_writable st
                    then Some (st\<lparr>open_fds := Suc (open_fds st),
                      files := (files st)(name \<mapsto> \<lparr>bytes = [], may_read = True, may_write = True\<rparr>)\<rparr>)
                    else None)
      else None)"

definition close_fd :: "board_state \<Rightarrow> board_state" where
  "close_fd st = st\<lparr>open_fds := open_fds st - 1\<rparr>"

definition file_bytes :: "board_state \<Rightarrow> string \<Rightarrow> string" where
  "file_bytes st name = (case files st name of None \<Rightarrow> [] | Some f \<Rightarrow> bytes f)"

text \<open>\<open>write\<close> at an offset: it fails as a whole when the file would have to grow on a full disk.\<close>

definition write_at :: "string \<Rightarrow> nat \<Rightarrow> string \<Rightarrow> board_state \<Rightarrow> int \<times> board_state" where
  "write_at name off bs st =
     (let c = file_bytes st name in
      if disk_full st \<and> length c < off + length bs then (- 1, st)
      else (int (length bs),
        st\<lparr>files := (files st)(name := map_option (bytes_update (\<lambda>_.
             take off (c @ replicate (off - length c) NUL) @ bs @ drop (off + length bs) c))
             (files st name))\<rparr>))"

definition input_of :: "string \<Rightarrow> board_state \<Rightarrow> rd list" where
  "input_of name st = map Byte (file_bytes st name)"

text \<open>The lines of the board file as a reading loop with \<open>BBLINE_LEN\<close> meets them.\<close>

definition scan :: "board_state \<Rightarrow> (string \<times> nat) list" where
  "scan st = read_lines BBLINE_LEN 0 (input_of (source_file st) st)"

text \<open>\<open>bbline_tokenize(line, tokens, strlen(line))\<close> and the token texts.\<close>

definition line_tokens :: "string \<Rightarrow> string list" where
  "line_tokens line = token_texts (bbline_tokenize line (length line))"

section \<open>Creating the board\<close>

definition create_descriptor :: "string \<Rightarrow> board_state \<Rightarrow> int \<times> board_state" where
  "create_descriptor filename st = (case open_create True filename st of
      None \<Rightarrow> (- 1, st)
    | Some st' \<Rightarrow> (0, close_fd st'))"

definition initiate_descriptor :: "string \<Rightarrow> board_state \<Rightarrow> int \<times> board_state" where
  "initiate_descriptor filename st =
     (let st0 = st\<lparr>temp_list := []\<rparr> in
      case open_rd filename st0 of
        Some st1 \<Rightarrow> (0, (close_fd st1)\<lparr>source_file := filename\<rparr>)
      | None \<Rightarrow> (case create_descriptor filename st0 of (cre_ret, st1) \<Rightarrow>
          if cre_ret = 0 then (0, st1\<lparr>source_file := filename\<rparr>) else (- 1, st1)))"

section \<open>Appending\<close>

definition line_entry :: "string \<Rightarrow> string \<Rightarrow> string \<Rightarrow> string" where
  "line_entry msg_number user message = msg_number @ ''/'' @ user @ ''/'' @ message"

text \<open>Null pointers are \<open>None\<close>; the value of the \<open>write\<close> call is not looked at.\<close>

definition write_descriptor ::
  "string option \<Rightarrow> string option \<Rightarrow> string option \<Rightarrow> board_state \<Rightarrow> int \<times> board_state" where
  "write_descriptor msg_number user message st =
     (case (msg_number, user, message) of
        (Some n, Some u, Some m) \<Rightarrow>
          (case open_rd (source_file st) st of
             None \<Rightarrow> (- 2, st)
           | Some st1 \<Rightarrow>
               (case open_rw (source_file st) (close_fd st1) of
                  None \<Rightarrow> (- 2, close_fd st1)
                | Some st2 \<Rightarrow>
                    let cfp = line_entry n u m @ [NL];
                        off = length (file_bytes st2 (source_file st2))
                    in (0, close_fd (snd (write_at (source_file st2) off cfp st2)))))
      | _ \<Rightarrow> (- 1, st))"

section \<open>Finding and erasing\<close>

text \<open>
  The loop of \<open>seek_msg_descriptor\<close>: the first line whose number matches gives the offset of its
  beginning and its length. Its array holds 1024 bytes, but \<open>readline\<close> is called with
  \<open>BBLINE_LEN\<close>.
\<close>

fun seek_loop :: "string \<Rightarrow> (string \<times> nat) list \<Rightarrow> c_error + (int \<times> nat) option" where
  "seek_loop msg_number [] = Inr None"
| "seek_loop msg_number ((line, pos) # ls) =
     (if 1024 \<le> length line then Inl Out_of_bounds
      else if hd (line_tokens line) = msg_number
      then Inr (Some (int pos - int (length line) - 1, length line))
      else seek_loop msg_number ls)"

text \<open>The result, and what was stored in \<open>msg_len\<close> (nothing when the message is not found).\<close>

definition seek_msg_descriptor ::
  "string \<Rightarrow> board_state \<Rightarrow> c_error + (int \<times> string option \<times> board_state)" where
  "seek_msg_descriptor msg_number st = (case open_rw (source_file st) st of
      None \<Rightarrow> Inl Never_returns
    | Some st1 \<Rightarrow> (case seek_loop msg_number (scan st1) of
        Inl e \<Rightarrow> Inl e
      | Inr None \<Rightarrow> Inr (0, None, close_fd st1)
      | Inr (Some (p, line_len)) \<Rightarrow> Inr (p, Some (show_ld (int line_len)), close_fd st1)))"

text \<open>\<open>junk\<close> is what the uninitialised array \<open>msg_len\<close> happens to hold.\<close>

definition delete_descriptor ::
  "string \<Rightarrow> string \<Rightarrow> board_state \<Rightarrow> c_error + (int \<times> board_state)" where
  "delete_descriptor junk msg_number st =
     (case seek_msg_descriptor msg_number st of
        Inl e \<Rightarrow> Inl e
      | Inr (ret, msg_len, st1) \<Rightarrow>
          let lim = atoi (case msg_len of None \<Rightarrow> junk | Some s \<Rightarrow> s) in
          (case open_rw (source_file st1) st1 of
             None \<Rightarrow> Inr (- 2, st1)
           | Some st2 \<Rightarrow>
               if 3 * MAX_LEN + 4 < nat lim + 2 then Inl Out_of_bounds
               else let cfp = replicate (nat lim) BS @ [NL];
                        w = write_at (source_file st2) (nat ret) cfp st2
                    in Inr (fst w, close_fd (snd w))))"

definition replace_descriptor ::
  "string \<Rightarrow> string \<Rightarrow> string \<Rightarrow> string \<Rightarrow> board_state \<Rightarrow> c_error + (int \<times> board_state)" where
  "replace_descriptor junk msg_number user message st =
     (case delete_descriptor junk msg_number st of
        Inl e \<Rightarrow> Inl e
      | Inr (del_ret, st1) \<Rightarrow>
          if del_ret < 0 then Inr (- 2, st1)
          else (case write_descriptor (Some msg_number) (Some user) (Some message) st1 of
              (w, st2) \<Rightarrow> Inr (if w < 0 then - 2 else 0, st2)))"

section \<open>Reading\<close>

text \<open>\<open>for (j = 2; j < num_toks; j++)\<close> with a slash before every token but the first.\<close>

fun strcat_tokens :: "string \<Rightarrow> nat \<Rightarrow> string list \<Rightarrow> string" where
  "strcat_tokens acc j [] = acc"
| "strcat_tokens acc j (t # ts) = strcat_tokens ((if 2 < j then acc @ ''/'' else acc) @ t) (Suc j) ts"

definition compose_message :: "string list \<Rightarrow> string" where
  "compose_message tokens =
     (if 3 < length tokens then strcat_tokens (tokens ! 1 @ ''/'') 2 (drop 2 tokens)
      else if length tokens = 3 then tokens ! 1 @ ''/'' @ tokens ! 2
      else [])"

fun read_loop :: "string \<Rightarrow> (string \<times> nat) list \<Rightarrow> c_error + string option" where
  "read_loop msg_number [] = Inr None"
| "read_loop msg_number ((line, pos) # ls) =
     (let tokens = line_tokens line in
      if hd tokens = msg_number
      then (if MAX_LEN \<le> length (compose_message tokens) then Inl Out_of_bounds
            else Inr (Some (compose_message tokens)))
      else read_loop msg_number ls)"

text \<open>The value returned, what was stored in \<open>line_ret\<close>, and the state.\<close>

definition read_descriptor ::
  "string \<Rightarrow> board_state \<Rightarrow> c_error + (int \<times> string option \<times> board_state)" where
  "read_descriptor msg_number st = (case open_rd (source_file st) st of
      None \<Rightarrow> Inr (- 2, None, st)
    | Some st1 \<Rightarrow> (case read_loop msg_number (scan st1) of
        Inl e \<Rightarrow> Inl e
      | Inr None \<Rightarrow> Inr (- 1, None, close_fd st1)
      | Inr (Some message) \<Rightarrow> Inr (int (length message), Some message, close_fd st1)))"

text \<open>
  The tokenized form writes the caller's two arrays only when the line has a user and a message,
  does not test the \<open>open\<close>, and leaves the descriptor open when it finds the message.
\<close>

fun read_tok_loop ::
  "string \<Rightarrow> string \<times> string \<Rightarrow> (string \<times> nat) list \<Rightarrow> (string \<times> string) option" where
  "read_tok_loop msg_number um [] = None"
| "read_tok_loop msg_number um ((line, pos) # ls) =
     (let tokens = line_tokens line in
      if hd tokens = msg_number
      then Some (if 3 < length tokens then (tokens ! 1, strcat_tokens [] 2 (drop 2 tokens))
                 else if length tokens = 3 then (tokens ! 1, tokens ! 2)
                 else um)
      else read_tok_loop msg_number um ls)"

definition read_tokenized_descriptor ::
  "string \<Rightarrow> string \<Rightarrow> string \<Rightarrow> board_state \<Rightarrow> c_error + (int \<times> string \<times> string \<times> board_state)" where
  "read_tokenized_descriptor msg_number msg_user msg_message st =
     (case open_rd (source_file st) st of
        None \<Rightarrow> Inl Never_returns
      | Some st1 \<Rightarrow> (case read_tok_loop msg_number (msg_user, msg_message) (scan st1) of
            None \<Rightarrow> Inr (- 1, msg_user, msg_message, close_fd st1)
          | Some (u, m) \<Rightarrow>
              if MAX_LEN \<le> length u \<or> MAX_LEN \<le> length m then Inl Out_of_bounds
              else Inr (int (length m) + int (length u), u, m, st1)))"

end
