(* ===== verification/Board.thy ===== *)
theory Board
  imports Descriptor
begin

text \<open>
  The bulletin board as a list of lines, and the refinement of the functions of theory
  \<open>Descriptor\<close> to it: on a file that renders a list of lines, reading looks a line up, writing
  appends one, and deleting overwrites the first line of that number by backspaces, byte for byte.
  The last part states what a store of messages promises as a locale and proves it for the board.
\<close>

section \<open>Lines and files\<close>

definition render :: "string list \<Rightarrow> string" where
  "render ls = concat (map (\<lambda>l. l @ [NL]) ls)"

definition wf_line :: "string \<Rightarrow> bool" where
  "wf_line l \<longleftrightarrow> NL \<notin> set l \<and> NUL \<notin> set l \<and> length l < 1024"

definition msg_num :: "string \<Rightarrow> string" where
  "msg_num l = takeWhile (\<lambda>c. c \<noteq> SLASH) l"

definition reply :: "string \<Rightarrow> string" where
  "reply l = compose_message (line_tokens l)"

definition lookup :: "string \<Rightarrow> string list \<Rightarrow> string option" where
  "lookup n ls = find (\<lambda>l. msg_num l = n) ls"

fun erase_line :: "string \<Rightarrow> string list \<Rightarrow> string list" where
  "erase_line n [] = []"
| "erase_line n (l # ls) =
     (if msg_num l = n then replicate (length l) BS # ls else l # erase_line n ls)"

definition wf_board :: "string list \<Rightarrow> bool" where
  "wf_board ls \<longleftrightarrow> (\<forall>l \<in> set ls. wf_line l)"

text \<open>The board file of a state can be opened and holds exactly these lines.\<close>

definition board_ok :: "board_state \<Rightarrow> bool" where
  "board_ok st \<longleftrightarrow> open_fds st < fd_limit st \<and> \<not> disk_full st \<and>
     (case files st (source_file st) of None \<Rightarrow> False | Some f \<Rightarrow> may_read f \<and> may_write f)"

definition has_lines :: "board_state \<Rightarrow> string list \<Rightarrow> bool" where
  "has_lines st ls \<longleftrightarrow> file_bytes st (source_file st) = render ls \<and> wf_board ls"

definition set_lines :: "string list \<Rightarrow> board_state \<Rightarrow> board_state" where
  "set_lines ls st = st\<lparr>files := (files st)(source_file st :=
     map_option (bytes_update (\<lambda>_. render ls)) (files st (source_file st)))\<rparr>"

lemma render_simps [simp, board_simps]:
  "render [] = []"
  "render (l # ls) = l @ NL # render ls"
  "render (ls @ ms) = render ls @ render ms"
  by (simp_all add: render_def)

lemma set_lines_simps [simp]:
  "source_file (set_lines ls st) = source_file st"
  "open_fds (set_lines ls st) = open_fds st"
  "fd_limit (set_lines ls st) = fd_limit st"
  "disk_full (set_lines ls st) = disk_full st"
  "temp_list (set_lines ls st) = temp_list st"
  "board_ok (set_lines ls st) = board_ok st"
  by (auto simp: set_lines_def board_ok_def split: option.splits)

lemma has_lines_set [simp]: "board_ok st \<Longrightarrow> wf_board ls \<Longrightarrow> has_lines (set_lines ls st) ls"
  by (auto simp: has_lines_def set_lines_def board_ok_def file_bytes_def split: option.splits)

lemma set_lines_twice [simp]: "set_lines ls (set_lines ms st) = set_lines ls st"
  by (cases "files st (source_file st)") (simp_all add: set_lines_def)

lemma has_lines_unique: "has_lines st ls \<Longrightarrow> set_lines ls st = st"
  by (cases "files st (source_file st)")
    (auto simp: has_lines_def set_lines_def file_bytes_def fun_upd_idem map_option_case)

text \<open>Opening and closing the board file leaves the state as it was.\<close>

lemma open_board:
  assumes "board_ok st"
  shows "open_rd (source_file st) st = Some (st\<lparr>open_fds := Suc (open_fds st)\<rparr>)"
    and "open_rw (source_file st) st = Some (st\<lparr>open_fds := Suc (open_fds st)\<rparr>)"
  using assms by (auto simp: board_ok_def open_rd_def open_rw_def split: option.splits)

lemma close_open [simp]: "close_fd (st\<lparr>open_fds := Suc (open_fds st)\<rparr>) = st"
  by (simp add: close_fd_def)

lemma scan_open [simp]: "scan (st\<lparr>open_fds := n\<rparr>) = scan st"
  by (simp add: scan_def input_of_def file_bytes_def)

section \<open>Scanning\<close>

fun positions :: "nat \<Rightarrow> string list \<Rightarrow> (string \<times> nat) list" where
  "positions p [] = []"
| "positions p (l # ls) = (l, p + length l + 1) # positions (p + length l + 1) ls"

lemma positions_append [simp]:
  "positions p (ls @ ms) = positions p ls @ positions (p + length (render ls)) ms"
  by (induction ls arbitrary: p) (auto simp: add.assoc)

lemma read_lines_render:
  "wf_board ls \<Longrightarrow> read_lines BBLINE_LEN p (map Byte (render ls)) = positions p ls"
proof (induction ls arbitrary: p)
  case Nil
  then show ?case by simp
next
  case (Cons l ls)
  have l: "NL \<notin> set l" "NUL \<notin> set l" "length l < BBLINE_LEN"
    using Cons.prems by (auto simp: wf_board_def wf_line_def BBLINE_LEN_def)
  have "wf_board ls" using Cons.prems by (simp add: wf_board_def)
  with Cons.IH l show ?case
    using read_lines_line [OF l(1,3), of p "map Byte (render ls)"] by simp
qed

lemma scan_lines: "has_lines st ls \<Longrightarrow> scan st = positions 0 ls"
  by (simp add: scan_def input_of_def has_lines_def read_lines_render)

lemma line_tokens_split: "NUL \<notin> set l \<Longrightarrow> line_tokens l = split_tokens bbline_sep [] l"
  using bbline_tokenize_spec [of l "[]"] by (simp add: line_tokens_def)

lemma hd_line_tokens: "NUL \<notin> set l \<Longrightarrow> hd (line_tokens l) = msg_num l"
proof -
  assume "NUL \<notin> set l"
  then have "hd (line_tokens l) = takeWhile (\<lambda>c. \<not> bbline_sep c) l"
    by (subst line_tokens_split, simp, subst split_tokens.simps)
      (auto split: list.splits simp: takeWhile_eq_all_conv [THEN iffD2])
  then show ?thesis by (simp add: msg_num_def bbline_sep_def)
qed

lemma lookup_simps [simp, board_simps]:
  "lookup n [] = None"
  "lookup n (l # ls) = (if msg_num l = n then Some l else lookup n ls)"
  by (simp_all add: lookup_def)

lemma lookup_append: "lookup n (ls @ ms) = (case lookup n ls of None \<Rightarrow> lookup n ms | Some l \<Rightarrow> Some l)"
  by (induction ls) auto

lemma lookup_split:
  "lookup n ls = Some l \<Longrightarrow> \<exists>xs ys. ls = xs @ l # ys \<and> lookup n xs = None \<and> msg_num l = n"
proof (induction ls)
  case Nil
  then show ?case by simp
next
  case (Cons k ls)
  show ?case
  proof (cases "msg_num k = n")
    case True
    with Cons.prems show ?thesis by (intro exI [of _ "[]"] exI [of _ ls]) auto
  next
    case False
    with Cons obtain xs ys where "ls = xs @ l # ys" "lookup n xs = None" "msg_num l = n" by auto
    with False show ?thesis by (intro exI [of _ "k # xs"] exI [of _ ys]) auto
  qed
qed

lemma erase_line_split: "lookup n xs = None \<Longrightarrow> msg_num l = n \<Longrightarrow>
    erase_line n (xs @ l # ys) = xs @ replicate (length l) BS # ys"
  by (induction xs) (auto split: if_splits)

section \<open>The functions on a board\<close>

lemma read_loop_positions:
  "wf_board ls \<Longrightarrow> read_loop n (positions p ls) = (case lookup n ls of
      None \<Rightarrow> Inr None
    | Some l \<Rightarrow> if MAX_LEN \<le> length (reply l) then Inl Out_of_bounds else Inr (Some (reply l)))"
  by (induction ls arbitrary: p)
    (auto simp: wf_board_def wf_line_def hd_line_tokens reply_def Let_def)

lemma read_descriptor_board:
  assumes "board_ok st" and "has_lines st ls"
  shows "read_descriptor n st = (case lookup n ls of
      None \<Rightarrow> Inr (- 1, None, st)
    | Some l \<Rightarrow> if MAX_LEN \<le> length (reply l) then Inl Out_of_bounds
                else Inr (int (length (reply l)), Some (reply l), st))"
  using assms scan_lines [OF assms(2)] read_loop_positions [of ls n 0]
  by (auto simp: read_descriptor_def open_board has_lines_def split: option.splits)

lemma file_bytes_open [simp]: "file_bytes (st\<lparr>open_fds := k\<rparr>) name = file_bytes st name"
  by (simp add: file_bytes_def)

text \<open>Writing over a part of the rendered file.\<close>

lemma write_at_board:
  assumes "board_ok st" and "file_bytes st (source_file st) = a @ b @ c" and "length bs = length b \<or> b = []"
    and "b = [] \<longrightarrow> c = []"
    and "a @ bs @ c = render ms"
  shows "write_at (source_file st) (length a) bs (st\<lparr>open_fds := k\<rparr>) =
    (int (length bs), (set_lines ms st)\<lparr>open_fds := k\<rparr>)"
proof -
  have "take (length a) (a @ b @ c) @ bs @ drop (length a + length bs) (a @ b @ c) = render ms"
    using assms(3,4,5) by auto
  then show ?thesis
    using assms(1,2) by (simp add: write_at_def board_ok_def set_lines_def)
qed

lemma write_descriptor_board:
  assumes "board_ok st" and "has_lines st ls"
  shows "write_descriptor (Some n) (Some u) (Some m) st =
    (0, set_lines (ls @ [line_entry n u m]) st)"
proof -
  have w: "write_at (source_file st) (length (render ls)) (line_entry n u m @ [NL])
      (st\<lparr>open_fds := Suc (open_fds st)\<rparr>) =
      (int (length (line_entry n u m @ [NL])),
       (set_lines (ls @ [line_entry n u m]) st)\<lparr>open_fds := Suc (open_fds st)\<rparr>)"
    using assms by (intro write_at_board [where b = "[]" and c = "[]"]) (auto simp: has_lines_def)
  have "close_fd ((set_lines (ls @ [line_entry n u m]) st)\<lparr>open_fds := Suc (open_fds st)\<rparr>) =
      set_lines (ls @ [line_entry n u m]) st"
    by (simp add: close_fd_def set_lines_def)
  with w assms show ?thesis
    by (simp add: write_descriptor_def open_board has_lines_def)
qed

lemma seek_loop_found:
  assumes "wf_board (xs @ l # ys)" and "lookup n xs = None" and "msg_num l = n"
  shows "seek_loop n (positions p (xs @ l # ys)) =
    Inr (Some (int (p + length (render xs)), length l))"
  using assms
proof (induction xs arbitrary: p)
  case Nil
  then show ?case by (simp add: wf_board_def wf_line_def hd_line_tokens)
next
  case (Cons x xs)
  have x: "length x < 1024" "NUL \<notin> set x" "wf_board (xs @ l # ys)" "lookup n xs = None" "msg_num x \<noteq> n"
    using Cons.prems by (auto simp: wf_board_def wf_line_def split: if_splits)
  then show ?case
    using Cons.IH [OF x(3,4) assms(3), of "p + length x + 1"] by (simp add: hd_line_tokens)
qed

lemma seek_loop_missing:
  "wf_board ls \<Longrightarrow> lookup n ls = None \<Longrightarrow> seek_loop n (positions p ls) = Inr None"
  by (induction ls arbitrary: p) (auto simp: wf_board_def wf_line_def hd_line_tokens split: if_splits)

lemma delete_descriptor_board:
  assumes ok: "board_ok st" and ls: "has_lines st ls" and l: "lookup n ls = Some l"
  shows "delete_descriptor junk n st = Inr (int (length l) + 1, set_lines (erase_line n ls) st)"
proof -
  obtain xs ys where sp: "ls = xs @ l # ys" "lookup n xs = None" "msg_num l = n"
    using lookup_split [OF l] by blast
  have wf: "wf_board ls" using ls by (simp add: has_lines_def)
  then have len: "length l < 1024" using sp by (simp add: wf_board_def wf_line_def)
  have atoi: "atoi (show_ld (int (length l))) = int (length l)"
    using len by (intro atoi_show_ld) auto
  have seek: "seek_msg_descriptor n st =
      Inr (int (length (render xs)), Some (show_ld (int (length l))), st)"
    using ok ls seek_loop_found [of xs l ys n 0] sp wf
    by (simp add: seek_msg_descriptor_def open_board scan_lines)
  have e: "erase_line n ls = xs @ replicate (length l) BS # ys"
    using sp erase_line_split by simp
  have w: "write_at (source_file st) (length (render xs)) (replicate (length l) BS @ [NL])
      (st\<lparr>open_fds := Suc (open_fds st)\<rparr>) =
      (int (length (replicate (length l) BS @ [NL])),
       (set_lines (erase_line n ls) st)\<lparr>open_fds := Suc (open_fds st)\<rparr>)"
    using ok ls sp e
    by (intro write_at_board [where b = "l @ [NL]" and c = "render ys"]) (auto simp: has_lines_def)
  have c: "close_fd ((set_lines ms st)\<lparr>open_fds := Suc (open_fds st)\<rparr>) = set_lines ms st" for ms
    by (simp add: close_fd_def set_lines_def)
  have lim: "\<not> 3 * MAX_LEN + 4 < nat (int (length l)) + 2" using len by (simp add: MAX_LEN_def)
  show ?thesis
    unfolding delete_descriptor_def seek using w lim
    by (simp add: atoi open_board(2) [OF ok] Let_def c)
qed

lemma wf_line_erased: "wf_line l \<Longrightarrow> wf_line (replicate (length l) BS)"
  by (simp add: wf_line_def)

lemma wf_erase: "wf_board ls \<Longrightarrow> wf_board (erase_line n ls)"
  by (induction ls) (auto simp: wf_board_def wf_line_erased)

lemma replace_descriptor_board:
  assumes ok: "board_ok st" and ls: "has_lines st ls" and l: "lookup n ls = Some l"
  shows "replace_descriptor junk n u m st =
    Inr (0, set_lines (erase_line n ls @ [line_entry n u m]) st)"
proof -
  have "wf_board ls" using ls by (simp add: has_lines_def)
  then have "has_lines (set_lines (erase_line n ls) st) (erase_line n ls)"
    using ok by (simp add: wf_erase)
  with delete_descriptor_board [OF assms, of junk] ok show ?thesis
    by (simp add: replace_descriptor_def write_descriptor_board)
qed

section \<open>What a reader is shown\<close>

fun join :: "string list \<Rightarrow> string" where
  "join [] = []"
| "join [t] = t"
| "join (t # ts) = t @ SLASH # join ts"

lemma join_Cons: "ts \<noteq> [] \<Longrightarrow> join (t # ts) = t @ SLASH # join ts"
  by (cases ts) auto

lemma strcat_tokens_join:
  "2 < j \<Longrightarrow> strcat_tokens acc j ts = acc @ (if ts = [] then [] else SLASH # join ts)"
proof (induction acc j ts rule: strcat_tokens.induct)
  case (1 acc j)
  then show ?case by simp
next
  case (2 acc j t ts)
  then show ?case by (cases ts) auto
qed

lemma strcat_tokens_2: "strcat_tokens acc 2 ts = acc @ join ts"
  by (cases ts) (auto simp: strcat_tokens_join join_Cons)

lemma compose_message_join:
  "compose_message ts = (if 3 \<le> length ts then join (tl ts) else [])"
proof (cases "3 \<le> length ts")
  case True
  then obtain a b c ds where ts: "ts = a # b # c # ds"
    by (metis Suc_le_length_iff numeral_3_eq_3)
  show ?thesis
  proof (cases "ds = []")
    case True
    with ts show ?thesis by (simp add: compose_message_def)
  next
    case False
    with ts have "compose_message ts = strcat_tokens (b @ ''/'') 2 (c # ds)"
      by (simp add: compose_message_def del: strcat_tokens.simps)
    also have "\<dots> = join (tl ts)" using ts by (simp add: strcat_tokens_2 join_Cons del: strcat_tokens.simps)
    finally show ?thesis using ts by simp
  qed
next
  case False
  then show ?thesis by (simp add: compose_message_def)
qed

text \<open>No slash at the end, and none before a blank: such text survives tokenizing unchanged.\<close>

fun slash_clean :: "string \<Rightarrow> bool" where
  "slash_clean [] = True"
| "slash_clean (c # cs) \<longleftrightarrow> (c = SLASH \<longrightarrow> cs \<noteq> [] \<and> hd cs \<noteq> SP) \<and> slash_clean cs"

abbreviation drop_blanks :: "string \<Rightarrow> string" where
  "drop_blanks s \<equiv> dropWhile (\<lambda>c. c = SP) s"

lemma slash_clean_append: "slash_clean (s @ t) \<Longrightarrow> slash_clean t"
  by (induction s) auto

lemma slash_clean_drop: "slash_clean s \<Longrightarrow> slash_clean (drop_blanks s)"
  by (induction s) auto

lemma split_at_slash:
  "SLASH \<in> set s \<Longrightarrow> s = takeWhile (\<lambda>c. \<not> bbline_sep c) s @ SLASH # tl (dropWhile (\<lambda>c. \<not> bbline_sep c) s)"
  by (induction s) (auto simp: bbline_sep_def)

lemma split_tokens_slash:
  "SLASH \<notin> set a \<Longrightarrow> split_tokens bbline_sep [] (a @ SLASH # r) =
     a # (if drop_blanks r = [] then [] else split_tokens bbline_sep [] (drop_blanks r))"
  by (rule split_tokens_sep) (auto simp: bbline_sep_def)

lemma split_tokens_no_slash: "SLASH \<notin> set s \<Longrightarrow> split_tokens bbline_sep [] s = [s]"
  by (subst split_tokens_nosep) (auto simp: bbline_sep_def)

lemma join_split_length: "length (join (split_tokens bbline_sep [] s)) \<le> length s"
proof (induction "length s" arbitrary: s rule: less_induct)
  case less
  show ?case
  proof (cases "SLASH \<in> set s")
    case False
    then show ?thesis by (simp add: split_tokens_no_slash)
  next
    case True
    then obtain a r where s: "s = a @ SLASH # r" "SLASH \<notin> set a"
      using split_list_first by metis
    have le: "length (drop_blanks r) \<le> length r" by (rule length_dropWhile_le)
    then have "length (join (split_tokens bbline_sep [] (drop_blanks r))) \<le> length (drop_blanks r)"
      using s by (intro less.hyps) simp
    with s le show ?thesis by (simp add: split_tokens_slash join_Cons)
  qed
qed

lemma join_split_rest: "slash_clean s \<Longrightarrow> join (split_tokens bbline_sep rest s) = s @ rest"
proof (induction "length s" arbitrary: s rule: less_induct)
  case less
  show ?case
  proof (cases "SLASH \<in> set s")
    case False
    then show ?thesis by (subst split_tokens_nosep) (auto simp: bbline_sep_def)
  next
    case True
    then obtain a r where s: "s = a @ SLASH # r" "SLASH \<notin> set a"
      using split_list_first by metis
    with less.prems have "slash_clean (SLASH # r)" using slash_clean_append by blast
    then have r: "r \<noteq> []" "hd r \<noteq> SP" "slash_clean r" by auto
    then have d: "drop_blanks r = r" by (cases r) auto
    have "split_tokens bbline_sep rest s = a # split_tokens bbline_sep rest r"
      using split_tokens_sep [of a bbline_sep SLASH rest r] s d r(1) by (auto simp: bbline_sep_def)
    with less.hyps [of r] r s show ?thesis by (simp add: join_Cons)
  qed
qed

lemma join_split_clean: "slash_clean s \<Longrightarrow> join (split_tokens bbline_sep [] s) = s"
  using join_split_rest [of s "[]"] by simp

lemma reply_length: "NUL \<notin> set l \<Longrightarrow> length (reply l) \<le> length l"
proof -
  assume "NUL \<notin> set l"
  moreover have "length (join (tl ts)) \<le> length (join ts)" for ts
    by (cases ts rule: join.cases) auto
  ultimately show ?thesis
    using join_split_length [of l] order_trans
    by (fastforce simp: reply_def line_tokens_split compose_message_join)
qed

lemma reply_short: "wf_line l \<Longrightarrow> length (reply l) < MAX_LEN"
  using reply_length [of l] by (simp add: wf_line_def MAX_LEN_def)

text \<open>The tokens of a posted line, and so what is shown of it.\<close>

lemma tokens_entry:
  assumes "NUL \<notin> set (n @ u @ m)" "SLASH \<notin> set n" "SLASH \<notin> set u" "drop_blanks m \<noteq> []"
  shows "line_tokens (line_entry n u m) =
    n # drop_blanks u # split_tokens bbline_sep [] (drop_blanks m)"
proof -
  have d: "drop_blanks (u @ SLASH # m) = drop_blanks u @ SLASH # m"
    by (induction u) auto
  have "SLASH \<notin> set (drop_blanks u)" using assms(3) by (meson set_dropWhileD)
  with assms d show ?thesis
    by (auto simp: line_tokens_split line_entry_def split_tokens_slash)
qed

lemma reply_entry:
  assumes "NUL \<notin> set (n @ u @ m)" "SLASH \<notin> set n" "SLASH \<notin> set u" "drop_blanks m \<noteq> []"
    and "slash_clean m"
  shows "reply (line_entry n u m) = drop_blanks u @ ''/'' @ drop_blanks m"
proof -
  have "0 < length (split_tokens bbline_sep [] (drop_blanks m))" by simp
  then have "3 \<le> length (n # drop_blanks u # split_tokens bbline_sep [] (drop_blanks m))"
    by (simp only: list.size)
  then show ?thesis
    using assms tokens_entry [OF assms(1-4)] join_split_clean [OF slash_clean_drop [OF assms(5)]]
    by (simp add: reply_def compose_message_join join_Cons)
qed

text \<open>
  Cutting a line at the slashes and joining the tokens gives the line back, unless a
  slash is at its end or before a blank.
\<close>

theorem line_tokens_roundtrip:
  assumes "NUL \<notin> set s" and "slash_clean s"
  shows "join (line_tokens s) = s"
  using assms by (simp add: line_tokens_split join_split_clean)

theorem line_tokens_roundtrip_witness: "join (line_tokens ''6/bob/jack/jill'') = ''6/bob/jack/jill''"
  using line_tokens_roundtrip [of "''6/bob/jack/jill''"] by simp

end
