(* ===== verification/MessageStore.thy ===== *)
theory MessageStore
  imports Board
begin

text \<open>
  What the descriptor module promises the sessions, as a contract over any store of messages, and
  its proof for the functions of \<open>src/descriptor.cc\<close> on the board file. The clients of the
  contract are replacing (erase, then post under the same number) and undoing, which is what a
  peer does when the master server aborts.
\<close>

section \<open>The contract\<close>

locale message_store =
  fixes inv :: "'s \<Rightarrow> bool"
    and view :: "'s \<Rightarrow> string \<Rightarrow> string option"
    and post :: "string \<Rightarrow> string \<Rightarrow> string \<Rightarrow> 's \<Rightarrow> 's"
    and erase :: "string \<Rightarrow> 's \<Rightarrow> 's"
    and number :: "string \<Rightarrow> bool"
    and fits :: "string \<Rightarrow> string \<Rightarrow> string \<Rightarrow> bool"
    and shown :: "string \<Rightarrow> string \<Rightarrow> string"
  assumes inv_post:
    "inv s \<Longrightarrow> number n \<Longrightarrow> fits n u m \<Longrightarrow> view s n = None \<Longrightarrow> inv (post n u m s)"
    and inv_erase: "inv s \<Longrightarrow> number n \<Longrightarrow> view s n \<noteq> None \<Longrightarrow> inv (erase n s)"
    and view_post: "inv s \<Longrightarrow> number n \<Longrightarrow> fits n u m \<Longrightarrow> view s n = None \<Longrightarrow> number k \<Longrightarrow>
      view (post n u m s) k = (if k = n then Some (shown u m) else view s k)"
    and view_erase: "inv s \<Longrightarrow> number n \<Longrightarrow> view s n \<noteq> None \<Longrightarrow> number k \<Longrightarrow>
      view (erase n s) k = (if k = n then None else view s k)"
begin

text \<open>Erasing what was posted under a new number takes every reader back.\<close>

lemma undo_post:
  assumes "inv s" "number n" "fits n u m" "view s n = None" "number k"
  shows "view (erase n (post n u m s)) k = view s k"
  using assms view_erase [OF inv_post [OF assms(1-4)] assms(2) _ assms(5)]
  by (simp add: view_post)

definition replace_msg :: "string \<Rightarrow> string \<Rightarrow> string \<Rightarrow> 's \<Rightarrow> 's" where
  "replace_msg n u m s = post n u m (erase n s)"

lemma erased_absent: "inv s \<Longrightarrow> number n \<Longrightarrow> view s n \<noteq> None \<Longrightarrow> view (erase n s) n = None"
  by (simp add: view_erase)

lemma inv_replace:
  "inv s \<Longrightarrow> number n \<Longrightarrow> view s n \<noteq> None \<Longrightarrow> fits n u m \<Longrightarrow> inv (replace_msg n u m s)"
  by (simp add: replace_msg_def inv_post inv_erase erased_absent)

lemma view_replace:
  assumes "inv s" "number n" "view s n \<noteq> None" "fits n u m" "number k"
  shows "view (replace_msg n u m s) k = (if k = n then Some (shown u m) else view s k)"
  using assms by (simp add: replace_msg_def view_post inv_erase erased_absent view_erase)

text \<open>Replacing again by a text that shows as the old one did takes every reader back.\<close>

lemma undo_replace:
  assumes "inv s" "number n" "fits n u m" "fits n u' m'" "number k"
    and "view s n = Some (shown u' m')"
  shows "view (replace_msg n u' m' (replace_msg n u m s)) k = view s k"
proof -
  have s: "view s n \<noteq> None" using assms(6) by simp
  have "inv (replace_msg n u m s)" "view (replace_msg n u m s) n \<noteq> None"
    using assms s by (auto simp: inv_replace view_replace)
  with assms s show ?thesis by (simp add: view_replace)
qed

end

section \<open>The functions of the module as such operations\<close>

text \<open>What a \<open>READ\<close> of a number gets; what the state is after the two writing functions.\<close>

definition read_view :: "board_state \<Rightarrow> string \<Rightarrow> string option" where
  "read_view st n = (case read_descriptor n st of
      Inl e \<Rightarrow> None
    | Inr (ret, line_ret, st') \<Rightarrow> if ret < 0 then None else line_ret)"

definition post_line :: "string \<Rightarrow> string \<Rightarrow> string \<Rightarrow> board_state \<Rightarrow> board_state" where
  "post_line n u m st = snd (write_descriptor (Some n) (Some u) (Some m) st)"

definition erase_msg :: "string \<Rightarrow> board_state \<Rightarrow> board_state" where
  "erase_msg n st = (case delete_descriptor [] n st of Inl e \<Rightarrow> st | Inr (r, st') \<Rightarrow> st')"

definition ok_num :: "string \<Rightarrow> bool" where
  "ok_num n \<longleftrightarrow> n \<noteq> [] \<and> set n \<inter> {SLASH, NL, NUL, BS, SP} = {}"

definition fits_line :: "string \<Rightarrow> string \<Rightarrow> string \<Rightarrow> bool" where
  "fits_line n u m \<longleftrightarrow> SLASH \<notin> set u \<and> drop_blanks m \<noteq> [] \<and> slash_clean m \<and>
     wf_line (line_entry n u m)"

definition shown_as :: "string \<Rightarrow> string \<Rightarrow> string" where
  "shown_as u m = drop_blanks u @ ''/'' @ drop_blanks m"

text \<open>No valid number is used by two lines; erased lines carry no valid number.\<close>

definition unique_nums :: "string list \<Rightarrow> bool" where
  "unique_nums ls \<longleftrightarrow> distinct (filter ok_num (map msg_num ls))"

definition board_inv :: "board_state \<Rightarrow> bool" where
  "board_inv st \<longleftrightarrow> board_ok st \<and> (\<exists>ls. has_lines st ls \<and> unique_nums ls)"

lemma board_invE:
  assumes "board_inv st"
  obtains ls where "board_ok st" "has_lines st ls" "wf_board ls" "unique_nums ls"
  using assms by (auto simp: board_inv_def has_lines_def)

lemma read_view_lines:
  assumes "board_ok st" "has_lines st ls"
  shows "read_view st n = map_option reply (lookup n ls)"
proof (cases "lookup n ls")
  case None
  with assms show ?thesis by (simp add: read_view_def read_descriptor_board)
next
  case (Some l)
  then have "wf_line l" using assms(2) lookup_split [OF Some]
    by (auto simp: has_lines_def wf_board_def)
  with Some assms reply_short [of l] show ?thesis
    by (simp add: read_view_def read_descriptor_board)
qed

lemma post_line_lines:
  assumes "board_ok st" "has_lines st ls"
  shows "post_line n u m st = set_lines (ls @ [line_entry n u m]) st"
  using assms by (simp add: post_line_def write_descriptor_board)

lemma erase_msg_lines:
  assumes "board_ok st" "has_lines st ls" "lookup n ls \<noteq> None"
  shows "erase_msg n st = set_lines (erase_line n ls) st"
  using assms by (auto simp: erase_msg_def delete_descriptor_board)

lemma msg_num_entry: "SLASH \<notin> set n \<Longrightarrow> msg_num (line_entry n u m) = n"
  by (simp add: msg_num_def line_entry_def takeWhile_append)

lemma ok_num_no_slash: "ok_num n \<Longrightarrow> SLASH \<notin> set n"
  by (auto simp: ok_num_def)

lemma lookup_None_iff: "lookup n ls = None \<longleftrightarrow> n \<notin> msg_num ` set ls"
  by (induction ls) auto

lemma msg_num_erased: "\<not> ok_num (msg_num (replicate k BS))"
proof -
  have "takeWhile (\<lambda>c. c \<noteq> SLASH) (replicate k BS) = replicate k BS"
    by (simp add: takeWhile_eq_all_conv)
  then show ?thesis by (cases k) (auto simp: msg_num_def ok_num_def)
qed

lemma erase_line_nums:
  "ok_num n \<Longrightarrow> filter ok_num (map msg_num (erase_line n ls)) = remove1 n (filter ok_num (map msg_num ls))"
  by (induction ls) (auto simp: msg_num_erased)

lemma lookup_erase_other:
  "ok_num k \<Longrightarrow> k \<noteq> n \<Longrightarrow> lookup k (erase_line n ls) = lookup k ls"
  by (induction ls) (auto simp: msg_num_erased)

lemma lookup_erase_same:
  assumes "ok_num n" "unique_nums ls"
  shows "lookup n (erase_line n ls) = None"
proof -
  have "n \<notin> set (remove1 n (filter ok_num (map msg_num ls)))"
    using assms(2) by (simp add: unique_nums_def)
  then have "n \<notin> set (filter ok_num (map msg_num (erase_line n ls)))"
    using erase_line_nums [OF assms(1), of ls] by simp
  with assms(1) show ?thesis by (auto simp: lookup_None_iff)
qed

lemma unique_post:
  "unique_nums ls \<Longrightarrow> ok_num n \<Longrightarrow> lookup n ls = None \<Longrightarrow> unique_nums (ls @ [line_entry n u m])"
  by (auto simp: unique_nums_def msg_num_entry ok_num_no_slash lookup_None_iff)

lemma unique_erase: "ok_num n \<Longrightarrow> unique_nums ls \<Longrightarrow> unique_nums (erase_line n ls)"
  by (simp add: unique_nums_def erase_line_nums)

lemma reply_posted: "ok_num n \<Longrightarrow> fits_line n u m \<Longrightarrow> reply (line_entry n u m) = shown_as u m"
  using reply_entry [of n u m]
  by (simp add: fits_line_def shown_as_def wf_line_def line_entry_def ok_num_no_slash)

interpretation bb: message_store board_inv read_view post_line erase_msg ok_num fits_line shown_as
proof unfold_locales
  fix st n u m k
  assume inv: "board_inv st" and n: "ok_num n"
  from inv obtain ls where ls: "board_ok st" "has_lines st ls" "wf_board ls" "unique_nums ls"
    by (rule board_invE)
  note rv = read_view_lines [OF ls(1,2)]
  {
    assume f: "fits_line n u m" and v: "read_view st n = None"
    then have abs: "lookup n ls = None" using rv by simp
    have wf: "wf_board (ls @ [line_entry n u m])"
      using f ls(3) by (auto simp: wf_board_def fits_line_def)
    have post: "post_line n u m st = set_lines (ls @ [line_entry n u m]) st"
      using ls by (simp add: post_line_lines)
    have has: "has_lines (set_lines (ls @ [line_entry n u m]) st) (ls @ [line_entry n u m])"
      using ls(1) wf by simp
    show "board_inv (post_line n u m st)"
      unfolding post board_inv_def using ls(1) has unique_post [OF ls(4) n abs] by auto
    assume k: "ok_num k"
    have "read_view (post_line n u m st) k = map_option reply (lookup k (ls @ [line_entry n u m]))"
      unfolding post using ls(1) has by (intro read_view_lines) auto
    then show "read_view (post_line n u m st) k = (if k = n then Some (shown_as u m) else read_view st k)"
      using rv [of k] abs n f by (auto simp: lookup_append msg_num_entry ok_num_no_slash reply_posted
          split: option.splits)
  }
  {
    assume v: "read_view st n \<noteq> None"
    then have pres: "lookup n ls \<noteq> None" using rv by simp
    have erase: "erase_msg n st = set_lines (erase_line n ls) st"
      using ls pres by (simp add: erase_msg_lines)
    have has: "has_lines (set_lines (erase_line n ls) st) (erase_line n ls)"
      using ls by (simp add: wf_erase)
    show "board_inv (erase_msg n st)"
      unfolding erase board_inv_def using ls(1) has unique_erase [OF n ls(4)] by auto
    assume k: "ok_num k"
    have "read_view (erase_msg n st) k = map_option reply (lookup k (erase_line n ls))"
      unfolding erase using ls(1) has by (intro read_view_lines) auto
    then show "read_view (erase_msg n st) k = (if k = n then None else read_view st k)"
      using rv [of k] k lookup_erase_same [OF n ls(4)] lookup_erase_other [OF k, of n ls] by auto
  }
qed

text \<open>\<open>replace_descriptor\<close> is the replacing of the contract.\<close>

lemma replace_descriptor_replaces:
  assumes "board_inv st" and "read_view st n \<noteq> None"
  shows "replace_descriptor junk n u m st = Inr (0, bb.replace_msg n u m st)"
proof -
  obtain ls where ls: "board_ok st" "has_lines st ls" "wf_board ls"
    using assms(1) by (rule board_invE)
  have pres: "lookup n ls \<noteq> None" using assms(2) read_view_lines [OF ls(1,2)] by simp
  have "erase_msg n st = set_lines (erase_line n ls) st" using ls pres by (simp add: erase_msg_lines)
  moreover have "has_lines (set_lines (erase_line n ls) st) (erase_line n ls)"
    using ls by (simp add: wf_erase)
  ultimately have "bb.replace_msg n u m st = set_lines (erase_line n ls @ [line_entry n u m]) st"
    using ls(1) by (simp add: bb.replace_msg_def post_line_lines)
  with pres ls replace_descriptor_board show ?thesis by auto
qed

text \<open>The frame of the operations: they change nothing but the board file.\<close>

lemma write_descriptor_posts:
  "board_inv st \<Longrightarrow> write_descriptor (Some n) (Some u) (Some m) st = (0, post_line n u m st)"
  by (auto elim!: board_invE simp: post_line_def write_descriptor_board)

lemma delete_descriptor_erases:
  assumes "board_inv st" and "read_view st n \<noteq> None"
  shows "\<exists>r. 0 < r \<and> delete_descriptor junk n st = Inr (r, erase_msg n st)"
proof -
  obtain ls where ls: "board_ok st" "has_lines st ls" "wf_board ls"
    using assms(1) by (rule board_invE)
  then obtain l where "lookup n ls = Some l" using assms(2) read_view_lines [OF ls(1,2)] by auto
  with ls delete_descriptor_board show ?thesis by (simp add: erase_msg_lines)
qed

section \<open>Sample states\<close>

text \<open>A process with a readable and writable board file of the given lines, for the examples.\<close>

definition sample_board :: "string list \<Rightarrow> board_state" where
  "sample_board ls = \<lparr>source_file = ''bbfile.txt'',
     files = [''bbfile.txt'' \<mapsto> \<lparr>bytes = render ls, may_read = True, may_write = True\<rparr>],
     open_fds = 3, fd_limit = 1024, disk_full = False, dir_writable = True, temp_list = []\<rparr>"

lemma sample_board_ok: "board_ok (sample_board ls)"
  by (simp add: board_ok_def sample_board_def)

lemma sample_has_lines: "wf_board ls \<Longrightarrow> has_lines (sample_board ls) ls"
  by (simp add: has_lines_def file_bytes_def sample_board_def)

lemma sample_inv: "wf_board ls \<Longrightarrow> unique_nums ls \<Longrightarrow> board_inv (sample_board ls)"
  unfolding board_inv_def using sample_board_ok sample_has_lines by blast

lemma sample_view: "wf_board ls \<Longrightarrow> read_view (sample_board ls) n = map_option reply (lookup n ls)"
  by (rule read_view_lines [OF sample_board_ok sample_has_lines])

lemma sample_empty: "board_inv (sample_board [])" "read_view (sample_board []) n = None"
  by (simp_all add: sample_inv sample_view wf_board_def unique_nums_def)

lemma sample_line: "wf_board [''1/bob/hi'']" "unique_nums [''1/bob/hi'']"
  by (simp_all add: wf_board_def wf_line_def unique_nums_def)

lemma sample_line_view: "read_view (sample_board [''1/bob/hi'']) ''1'' = Some ''bob/hi''"
proof -
  have "reply (line_entry ''1'' ''bob'' ''hi'') = shown_as ''bob'' ''hi''"
    by (rule reply_posted) (simp_all add: ok_num_def fits_line_def wf_line_def line_entry_def)
  then have "reply ''1/bob/hi'' = ''bob/hi''" by (simp add: line_entry_def shown_as_def)
  then show ?thesis by (simp add: sample_view [OF sample_line(1)] msg_num_def)
qed

lemma ok_num_digits: "ok_num ''1''" "ok_num ''2''"
  by (simp_all add: ok_num_def)

lemma fits_sample: "fits_line ''2'' ''bob'' ''hi''" "fits_line ''1'' ''eve'' ''hello all''"
  by (simp_all add: fits_line_def wf_line_def line_entry_def)

section \<open>The messages a client sees\<close>

text \<open>
  Property C20: a message written under a new number is what every later reader of that number gets,
  and no other message changes.
\<close>

theorem written_then_read:
  assumes "board_inv st" and "ok_num n" and "fits_line n u m" and "read_view st n = None"
  shows "\<exists>st'. write_descriptor (Some n) (Some u) (Some m) st = (0, st') \<and> board_inv st' \<and>
    read_descriptor n st' = Inr (int (length (shown_as u m)), Some (shown_as u m), st') \<and>
    (\<forall>k. ok_num k \<and> k \<noteq> n \<longrightarrow> read_view st' k = read_view st k)"
proof -
  let ?st' = "post_line n u m st"
  have inv: "board_inv ?st'" using bb.inv_post [OF assms] .
  then obtain ls where ls: "board_ok ?st'" "has_lines ?st' ls" by (rule board_invE)
  have v: "read_view ?st' n = Some (shown_as u m)" using bb.view_post [OF assms assms(2)] by simp
  then obtain l where l: "lookup n ls = Some l" "reply l = shown_as u m"
    using read_view_lines [OF ls] by auto
  have "wf_line l" using ls(2) lookup_split [OF l(1)] by (auto simp: has_lines_def wf_board_def)
  then have "read_descriptor n ?st' = Inr (int (length (shown_as u m)), Some (shown_as u m), ?st')"
    using reply_short [of l] l by (simp add: read_descriptor_board [OF ls])
  moreover have "\<forall>k. ok_num k \<and> k \<noteq> n \<longrightarrow> read_view ?st' k = read_view st k"
    using bb.view_post [OF assms] by simp
  ultimately show ?thesis using inv write_descriptor_posts [OF assms(1)] by blast
qed

theorem written_then_read_witness:
  "\<exists>st'. write_descriptor (Some ''2'') (Some ''bob'') (Some ''hi'') (sample_board [''1/bob/hi'']) = (0, st') \<and>
    read_descriptor ''2'' st' = Inr (6, Some ''bob/hi'', st') \<and> read_view st' ''1'' = Some ''bob/hi''"
proof -
  have v: "read_view (sample_board [''1/bob/hi'']) ''2'' = None"
    by (simp add: sample_view [OF sample_line(1)] msg_num_def)
  obtain st' where st': "write_descriptor (Some ''2'') (Some ''bob'') (Some ''hi'') (sample_board [''1/bob/hi'']) = (0, st')"
    "read_descriptor ''2'' st' = Inr (int (length (shown_as ''bob'' ''hi'')), Some (shown_as ''bob'' ''hi''), st')"
    "\<forall>k. ok_num k \<and> k \<noteq> ''2'' \<longrightarrow> read_view st' k = read_view (sample_board [''1/bob/hi'']) k"
    using written_then_read [OF sample_inv [OF sample_line] ok_num_digits(2) fits_sample(1) v] by blast
  have "read_view st' ''1'' = Some ''bob/hi''" using st'(3) ok_num_digits(1) sample_line_view by simp
  with st'(1,2) show ?thesis by (simp add: shown_as_def)
qed

text \<open>
  Property C21: erasing a message overwrites its line by as many backspaces and touches no other
  byte of the file.
\<close>

theorem delete_overwrites_line:
  assumes "board_ok st" and "has_lines st ls" and "lookup n ls = Some l"
  shows "\<exists>xs ys st'. delete_descriptor junk n st = Inr (int (length l) + 1, st') \<and>
    file_bytes st (source_file st) = render xs @ l @ NL # render ys \<and>
    file_bytes st' (source_file st) = render xs @ replicate (length l) BS @ NL # render ys \<and>
    files st' = (files st)(source_file st := files st' (source_file st))"
proof -
  obtain xs ys where sp: "ls = xs @ l # ys" "lookup n xs = None" "msg_num l = n"
    using lookup_split [OF assms(3)] by blast
  have e: "erase_line n ls = xs @ replicate (length l) BS # ys" using sp erase_line_split by simp
  have wf: "wf_board (erase_line n ls)" using assms(2) by (simp add: has_lines_def wf_erase)
  let ?st' = "set_lines (erase_line n ls) st"
  have "file_bytes ?st' (source_file st) = render (erase_line n ls)"
    using has_lines_set [OF assms(1) wf] by (simp add: has_lines_def)
  moreover have "files ?st' = (files st)(source_file st := files ?st' (source_file st))"
    by (simp add: set_lines_def)
  ultimately show ?thesis
    using delete_descriptor_board [OF assms, of junk] assms(2) sp(1) e
    by (intro exI [of _ xs] exI [of _ ys] exI [of _ ?st']) (simp add: has_lines_def)
qed

theorem delete_overwrites_line_witness:
  "\<exists>xs ys st'. delete_descriptor [] ''1'' (sample_board [''1/bob/hi'']) = Inr (9, st') \<and>
    file_bytes st' ''bbfile.txt'' = render xs @ replicate 8 BS @ NL # render ys"
proof -
  have l: "lookup ''1'' [''1/bob/hi''] = Some ''1/bob/hi''" by (simp add: msg_num_def)
  have eq: "length ''1/bob/hi'' = 8" "source_file (sample_board [''1/bob/hi'']) = ''bbfile.txt''"
    "int 8 + 1 = 9" by (simp_all add: sample_board_def)
  show ?thesis
    using delete_overwrites_line [OF sample_board_ok sample_has_lines [OF sample_line(1)] l, of "[]"]
    unfolding eq by blast
qed

end
