(* ===== verification/Requests.thy ===== *)
theory Requests
  imports MessageStore
begin

text \<open>
  What the two kinds of sessions share: reading a request line, cutting it into tokens, and putting
  tokens together again (\<open>server_operations\<close> and \<open>peer_receiver_operations\<close> repeat this code).
  Arrays the code never initialises are arguments (\<open>junk\<close>): the theorems say what they need of
  them.
\<close>

section \<open>From the socket to tokens\<close>

text \<open>
  \<open>readline(ssock, request, MAX_LEN)\<close>: nothing when it returned \<open>recv_nodata\<close>; otherwise the C
  string in the array, which has \<open>MAX_LEN\<close> bytes, and the rest of the input.
\<close>

definition read_request ::
  "rd list \<Rightarrow> string \<Rightarrow> (c_error + string \<times> string \<times> rd list) option" where
  "read_request fd request = (case readline fd request MAX_LEN of (ret, request', rest) \<Rightarrow>
     if ret = recv_nodata then None
     else if MAX_LEN < length request' then Some (Inl Out_of_bounds)
     else Some (Inr (cstr request', request', rest)))"

lemma read_request_consumes:
  assumes "read_request fd buf = Some (Inr (request, buf', rest))"
  shows "length rest < length fd"
proof -
  obtain ret b r where rl: "readline fd buf MAX_LEN = (ret, b, r)" by (metis prod_cases3)
  with assms have "ret \<noteq> recv_nodata" "rest = r" by (auto simp: read_request_def split: if_splits)
  then show ?thesis using readline_consumes [of fd buf MAX_LEN] rl by (simp add: MAX_LEN_def)
qed

lemma read_request_line:
  assumes "NL \<notin> set l" "NUL \<notin> set l" "length l < MAX_LEN" "length buf = MAX_LEN"
  shows "\<exists>buf'. length buf' = MAX_LEN \<and>
    read_request (map Byte l @ Byte NL # rest) buf = Some (Inr (l, buf', rest))"
  using assms readline_line [OF assms(1,3), of rest buf]
  by (auto simp: read_request_def recv_nodata_def)

lemma read_request_eof: "read_request [] buf = None"
  using readline_eof [of MAX_LEN buf] by (simp add: read_request_def MAX_LEN_def)

text \<open>
  The loop \<open>while (readline(...) != recv_nodata)\<close> of both kinds of sessions. The handler of a
  request gives the bytes sent, whether the loop goes on, and the new state.
\<close>

function serve ::
  "(string \<Rightarrow> 's \<Rightarrow> c_error + string \<times> bool \<times> 's) \<Rightarrow> string \<Rightarrow> rd list \<Rightarrow> 's \<Rightarrow>
   c_error + string \<times> 's" where
  "serve handler buf fd s = (case read_request fd buf of
      None \<Rightarrow> Inr ([], s)
    | Some r \<Rightarrow> (case r of
        Inl e \<Rightarrow> Inl e
      | Inr (request, buf', rest) \<Rightarrow> (case handler request s of
          Inl e \<Rightarrow> Inl e
        | Inr (out, on, s') \<Rightarrow>
            if on then (case serve handler buf' rest s' of
                Inl e \<Rightarrow> Inl e
              | Inr (out', s'') \<Rightarrow> Inr (out @ out', s''))
            else Inr (out, s'))))"
  by pat_completeness auto
termination
  by (relation "measure (\<lambda>(handler, buf, fd, s). length fd)") (auto dest: read_request_consumes)

declare serve.simps [simp del]

lemma serve_end: "serve handler buf [] s = Inr ([], s)"
  by (subst serve.simps) (simp add: read_request_eof)

text \<open>A complete line that fits is handed to the handler as it is.\<close>

lemma serve_line:
  assumes "NL \<notin> set l" "NUL \<notin> set l" "length l < MAX_LEN" "length buf = MAX_LEN"
  shows "\<exists>buf'. length buf' = MAX_LEN \<and>
    serve handler buf (map Byte l @ Byte NL # rest) s = (case handler l s of
          Inl e \<Rightarrow> Inl e
        | Inr (out, on, s') \<Rightarrow>
            if on then (case serve handler buf' rest s' of
                Inl e \<Rightarrow> Inl e
              | Inr (out', s'') \<Rightarrow> Inr (out @ out', s''))
            else Inr (out, s'))"
proof -
  obtain buf' where "length buf' = MAX_LEN"
    "read_request (map Byte l @ Byte NL # rest) buf = Some (Inr (l, buf', rest))"
    using read_request_line [OF assms] by blast
  then show ?thesis by (intro exI [of _ buf']) (subst serve.simps, simp)
qed

text \<open>A failing \<open>read\<close> is not the end of the session: the previous request is handled again.\<close>

lemma serve_fail:
  "length buf \<le> MAX_LEN \<Longrightarrow> read_request (Fail # rest) buf = Some (Inr (cstr buf, buf, rest))"
  by (simp add: read_request_def readline_def MAX_LEN_def overwrite_def recv_nodata_def
      numeral_eq_Suc)

text \<open>\<open>request[strlen(request)-1]='\0'\<close>, which writes before the array when the line is empty.\<close>

definition chop :: "string \<Rightarrow> c_error + string" where
  "chop request = (if request = [] then Inl Out_of_bounds else Inr (butlast request))"

definition command_tokens :: "string \<Rightarrow> string list" where
  "command_tokens request = token_texts (str_tokenize (request @ [NUL]) (length request))"

section \<open>From tokens to text\<close>

text \<open>
  The loops \<open>sprintf(message, "%s %s", message, command[i])\<close>, starting from what \<open>message\<close> holds:
  each round appends a blank and a token in place.
\<close>

definition append_args :: "string \<Rightarrow> string list \<Rightarrow> string" where
  "append_args message args = message @ concat (map (\<lambda>t. SP # t) args)"

text \<open>The loops \<open>strcat(repl_request, command[x]); strcat(repl_request, " ")\<close>.\<close>

definition strcat_args :: "string list \<Rightarrow> string" where
  "strcat_args args = concat (map (\<lambda>t. t @ '' '') args)"

text \<open>
  \<open>bbline_tokenize(repl_request, repl_tokens, strlen(command[1]))\<close>: as many bytes of the array are
  scanned as the token \<open>command[1]\<close> is long, whatever the array holds there.
\<close>

definition repl_split :: "string \<Rightarrow> string \<Rightarrow> nat \<Rightarrow> string list" where
  "repl_split junk repl_request n = token_texts (bbline_tokenize (repl_request @ NUL # junk) n)"

text \<open>The message is made of the tokens after the first.\<close>

definition repl_message :: "string list \<Rightarrow> string option" where
  "repl_message repl_tokens =
     (if 2 < length repl_tokens then Some (join (tl repl_tokens))
      else if length repl_tokens = 2 then Some (repl_tokens ! 1)
      else None)"

section \<open>Tokens of a request of words\<close>

definition word_ok :: "string \<Rightarrow> bool" where
  "word_ok w \<longleftrightarrow> w \<noteq> [] \<and> set w \<inter> {SP, CHR ''='', NUL, NL} = {}"

text \<open>Words with at least one blank before each.\<close>

fun blanked :: "(nat \<times> string) list \<Rightarrow> string" where
  "blanked [] = []"
| "blanked ((k, w) # ws) = SP # replicate k SP @ w @ blanked ws"

lemma drop_blanks_replicate: "drop_blanks (replicate k SP @ s) = drop_blanks s"
  by (induction k) auto

lemma drop_blanks_word: "word_ok w \<Longrightarrow> drop_blanks (w @ s) = w @ s"
  by (cases w) (auto simp: word_ok_def)

lemma word_no_sep: "word_ok w \<Longrightarrow> c \<in> set w \<Longrightarrow> \<not> str_sep c"
  by (auto simp: word_ok_def str_sep_def)

lemma tokens_blanked:
  "word_ok w \<Longrightarrow> \<forall>(k, v) \<in> set ws. word_ok v \<Longrightarrow>
   split_tokens str_sep [] (w @ blanked ws @ replicate j SP) = w # map snd ws"
proof (induction ws arbitrary: w)
  case Nil
  show ?case
  proof (cases j)
    case 0
    then show ?thesis using Nil by (simp add: split_tokens_nosep word_no_sep)
  next
    case (Suc i)
    have "\<forall>c \<in> set w. \<not> str_sep c" "str_sep SP"
      using word_no_sep Nil(1) by (auto simp: str_sep_def)
    with Suc show ?thesis
      using split_tokens_sep [of w str_sep SP "[]" "replicate i SP"]
        drop_blanks_replicate [of i "[]"] by simp
  qed
next
  case (Cons kv ws)
  obtain k v where kv: "kv = (k, v)" by (cases kv)
  with Cons.prems have v: "word_ok v" by simp
  let ?r = "v @ blanked ws @ replicate j SP"
  have d: "drop_blanks (replicate k SP @ ?r) = ?r"
    using v by (simp add: drop_blanks_replicate drop_blanks_word)
  have "?r \<noteq> []" using v by (simp add: word_ok_def)
  moreover have "split_tokens str_sep [] ?r = v # map snd ws"
    using Cons v by simp
  ultimately have "(if ?r = [] then [] else split_tokens str_sep [] ?r) = v # map snd ws"
    by (simp only: if_False)
  moreover have "split_tokens str_sep [] (w @ SP # replicate k SP @ ?r) =
      w # (if ?r = [] then [] else split_tokens str_sep [] ?r)"
    using split_tokens_sep [of w str_sep SP "[]" "replicate k SP @ ?r"] word_no_sep Cons.prems(1)
    unfolding d by (simp only: str_sep_def) blast
  ultimately show ?case using kv
    by (simp only: blanked.simps append_Cons append_assoc list.map snd_conv)
qed

lemma blanked_no_NUL: "\<forall>(k, v) \<in> set ws. word_ok v \<Longrightarrow> NUL \<notin> set (blanked ws)"
  by (induction ws rule: blanked.induct) (auto simp: word_ok_def)

lemma command_tokens_trailing:
  assumes "word_ok w" and "\<forall>(k, v) \<in> set ws. word_ok v"
  shows "command_tokens (w @ blanked ws @ replicate j SP) = w # map snd ws"
proof -
  let ?s = "w @ blanked ws @ replicate j SP"
  have "NUL \<notin> set ?s" using assms blanked_no_NUL [OF assms(2)] by (auto simp: word_ok_def)
  then have "command_tokens ?s = split_tokens str_sep [] ?s"
    using str_tokenize_spec [of ?s "[NUL]"] by (simp add: command_tokens_def)
  then show ?thesis using tokens_blanked [OF assms] by simp
qed

lemma command_tokens_blanked [session_simps]:
  "word_ok w \<Longrightarrow> \<forall>(k, v) \<in> set ws. word_ok v \<Longrightarrow> command_tokens (w @ blanked ws) = w # map snd ws"
  using command_tokens_trailing [of w ws 0] by simp

text \<open>How the sessions write a message of words: one word as it is, more with a blank before each.\<close>

definition words_text :: "string list \<Rightarrow> string" where
  "words_text ws = (case ws of [w] \<Rightarrow> w | _ \<Rightarrow> append_args [] ws)"

definition words_ok :: "string list \<Rightarrow> bool" where
  "words_ok ws \<longleftrightarrow> ws \<noteq> [] \<and> (\<forall>w \<in> set ws. word_ok w)"

text \<open>The text after a blank, as blanked words.\<close>

definition text_gaps :: "string list \<Rightarrow> (nat \<times> string) list" where
  "text_gaps ws = (case ws of [w] \<Rightarrow> [(0, w)] | w # ws' \<Rightarrow> (1, w) # map (Pair 0) ws' | [] \<Rightarrow> [])"

lemma blanked_map: "blanked (map (Pair 0) ws) = append_args [] ws"
  by (induction ws) (auto simp: append_args_def)

lemma text_gaps_blanked: "ws \<noteq> [] \<Longrightarrow> SP # words_text ws = blanked (text_gaps ws)"
proof (cases ws)
  case (Cons w vs)
  then show ?thesis
    by (cases vs) (simp_all add: words_text_def text_gaps_def append_args_def
        blanked_map [unfolded append_args_def])
qed simp

lemma text_gaps_words: "map snd (text_gaps ws) = ws"
  by (auto simp: text_gaps_def comp_def split: list.splits)

lemma text_gaps_ok:
  assumes "words_ok ws"
  shows "\<forall>(k, v) \<in> set (text_gaps ws). word_ok v"
proof clarify
  fix k v
  assume "(k, v) \<in> set (text_gaps ws)"
  then have "v \<in> set (map snd (text_gaps ws))" by force
  then show "word_ok v" using assms by (simp add: text_gaps_words words_ok_def)
qed

lemma drop_blanks_text:
  assumes "words_ok ws"
  shows "drop_blanks (words_text ws) \<noteq> []"
proof -
  obtain w vs where ws: "ws = w # vs" and w: "word_ok w"
    using assms by (cases ws) (auto simp: words_ok_def)
  have "drop_blanks (words_text ws) = w @ concat (map (\<lambda>t. SP # t) vs)"
    using drop_blanks_word [OF w] drop_blanks_word [OF w, of "[]"]
    by (cases vs) (simp_all add: ws words_text_def append_args_def)
  then show ?thesis using w by (simp add: word_ok_def)
qed

section \<open>The requests a master server sends to its peers\<close>

text \<open>
  The \<open>sprintf\<close> formats of \<open>send_precommit\<close>, \<open>send_commit\<close>, \<open>send_del\<close> and \<open>send_quit\<close>; each request
  is sent with a newline after it.
\<close>

definition precommit_request :: "string \<Rightarrow> string" where
  "precommit_request poster = ''precommit '' @ poster @ '' ''"

definition write_request :: "string \<Rightarrow> string \<Rightarrow> string" where
  "write_request msg_nmbr message = ''commit write '' @ msg_nmbr @ '' '' @ message @ '' ''"

definition replace_request :: "string \<Rightarrow> string \<Rightarrow> string" where
  "replace_request msg_nmbr message = ''commit replace '' @ msg_nmbr @ ''/'' @ message @ '' ''"

definition abort_request :: string where "abort_request = ''abort ''"
definition quit_request :: string where "quit_request = ''quit ''"

text \<open>\<open>p\<close> is made of the words \<open>ws\<close>, with any blanks before them.\<close>

definition wordy :: "string \<Rightarrow> string list \<Rightarrow> bool" where
  "wordy p ws \<longleftrightarrow> words_ok ws \<and> (\<exists>g. SP # p = blanked g \<and> map snd g = ws)"

lemma wordy_text: "words_ok ws \<Longrightarrow> wordy (words_text ws) ws"
  unfolding wordy_def using text_gaps_blanked text_gaps_words words_ok_def by metis

lemma wordy_args: "words_ok ws \<Longrightarrow> wordy (append_args [] ws) ws"
proof -
  assume ok: "words_ok ws"
  then obtain w vs where ws: "ws = w # vs" by (cases ws) (auto simp: words_ok_def)
  have "SP # append_args [] ws = blanked ((1, w) # map (Pair 0) vs)"
    by (simp add: ws blanked_map append_args_def)
  moreover have "map snd ((1 :: nat, w) # map (Pair 0) vs) = ws" by (simp add: ws comp_def)
  ultimately show ?thesis using ok unfolding wordy_def by blast
qed

lemma wordy_gaps:
  assumes "wordy p ws"
  obtains g where "SP # p = blanked g" "map snd g = ws" "\<forall>(k, v) \<in> set g. word_ok v" "g \<noteq> []"
proof -
  from assms obtain g where g: "SP # p = blanked g" "map snd g = ws" and ok: "words_ok ws"
    by (auto simp: wordy_def)
  have "\<forall>(k, v) \<in> set g. word_ok v"
  proof clarify
    fix k v
    assume "(k, v) \<in> set g"
    then have "v \<in> set (map snd g)" by force
    then show "word_ok v" using g(2) ok by (simp add: words_ok_def)
  qed
  moreover have "g \<noteq> []" using g ok by (auto simp: words_ok_def)
  ultimately show ?thesis using that g by blast
qed

lemma wordy_word: "word_ok w \<Longrightarrow> wordy w [w]"
  using wordy_text [of "[w]"] by (simp add: words_text_def words_ok_def)

lemma words_text_args: "words_text ws = (if length ws = 1 then hd ws else append_args [] ws)"
  by (cases ws; cases "tl ws") (auto simp: words_text_def)

lemma chop_blank [session_simps]: "chop (s @ [SP]) = Inr s"
  by (simp add: chop_def)

text \<open>The tokens a peer finds in a request.\<close>

lemma request_tokens:
  assumes "words_ok cs" and "wordy p ws"
  shows "\<exists>req. chop ((hd cs @ blanked (map (Pair 0) (tl cs))) @ SP # p @ [SP]) = Inr req \<and>
    command_tokens req = cs @ ws"
proof -
  obtain c ds where cs: "cs = c # ds" and c: "word_ok c" "\<forall>d \<in> set ds. word_ok d"
    using assms(1) by (cases cs) (auto simp: words_ok_def)
  obtain g where g: "SP # p = blanked g" "map snd g = ws" "\<forall>(k, v) \<in> set g. word_ok v"
    using wordy_gaps [OF assms(2)] by blast
  have app: "blanked (map (Pair 0) ds @ g) = blanked (map (Pair 0) ds) @ blanked g"
    by (induction ds) auto
  have "(hd cs @ blanked (map (Pair 0) (tl cs))) @ SP # p @ [SP] =
      (c @ blanked (map (Pair 0) ds @ g)) @ [SP]"
    using g(1) by (simp add: cs app flip: append_Cons)
  then have "chop ((hd cs @ blanked (map (Pair 0) (tl cs))) @ SP # p @ [SP]) =
      Inr (c @ blanked (map (Pair 0) ds @ g))" by (simp only: chop_blank)
  moreover have "command_tokens (c @ blanked (map (Pair 0) ds @ g)) = cs @ ws"
    using c g(2,3) by (subst command_tokens_blanked) (auto simp: cs comp_def)
  ultimately show ?thesis by blast
qed

lemma word_ok_consts [simp]:
  "word_ok ''abort''" "word_ok ''quit''" "word_ok ''precommit''" "word_ok ''commit''"
  "word_ok ''write''" "word_ok ''replace''" "word_ok ''nobody''"
  by (simp_all add: word_ok_def)

lemma precommit_tokens:
  "wordy p ws \<Longrightarrow> \<exists>req. chop (precommit_request p) = Inr req \<and> command_tokens req = ''precommit'' # ws"
  using request_tokens [of "[''precommit'']" p ws] by (simp add: precommit_request_def words_ok_def)

lemma write_tokens:
  "word_ok n \<Longrightarrow> wordy m ws \<Longrightarrow> \<exists>req. chop (write_request n m) = Inr req \<and>
   command_tokens req = ''commit'' # ''write'' # n # ws"
  using request_tokens [of "[''commit'', ''write'', n]" m ws]
  by (simp add: write_request_def words_ok_def)

lemma last_request_tokens:
  "chop abort_request = Inr ''abort''" "command_tokens ''abort'' = [''abort'']"
  "chop quit_request = Inr ''quit''" "command_tokens ''quit'' = [''quit'']"
  using command_tokens_blanked [of "''abort''" "[]"] command_tokens_blanked [of "''quit''" "[]"]
  by (simp_all add: abort_request_def quit_request_def chop_def)

lemma strcat_args_simps [simp]: "strcat_args [] = []" "strcat_args (w # ws) = w @ SP # strcat_args ws"
  by (simp_all add: strcat_args_def)

lemma strcat_args_blanked: "strcat_args (w # ws) = w @ blanked (map (Pair 0) ws) @ [SP]"
proof (induction ws arbitrary: w)
  case (Cons v ws)
  show ?case unfolding strcat_args_simps(2) [of w] Cons.IH by simp
qed simp

lemma replace_tokens:
  assumes "word_ok (n @ ''/'' @ w)" and "\<forall>v \<in> set ws. word_ok v"
  shows "\<exists>req. chop (replace_request n (strcat_args (w # ws))) = Inr req \<and>
    command_tokens req = ''commit'' # ''replace'' # (n @ ''/'' @ w) # ws"
proof -
  let ?g = "(0, ''replace'') # (0, n @ ''/'' @ w) # map (Pair 0) ws"
  have ok: "\<forall>(k, v) \<in> set ?g. word_ok v" using assms by auto
  have "replace_request n (strcat_args (w # ws)) = (''commit'' @ blanked ?g @ replicate 1 SP) @ [SP]"
    by (simp add: replace_request_def strcat_args_blanked del: strcat_args_simps)
  then have "chop (replace_request n (strcat_args (w # ws))) = Inr (''commit'' @ blanked ?g @ replicate 1 SP)"
    by (simp only: chop_blank)
  moreover have "command_tokens (''commit'' @ blanked ?g @ replicate 1 SP) =
      ''commit'' # ''replace'' # (n @ ''/'' @ w) # ws"
    using command_tokens_trailing [OF _ ok, of "''commit''" 1] by (simp add: comp_def)
  ultimately show ?thesis by blast
qed

end
