(* ===== verification/SyncOps.thy ===== *)
theory SyncOps
  imports Requests
begin

text \<open>
  The master's side of the commit protocol (\<open>src/server_operations.cc\<close>): the jobs
  \<open>send_precommit\<close>, \<open>send_commit\<close>, \<open>send_del\<close> and \<open>send_quit\<close>, each of which takes the first
  peer not yet marked, and \<open>sync_write\<close> and \<open>sync_replace\<close>, which hand one job per peer to the
  sender team, wait, and count.

  The network is a parameter: what connecting, sending, polling and closing do to the state of the
  peers. Jobs of one phase are run one after the other; they only share the counters and the marks,
  which are under a mutex (theory \<open>SyncPhase\<close> has the interleavings). What a schedule decides is an
  argument: how many jobs of a phase could be added before \<open>malloc\<close> failed, whether the
  master was already waiting when the condition was broadcast, and whether its wait returned by itself.
\<close>

section \<open>Data\<close>

record line =
  msg_nmbr :: string
  poster :: string
  message :: string

definition new_line :: "string \<Rightarrow> string \<Rightarrow> string \<Rightarrow> c_error + line" where
  "new_line n p m = (if MAX_LEN \<le> length n \<or> MAX_LEN \<le> length p \<or> MAX_LEN \<le> length m
     then Inl Out_of_bounds
     else Inr \<lparr>msg_nmbr = n, poster = p, message = m\<rparr>)"

text \<open>\<open>peer_port\<close> is a \<open>size_t\<close>; \<open>dont_reissue\<close> is never initialised.\<close>

record peer_stat_address =
  port :: int
  ip :: string
  marked :: bool
  peer_port :: "64 word"
  dont_reissue :: bool

record peer_stat =
  pos_count :: int
  neg_count :: int
  line_a :: line
  peer_addr :: "peer_stat_address list"
  writer :: bool
  replacer :: bool

text \<open>The network, for a state \<open>'p\<close> of everything beyond the sockets.\<close>

record 'p wire =
  dial :: "string \<Rightarrow> string \<Rightarrow> 'p \<Rightarrow> int \<times> 'p"
  transmit :: "int \<Rightarrow> string \<Rightarrow> 'p \<Rightarrow> 'p"
  polls :: "int \<Rightarrow> 'p \<Rightarrow> poll_result list \<times> 'p"
  hang_up :: "int \<Rightarrow> 'p \<Rightarrow> 'p"

text \<open>What a job gives: its value, whether it broadcast, the shared record and the network.\<close>

type_synonym 'p job = "peer_stat \<Rightarrow> 'p \<Rightarrow> c_error + int \<times> bool \<times> peer_stat \<times> 'p"

definition ALEN :: nat where "ALEN = 1024"

section \<open>The jobs\<close>

fun first_unmarked :: "nat \<Rightarrow> peer_stat_address list \<Rightarrow> nat option" where
  "first_unmarked i [] = None"
| "first_unmarked i (a # as) = (if marked a = False then Some i else first_unmarked (Suc i) as)"

definition upd_addr ::
  "nat \<Rightarrow> (peer_stat_address \<Rightarrow> peer_stat_address) \<Rightarrow> peer_stat \<Rightarrow> peer_stat" where
  "upd_addr i f peers = peers\<lparr>peer_addr := (peer_addr peers)[i := f (peer_addr peers ! i)]\<rparr>"

definition NO_OF_PEERS :: "peer_stat \<Rightarrow> int" where
  "NO_OF_PEERS peers = int (length (peer_addr peers))"

text \<open>The descriptor argument of the socket calls: the \<open>size_t\<close> cut to an \<open>int\<close>.\<close>

definition sock :: "64 word \<Rightarrow> int" where
  "sock sd = to_int32 (uint sd)"

text \<open>\<open>sd == err_host\<close> compares with \<open>-1\<close> converted to \<open>size_t\<close>; \<open>sd < 0\<close> is unsigned.\<close>

definition sync_fail :: "64 word \<Rightarrow> bool" where
  "sync_fail sd \<longleftrightarrow> sd = word_of_int err_host \<or> sd < 0"

text \<open>A final newline of \<open>req\<close> is cut; then \<open>req\<close> and a newline are sent.\<close>

definition send_req :: "'p wire \<Rightarrow> 64 word \<Rightarrow> string \<Rightarrow> 'p \<Rightarrow> 'p" where
  "send_req wr sd req w =
     (let req' = (if 0 < length req \<and> last req = NL then butlast req else req)
      in transmit wr (sock sd) [NL] (transmit wr (sock sd) req' w))"

text \<open>The reply: \<open>buff\<close> starts with a NUL and is otherwise uninitialised.\<close>

definition get_reply :: "'p wire \<Rightarrow> string \<Rightarrow> 64 word \<Rightarrow> 'p \<Rightarrow> c_error + int \<times> string \<times> 'p" where
  "get_reply wr junk sd w =
     (let (evs, w') = polls wr (sock sd) w;
          (n, buff) = recv_loop (ALEN - 1) (NUL # junk) evs
      in case chop (cstr buff) of Inl e \<Rightarrow> Inl e | Inr s \<Rightarrow> Inr (n, s, w'))"

definition broadcasts :: "peer_stat \<Rightarrow> bool" where
  "broadcasts peers \<longleftrightarrow> pos_count peers = NO_OF_PEERS peers \<or> neg_count peers = NO_OF_PEERS peers \<or>
     pos_count peers + neg_count peers = NO_OF_PEERS peers"

definition send_precommit :: "'p wire \<Rightarrow> string \<Rightarrow> 'p job" where
  "send_precommit wr junk peers w = (case first_unmarked 0 (peer_addr peers) of
      None \<Rightarrow> Inr (0, False, peers, w)
    | Some mark \<Rightarrow>
        let p1 = upd_addr mark (marked_update (\<lambda>_. True)) peers;
            a = peer_addr p1 ! mark;
            (r, w1) = dial wr (ip a) (show_ld (port a)) w;
            sd = word_of_int r :: 64 word;
            p2 = upd_addr mark (peer_port_update (\<lambda>_. sd)) p1
        in if sync_fail sd then Inr (- 1, False, p2, w1)
           else let req = precommit_request (poster (line_a peers)) in
             if ALEN \<le> length req then Inl Out_of_bounds
             else (case get_reply wr junk sd (send_req wr sd req w1) of
                 Inl e \<Rightarrow> Inl e
               | Inr (n, buff, w2) \<Rightarrow>
                   let p3 = (if buff = ''positive'' then p2\<lparr>pos_count := pos_count p2 + 1\<rparr>
                             else p2\<lparr>neg_count := neg_count p2 + 1\<rparr>)
                   in Inr (0, broadcasts p3, p3, w2)))"

definition send_commit :: "'p wire \<Rightarrow> string \<Rightarrow> 'p job" where
  "send_commit wr junk peers w = (case first_unmarked 0 (peer_addr peers) of
      None \<Rightarrow> Inr (0, False, peers, w)
    | Some mark \<Rightarrow>
        let p1 = upd_addr mark (marked_update (\<lambda>_. True)) peers;
            sd = peer_port (peer_addr p1 ! mark);
            l = line_a peers
        in if sync_fail sd then Inr (- 1, False, p1, w)
           else if writer peers = replacer peers then Inr (- 1, False, p1, w)
           else let req = (if writer peers then write_request (msg_nmbr l) (message l)
                           else replace_request (msg_nmbr l) (message l)) in
             if ALEN \<le> length req then Inl Out_of_bounds
             else (case get_reply wr junk sd (send_req wr sd req w) of
                 Inl e \<Rightarrow> Inl e
               | Inr (n, buff, w2) \<Rightarrow>
                   if n = - 1 then Inr (- 1, False, p1, w2)
                   else
                     let p3 = (if buff = ''positive'' then p1\<lparr>pos_count := pos_count p1 + 1\<rparr>
                               else if buff = ''negative_exists''
                               then upd_addr mark (dont_reissue_update (\<lambda>_. True))
                                      (p1\<lparr>neg_count := neg_count p1 + 1\<rparr>)
                               else p1\<lparr>neg_count := neg_count p1 + 1\<rparr>)
                     in Inr (0, broadcasts p3, p3, w2)))"

text \<open>\<open>send_del\<close> and \<open>send_quit\<close> differ in the request only.\<close>

definition send_last :: "string \<Rightarrow> 'p wire \<Rightarrow> 'p job" where
  "send_last req wr peers w = (case first_unmarked 0 (peer_addr peers) of
      None \<Rightarrow> Inr (0, False, peers, w)
    | Some mark \<Rightarrow>
        let p1 = upd_addr mark (marked_update (\<lambda>_. True)) peers;
            a = peer_addr p1 ! mark;
            sd = peer_port a
        in if sync_fail sd then Inr (- 1, False, p1, w)
           else if dont_reissue a then Inr (- 1, False, p1, w)
           else Inr (0, False, p1, hang_up wr (sock sd) (send_req wr sd req w)))"

definition send_del :: "'p wire \<Rightarrow> 'p job" where "send_del wr = send_last abort_request wr"
definition send_quit :: "'p wire \<Rightarrow> 'p job" where "send_quit wr = send_last quit_request wr"

section \<open>Phases\<close>

text \<open>
  For each phase of a synchronization: how many jobs could be added (\<open>None\<close>: all), whether the master
  waited before the last broadcast, and whether its wait returned by itself once the jobs had ended. That
  it returns by itself earlier, while jobs are still running, is a step of theory \<open>SyncPhase\<close> and not
  followed further.
\<close>

record schedule =
  adds :: "nat \<Rightarrow> nat option"
  waits_first :: "nat \<Rightarrow> bool"
  wakes_up :: "nat \<Rightarrow> bool"

text \<open>\<open>k\<close> jobs run; the flag tells whether one of them broadcast.\<close>

fun run_jobs :: "nat \<Rightarrow> 'p job \<Rightarrow> peer_stat \<Rightarrow> 'p \<Rightarrow> c_error + bool \<times> peer_stat \<times> 'p" where
  "run_jobs 0 job peers w = Inr (False, peers, w)"
| "run_jobs (Suc k) job peers w = (case job peers w of
      Inl e \<Rightarrow> Inl e
    | Inr (r, b, peers1, w1) \<Rightarrow> (case run_jobs k job peers1 w1 of
          Inl e \<Rightarrow> Inl e
        | Inr (b', peers2, w2) \<Rightarrow> Inr (b \<or> b', peers2, w2)))"

text \<open>One job per peer is added, if memory allows.\<close>

definition phase ::
  "nat option \<Rightarrow> 'p job \<Rightarrow> peer_stat \<Rightarrow> 'p \<Rightarrow> c_error + bool \<times> bool \<times> peer_stat \<times> 'p" where
  "phase added job peers w =
     (case run_jobs (case added of None \<Rightarrow> length (peer_addr peers)
                     | Some k \<Rightarrow> min k (length (peer_addr peers))) job peers w of
        Inl e \<Rightarrow> Inl e
      | Inr (b, peers', w') \<Rightarrow>
          Inr (case added of None \<Rightarrow> True | Some k \<Rightarrow> length (peer_addr peers) \<le> k, b, peers', w'))"

text \<open>
  The wait: the guard holds whenever there is a peer, so the master waits even when every reply has
  been counted; it then returns if it was waiting when the condition was broadcast, or by itself
  (\<open>alone\<close>), which the code does not tell apart.
\<close>

definition await :: "bool \<Rightarrow> bool \<Rightarrow> bool \<Rightarrow> peer_stat \<Rightarrow> c_error + unit" where
  "await alone waiting b peers =
     (if pos_count peers \<noteq> NO_OF_PEERS peers \<or> neg_count peers \<noteq> NO_OF_PEERS peers \<or>
         pos_count peers + neg_count peers \<noteq> NO_OF_PEERS peers
      then (if alone \<or> (waiting \<and> b) then Inr () else Inl Never_returns)
      else Inr ())"

definition reset_stat :: "peer_stat \<Rightarrow> peer_stat" where
  "reset_stat peers = peers\<lparr>pos_count := 0, neg_count := 0,
     peer_addr := map (marked_update (\<lambda>_. False)) (peer_addr peers)\<rparr>"

text \<open>The last phase of a synchronization: its jobs are added, the master does not wait.\<close>

definition finish ::
  "nat option \<Rightarrow> 'p job \<Rightarrow> int \<Rightarrow> peer_stat \<Rightarrow> board_state \<Rightarrow> 'p \<Rightarrow> c_error + int \<times> board_state \<times> 'p" where
  "finish added job ret peers st w = (case phase added job (reset_stat peers) w of
      Inl e \<Rightarrow> Inl e
    | Inr (all, b, peers', w') \<Rightarrow> Inr (if all then ret else - 1, st, w'))"

definition start_stat :: "peer_stat_address list \<Rightarrow> line \<Rightarrow> peer_stat" where
  "start_stat addrs l = \<lparr>pos_count = 0, neg_count = 0, line_a = l,
     peer_addr = map (marked_update (\<lambda>_. False)) addrs, writer = False, replacer = False\<rparr>"

section \<open>\<open>sync_write\<close>\<close>

definition sync_write ::
  "'p wire \<Rightarrow> schedule \<Rightarrow> string \<Rightarrow> peer_stat_address list \<Rightarrow> line \<Rightarrow> board_state \<Rightarrow> 'p \<Rightarrow>
   c_error + int \<times> board_state \<times> 'p" where
  "sync_write wr sch junk addrs l st w =
     (case phase (adds sch 0) (send_precommit wr junk) (start_stat addrs l) w of
        Inl e \<Rightarrow> Inl e
      | Inr (all, b, c1, w1) \<Rightarrow>
          if \<not> all then Inr (- 1, st, w1)
          else (case await (wakes_up sch 0) (waits_first sch 0) b c1 of
              Inl e \<Rightarrow> Inl e
            | Inr _ \<Rightarrow>
                if pos_count c1 = NO_OF_PEERS c1 then
                  (case phase (adds sch 1) (send_commit wr junk)
                          ((reset_stat c1)\<lparr>writer := True, replacer := False\<rparr>) w1 of
                     Inl e \<Rightarrow> Inl e
                   | Inr (all, b, c2, w2) \<Rightarrow>
                       if \<not> all then Inr (- 1, st, w2)
                       else (case await (wakes_up sch 1) (waits_first sch 1) b c2 of
                           Inl e \<Rightarrow> Inl e
                         | Inr _ \<Rightarrow>
                             if pos_count c2 = NO_OF_PEERS c2 then
                               (case write_descriptor (Some (msg_nmbr l)) (Some (poster l))
                                       (Some (message l)) st of
                                  (write_return, st1) \<Rightarrow>
                                    if write_return < 0
                                    then finish (adds sch 2) (send_del wr) (- 1) c2 st1 w2
                                    else (case read_descriptor (msg_nmbr l) st1 of
                                        Inl e \<Rightarrow> Inl e
                                      | Inr (read_return, read_fetch, st2) \<Rightarrow>
                                          if read_return < 0
                                          then finish (adds sch 2) (send_del wr) (- 1) c2 st2 w2
                                          else finish (adds sch 2) (send_quit wr) 0 c2 st2 w2))
                             else finish (adds sch 2) (send_del wr) (- 1) c2 st w2))
                else finish (adds sch 1) (send_quit wr) (- 1) c1 st w1))"

section \<open>\<open>sync_replace\<close>\<close>

text \<open>
  It differs: peers that refuse the precommit are sent nothing, a commit phase that could not be
  added is reported as success, and only \<open>-1\<close> of the second read counts as a failure.
\<close>

definition sync_replace ::
  "'p wire \<Rightarrow> schedule \<Rightarrow> string \<Rightarrow> string \<Rightarrow> peer_stat_address list \<Rightarrow> line \<Rightarrow> board_state \<Rightarrow> 'p \<Rightarrow>
   c_error + int \<times> board_state \<times> 'p" where
  "sync_replace wr sch junk junk_len addrs l st w =
     (case phase (adds sch 0) (send_precommit wr junk) (start_stat addrs l) w of
        Inl e \<Rightarrow> Inl e
      | Inr (all, b, c1, w1) \<Rightarrow>
          if \<not> all then Inr (- 1, st, w1)
          else (case await (wakes_up sch 0) (waits_first sch 0) b c1 of
              Inl e \<Rightarrow> Inl e
            | Inr _ \<Rightarrow>
                if pos_count c1 = NO_OF_PEERS c1 then
                  (case phase (adds sch 1) (send_commit wr junk)
                          ((reset_stat c1)\<lparr>writer := False, replacer := True\<rparr>) w1 of
                     Inl e \<Rightarrow> Inl e
                   | Inr (all, b, c2, w2) \<Rightarrow>
                       if \<not> all then Inr (0, st, w2)
                       else (case await (wakes_up sch 1) (waits_first sch 1) b c2 of
                           Inl e \<Rightarrow> Inl e
                         | Inr _ \<Rightarrow>
                             if pos_count c2 = NO_OF_PEERS c2 then
                               (case replace_descriptor junk_len (msg_nmbr l) (poster l) (message l) st of
                                  Inl e \<Rightarrow> Inl e
                                | Inr (replace_return, st1) \<Rightarrow>
                                    if replace_return < 0
                                    then finish (adds sch 2) (send_del wr) (- 1) c2 st1 w2
                                    else (case read_descriptor (msg_nmbr l) st1 of
                                        Inl e \<Rightarrow> Inl e
                                      | Inr (read_return, read_fetch, st2) \<Rightarrow>
                                          if read_return = - 1
                                          then finish (adds sch 2) (send_del wr) (- 1) c2 st2 w2
                                          else finish (adds sch 2) (send_quit wr) 0 c2 st2 w2))
                             else finish (adds sch 2) (send_del wr) (- 1) c2 st w2))
                else Inr (- 1, st, w1)))"

end
