(* ===== verification/NumberGen.thy ===== *)
theory NumberGen
  imports MessageStore
begin

text \<open>
  \<open>generate_number\<close> and \<open>release_number\<close> of \<open>src/descriptor.cc\<close>: the choice of the number of a
  new message. The buffer \<open>gen_on_queue.temp_list\<close> holds \<open>MAX_LEN\<close> entries; \<open>count\<close> is the
  length of the list in the model.
\<close>

section \<open>The loops\<close>

fun max_loop :: "int \<Rightarrow> (string \<times> nat) list \<Rightarrow> int" where
  "max_loop mx [] = mx"
| "max_loop mx ((line, pos) # ls) =
     max_loop (if mx < atoi (hd (line_tokens line)) then atoi (hd (line_tokens line)) else mx) ls"

lemma filter_above_mono: "length (filter (\<lambda>x. mx + 1 \<le> x) xs) \<le> length (filter (\<lambda>x. mx \<le> (x :: int)) xs)"
  by (induction xs) auto

lemma filter_above_shrinks:
  "mx \<in> set xs \<Longrightarrow> length (filter (\<lambda>x. mx + 1 \<le> x) xs) < length (filter (\<lambda>x. mx \<le> (x :: int)) xs)"
proof (induction xs)
  case (Cons x xs)
  then show ?case using filter_above_mono [of mx xs] by (cases "x = mx") auto
qed simp

text \<open>
  The loop over the buffer: on a match the number is incremented and the index set to 0, which the
  loop header then increments, so the first entry is not compared again.
\<close>

function gen_loop :: "int list \<Rightarrow> int \<Rightarrow> bool \<Rightarrow> nat \<Rightarrow> int \<times> bool" where
  "gen_loop buf mx max_changed j =
     (if j < length buf then
        (let hit = (mx = buf ! j);
             mx' = (if hit then mx + 1 else mx);
             max_changed' = (if hit then True else max_changed);
             j' = (if hit then 0 else j)
         in if Suc j = length buf \<and> j' \<noteq> 0 then (mx', max_changed')
            else gen_loop buf mx' max_changed' (Suc j'))
      else (mx, max_changed))"
  by pat_completeness auto
termination
proof (relation "measures [\<lambda>(buf, mx, c, j). length (filter (\<lambda>x. mx \<le> x) buf), \<lambda>(buf, mx, c, j). length buf - j]",
    goal_cases)
  case 1
  then show ?case by simp
next
  case (2 buf mx max_changed j hit mx' max_changed' j')
  show ?case
  proof (cases "mx = buf ! j")
    case True
    have "length (filter (\<lambda>x. mx + 1 \<le> x) buf) < length (filter (\<lambda>x. mx \<le> x) buf)"
      using True 2(1) by (intro filter_above_shrinks) auto
    with True 2 show ?thesis by simp
  next
    case False
    with 2 show ?thesis by auto
  qed
qed

declare gen_loop.simps [simp del]

definition generate_number :: "board_state \<Rightarrow> c_error + (int \<times> board_state)" where
  "generate_number st = (case open_rd (source_file st) st of
      None \<Rightarrow> Inr (- 2, st)
    | Some st1 \<Rightarrow>
        (case gen_loop (temp_list st1) (max_loop 0 (scan st1)) False 0 of
           (mx, max_changed) \<Rightarrow>
             if MAX_LEN \<le> length (temp_list st1) then Inl Out_of_bounds
             else Inr (if max_changed then mx else mx + 1, st1\<lparr>temp_list := temp_list st1 @ [mx]\<rparr>)))"

fun release_loop :: "int \<Rightarrow> int list \<Rightarrow> int \<times> int list" where
  "release_loop num [] = (- 1, [])"
| "release_loop num (t # ts) =
     (if num = t then (0, 0 # ts)
      else (case release_loop num ts of (r, ts') \<Rightarrow> (r, t # ts')))"

definition release_number :: "int \<Rightarrow> board_state \<Rightarrow> int \<times> board_state" where
  "release_number num st = (case release_loop num (temp_list st) of
     (r, buf) \<Rightarrow> (r, st\<lparr>temp_list := buf\<rparr>))"

section \<open>The number is larger than every number of the board\<close>

lemma max_loop_ge: "mx \<le> max_loop mx ls \<and> (\<forall>(l, p) \<in> set ls. atoi (hd (line_tokens l)) \<le> max_loop mx ls)"
  by (induction mx ls rule: max_loop.induct) (force split: if_splits)+

lemma max_loop_attained:
  "max_loop mx ls = mx \<or> (\<exists>(l, p) \<in> set ls. max_loop mx ls = atoi (hd (line_tokens l)))"
  by (induction mx ls rule: max_loop.induct) (auto split: if_splits)

lemma gen_loop_end: "\<not> j < length buf \<Longrightarrow> gen_loop buf mx c j = (mx, c)"
  by (subst gen_loop.simps) simp

lemma gen_loop_hit:
  "j < length buf \<Longrightarrow> mx = buf ! j \<Longrightarrow> gen_loop buf mx c j = gen_loop buf (mx + 1) True (Suc 0)"
  by (subst gen_loop.simps) (simp add: Let_def)

lemma gen_loop_miss:
  "j < length buf \<Longrightarrow> mx \<noteq> buf ! j \<Longrightarrow>
   gen_loop buf mx c j = (if Suc j = length buf \<and> j \<noteq> 0 then (mx, c) else gen_loop buf mx c (Suc j))"
  by (subst gen_loop.simps) (simp add: Let_def)

lemma gen_loop_ge:
  "gen_loop buf mx c j = (mx', c') \<Longrightarrow>
   mx \<le> mx' \<and> (c \<longrightarrow> c') \<and> (mx < mx' \<longrightarrow> c') \<and> (c' \<longrightarrow> c \<or> mx < mx')"
proof (induction buf mx c j rule: gen_loop.induct)
  case (1 buf mx c j)
  consider (stop) "\<not> j < length buf" | (hit) "j < length buf" "mx = buf ! j"
    | (miss) "j < length buf" "mx \<noteq> buf ! j" by blast
  then show ?case
  proof cases
    case stop
    with "1.prems" show ?thesis by (simp add: gen_loop_end)
  next
    case hit
    with "1.IH" have "gen_loop buf (mx + 1) True (Suc 0) = (mx', c') \<Longrightarrow> mx + 1 \<le> mx' \<and> c'" by simp
    with hit "1.prems" show ?thesis by (simp add: gen_loop_hit)
  next
    case miss
    show ?thesis
    proof (cases "Suc j = length buf \<and> j \<noteq> 0")
      case True
      with miss "1.prems" show ?thesis by (simp add: gen_loop_miss)
    next
      case False
      with miss "1.IH" "1.prems" show ?thesis by (auto simp: gen_loop_miss split: if_splits)
    qed
  qed
qed

lemma generate_number_gt:
  assumes "generate_number st = Inr (n, st')" and "open_rd (source_file st) st \<noteq> None"
  shows "0 < n \<and> (\<forall>(l, p) \<in> set (scan st). atoi (hd (line_tokens l)) < n)"
proof -
  from assms(2) obtain st1 where o: "open_rd (source_file st) st = Some st1" by auto
  then have st1: "st1 = st\<lparr>open_fds := Suc (open_fds st)\<rparr>"
    by (auto simp: open_rd_def split: option.splits if_splits)
  obtain mx c where g: "gen_loop (temp_list st1) (max_loop 0 (scan st1)) False 0 = (mx, c)"
    by (cases "gen_loop (temp_list st1) (max_loop 0 (scan st1)) False 0")
  with assms(1) o have "n = (if c then mx else mx + 1)"
    by (auto simp: generate_number_def split: if_splits)
  moreover have "max_loop 0 (scan st) \<le> mx \<and> (c \<longrightarrow> max_loop 0 (scan st) < mx)"
    using gen_loop_ge [OF g] st1 by auto
  ultimately have n: "max_loop 0 (scan st) < n" by (auto split: if_splits)
  have "0 \<le> max_loop 0 (scan st)"
    and "\<forall>(l, p) \<in> set (scan st). atoi (hd (line_tokens l)) \<le> max_loop 0 (scan st)"
    using max_loop_ge [of 0 "scan st"] by auto
  with n show ?thesis by fastforce
qed

text \<open>
  Property C30: a generated number is positive and is the number of no line of the board, as long as
  it fits an \<open>int\<close>.
\<close>

theorem generate_number_fresh:
  assumes "board_ok st" and "has_lines st ls" and "generate_number st = Inr (n, st')" and "n < 2 ^ 31"
  shows "0 < n \<and> lookup (show_ld n) ls = None"
proof -
  have gt: "0 < n \<and> (\<forall>(l, p) \<in> set (scan st). atoi (hd (line_tokens l)) < n)"
    using assms by (intro generate_number_gt) (auto simp: open_board)
  have "lookup (show_ld n) ls = None"
  proof (rule ccontr)
    assume "lookup (show_ld n) ls \<noteq> None"
    then obtain l where "lookup (show_ld n) ls = Some l" by auto
    then obtain xs ys where ls: "ls = xs @ l # ys" "msg_num l = show_ld n"
      using lookup_split by blast
    then have "NUL \<notin> set l" using assms(2) by (simp add: has_lines_def wf_board_def wf_line_def)
    with ls(2) have "atoi (hd (line_tokens l)) = n"
      using gt assms(4) by (simp add: hd_line_tokens atoi_show_ld)
    moreover have "\<exists>p. (l, p) \<in> set (scan st)" using scan_lines [OF assms(2)] ls(1) by auto
    ultimately show False using gt by fastforce
  qed
  with gt show ?thesis by simp
qed

section \<open>The buffer\<close>

lemma gen_loop_absent: "mx \<notin> set buf \<Longrightarrow> gen_loop buf mx c j = (mx, c)"
proof (induction "length buf - j" arbitrary: j)
  case 0
  then show ?case by (simp add: gen_loop_end)
next
  case (Suc k)
  then have j: "j < length buf" "mx \<noteq> buf ! j" by auto
  have "gen_loop buf mx c (Suc j) = (mx, c)" using Suc by (intro Suc.hyps(1)) auto
  with gen_loop_miss [OF j] show ?case by simp
qed

lemma gen_loop_last:
  "mx \<notin> set buf \<Longrightarrow> mx + 1 \<notin> set buf \<Longrightarrow> j \<le> length buf \<Longrightarrow> gen_loop (buf @ [mx]) mx c j = (mx + 1, True)"
proof (induction "length buf - j" arbitrary: j)
  case 0
  then have j: "j = length buf" by simp
  then have "gen_loop (buf @ [mx]) mx c j = gen_loop (buf @ [mx]) (mx + 1) True (Suc 0)"
    by (intro gen_loop_hit) auto
  moreover have "gen_loop (buf @ [mx]) (mx + 1) True (Suc 0) = (mx + 1, True)"
    using 0 by (intro gen_loop_absent) auto
  ultimately show ?case by simp
next
  case (Suc k)
  then have j: "j < length (buf @ [mx])" "mx \<noteq> (buf @ [mx]) ! j" by (auto simp: nth_append)
  moreover have "Suc j \<noteq> length (buf @ [mx])" using Suc.hyps(2) by auto
  moreover have "gen_loop (buf @ [mx]) mx c (Suc j) = (mx + 1, True)"
    using Suc by (intro Suc.hyps(1)) auto
  ultimately show ?case using gen_loop_miss [OF j] by simp
qed

lemma generate_number_next:
  assumes "board_ok st" and "length (temp_list st) < MAX_LEN" and "max_loop 0 (scan st) \<notin> set (temp_list st)"
  shows "generate_number st = Inr (max_loop 0 (scan st) + 1,
    st\<lparr>open_fds := Suc (open_fds st), temp_list := temp_list st @ [max_loop 0 (scan st)]\<rparr>)"
  using assms by (simp add: generate_number_def open_board gen_loop_absent)

text \<open>
  Property C32: a second call before the first number is written returns the same number: the buffer
  was given the maximum of the file, not the number returned. Two clients that write at the same
  time can so get the same number.
\<close>

theorem generate_number_repeats:
  assumes "board_ok st" and "Suc (open_fds st) < fd_limit st" and "Suc (length (temp_list st)) < MAX_LEN"
    and "max_loop 0 (scan st) \<notin> set (temp_list st)" and "max_loop 0 (scan st) + 1 \<notin> set (temp_list st)"
  shows "\<exists>n st1 st2. generate_number st = Inr (n, st1) \<and> generate_number st1 = Inr (n, st2)"
proof -
  let ?m = "max_loop 0 (scan st)"
  define st1 where "st1 = st\<lparr>open_fds := Suc (open_fds st), temp_list := temp_list st @ [?m]\<rparr>"
  have one: "generate_number st = Inr (?m + 1, st1)"
    using assms generate_number_next [OF assms(1) _ assms(4)] by (simp add: st1_def)
  have ok: "board_ok st1" using assms(1,2) by (simp add: board_ok_def st1_def)
  have sc: "scan st1 = scan st" by (simp add: st1_def scan_def input_of_def file_bytes_def)
  have "gen_loop (temp_list st @ [?m]) ?m False 0 = (?m + 1, True)"
    using assms(4,5) by (intro gen_loop_last) auto
  then have "\<exists>st2. generate_number st1 = Inr (?m + 1, st2)"
    using ok assms(3) sc by (simp add: generate_number_def open_board) (simp add: st1_def)
  with one show ?thesis by blast
qed

text \<open>
  Every successful call leaves one more descriptor open and one more entry in the
  buffer; after \<open>MAX_LEN\<close> entries the next call writes beyond the buffer.
\<close>

theorem generate_number_leaks:
  "(case generate_number st of
      Inl e \<Rightarrow> e = Out_of_bounds \<and> MAX_LEN \<le> length (temp_list st)
    | Inr (n, st') \<Rightarrow>
        if open_rd (source_file st) st = None then n = - 2 \<and> st' = st
        else open_fds st' = Suc (open_fds st) \<and> length (temp_list st) < MAX_LEN \<and>
          length (temp_list st') = Suc (length (temp_list st)))"
  by (auto simp: generate_number_def open_rd_def split: option.splits if_splits prod.splits)

lemma generate_number_full:
  "board_ok st \<Longrightarrow> length (temp_list st) = MAX_LEN \<Longrightarrow> generate_number st = Inl Out_of_bounds"
  by (simp add: generate_number_def open_board split: prod.split)

section \<open>Examples\<close>

lemma sample_fresh: "generate_number (sample_board []) =
    Inr (1, (sample_board [])\<lparr>open_fds := 4, temp_list := [0]\<rparr>)"
proof -
  have e: "wf_board []" by (simp add: wf_board_def)
  show ?thesis
    using generate_number_next [OF sample_board_ok, of "[]"] scan_lines [OF sample_has_lines [OF e]]
    by (simp add: MAX_LEN_def) (simp add: sample_board_def)
qed

theorem generate_number_fresh_witness: "0 < (1 :: int) \<and> lookup (show_ld 1) [] = None"
  using generate_number_fresh [OF sample_board_ok sample_has_lines sample_fresh]
  by (simp add: wf_board_def)

theorem generate_number_repeats_witness:
  "\<exists>n st1 st2. generate_number (sample_board []) = Inr (n, st1) \<and> generate_number st1 = Inr (n, st2)"
proof -
  have "temp_list (sample_board []) = []" "Suc (open_fds (sample_board [])) < fd_limit (sample_board [])"
    by (simp_all add: sample_board_def)
  then show ?thesis
    using generate_number_repeats [OF sample_board_ok, of "[]"] by (simp add: MAX_LEN_def)
qed

end
