(* ===== verification/Chain.thy ===== *)
theory Chain
  imports Prelude
begin

text \<open>
  Singly linked structures in an explicit store. The server keeps two of them, the list of client
  sockets (\<open>lList\<close>/\<open>val\<close>) and the queue of work (\<open>work_queue\<close>/\<open>work\<close>): a first and a last
  pointer, a counter, and nodes whose field \<open>prev\<close> points to the node pushed after them. The theory
  holds the store, the predicate that a pointer starts a chain of given nodes, and the contract of
  such a structure as a locale, with the lemmas its clients use.
\<close>

section \<open>Nodes and the store\<close>

type_synonym addr = nat

record 'a node =
  prev :: "addr option"
  content :: 'a

type_synonym 'a store = "addr \<Rightarrow> 'a node option"

text \<open>A structure of the program: \<open>first\<close>, \<open>last\<close> and the counter.\<close>

record ends =
  first :: "addr option"
  last_ptr :: "addr option"
  count :: int

section \<open>Chains\<close>

fun chain :: "'a store \<Rightarrow> addr option \<Rightarrow> addr list \<Rightarrow> bool" where
  "chain h p [] \<longleftrightarrow> p = None"
| "chain h p (a # as) \<longleftrightarrow>
     p = Some a \<and> (case h a of None \<Rightarrow> False | Some n \<Rightarrow> chain h (prev n) as)"

text \<open>The addresses met in \<open>k\<close> steps from \<open>p\<close>, and what the nodes at some addresses hold.\<close>

fun addrs :: "'a store \<Rightarrow> nat \<Rightarrow> addr option \<Rightarrow> addr list" where
  "addrs h 0 p = []"
| "addrs h (Suc k) None = []"
| "addrs h (Suc k) (Some a) = a # (case h a of None \<Rightarrow> [] | Some n \<Rightarrow> addrs h k (prev n))"

definition contents :: "'a store \<Rightarrow> addr list \<Rightarrow> 'a list" where
  "contents h as = map (\<lambda>a. content (the (h a))) as"

lemma contents_simps [simp]:
  "contents h [] = []"
  "contents h (a # as) = content (the (h a)) # contents h as"
  "contents h (as @ bs) = contents h as @ contents h bs"
  "length (contents h as) = length as"
  by (simp_all add: contents_def)

lemma contents_cong: "(\<And>a. a \<in> set as \<Longrightarrow> h' a = h a) \<Longrightarrow> contents h' as = contents h as"
  by (simp add: contents_def)

lemma chain_cong: "(\<And>a. a \<in> set as \<Longrightarrow> h' a = h a) \<Longrightarrow> chain h' p as = chain h p as"
  by (induction as arbitrary: p) (auto split: option.splits)

lemma addrs_chain: "chain h p as \<Longrightarrow> addrs h (length as) p = as"
  by (induction as arbitrary: p) (auto split: option.splits)

lemma chain_node: "chain h p as \<Longrightarrow> a \<in> set as \<Longrightarrow> \<exists>n. h a = Some n"
  by (induction as arbitrary: p) (auto split: option.splits)

text \<open>Cutting a chain, and joining two at a node whose pointer is set.\<close>

lemma chain_append:
  "chain h p (as @ b # bs) \<longleftrightarrow>
     (\<exists>n. h b = Some n \<and> chain h (prev n) bs) \<and>
     chain (h(b \<mapsto> (the (h b))\<lparr>prev := None\<rparr>)) p (as @ [b])"
  if "b \<notin> set as" "b \<notin> set bs"
  using that
proof (induction as arbitrary: p)
  case Nil
  then show ?case by (auto split: option.splits)
next
  case (Cons a as)
  then show ?case by (auto split: option.splits)
qed

lemma chain_snoc_link:
  assumes "chain h p (as @ [b])" and "distinct (as @ [b])" and "c \<notin> set (as @ [b])"
  shows "chain (h(b \<mapsto> (the (h b))\<lparr>prev := Some c\<rparr>, c \<mapsto> \<lparr>prev = None, content = x\<rparr>)) p (as @ [b, c])"
  using assms
proof (induction as arbitrary: p)
  case Nil
  then show ?case by auto
next
  case (Cons a as)
  then show ?case by (auto split: option.splits)
qed

lemma chain_unlink:
  assumes "chain h p (as @ [b, c] @ cs)" and "distinct (as @ [b, c] @ cs)" and "h c = Some n"
  shows "chain (h(b \<mapsto> (the (h b))\<lparr>prev := prev n\<rparr>)) p (as @ [b] @ cs)"
  using assms
proof (induction as arbitrary: p)
  case Nil
  then obtain nb where nb: "h b = Some nb" "p = Some b" "chain h (prev n) cs"
    by (auto split: option.splits)
  then have "chain (h(b \<mapsto> nb\<lparr>prev := prev n\<rparr>)) (prev n) cs"
    using Nil.prems(2) by (subst chain_cong [where h = h]) auto
  with nb show ?case by (simp add: fun_upd_def)
next
  case (Cons a as)
  then show ?case by (auto split: option.splits)
qed

section \<open>Well-formed structures\<close>

definition repr :: "'a store \<Rightarrow> ends \<Rightarrow> addr list \<Rightarrow> bool" where
  "repr h l as \<longleftrightarrow> chain h (first l) as \<and> distinct as \<and> count l = int (length as) \<and>
     last_ptr l = (if as = [] then None else Some (last as))"

definition nodes_of :: "'a store \<Rightarrow> ends \<Rightarrow> addr list" where
  "nodes_of h l = addrs h (nat (count l)) (first l)"

definition wf_ends :: "'a store \<times> ends \<Rightarrow> bool" where
  "wf_ends s = repr (fst s) (snd s) (nodes_of (fst s) (snd s))"

definition items :: "'a store \<times> ends \<Rightarrow> 'a list" where
  "items s = contents (fst s) (nodes_of (fst s) (snd s))"

definition fresh_addr :: "addr \<Rightarrow> 'a store \<times> ends \<Rightarrow> bool" where
  "fresh_addr a s \<longleftrightarrow> fst s a = None"

lemma repr_nodes: "repr h l as \<Longrightarrow> nodes_of h l = as"
  by (simp add: repr_def nodes_of_def addrs_chain)

lemma repr_wf: "repr h l as \<Longrightarrow> wf_ends (h, l) \<and> items (h, l) = contents h as"
  by (simp add: wf_ends_def items_def repr_nodes)

lemma wf_repr: "wf_ends (h, l) \<Longrightarrow> \<exists>as. repr h l as \<and> items (h, l) = contents h as"
  by (auto simp: wf_ends_def items_def)

lemma fresh_notin: "repr h l as \<Longrightarrow> fresh_addr a (h, l) \<Longrightarrow> a \<notin> set as"
  by (auto simp: repr_def fresh_addr_def dest: chain_node)

text \<open>The three ways the program rearranges a well-formed structure.\<close>

lemma repr_push_first:
  assumes "repr h l []"
  shows "repr (h(a \<mapsto> \<lparr>prev = None, content = x\<rparr>))
    (l\<lparr>first := Some a, last_ptr := Some a, count := count l + 1\<rparr>) [a]"
  using assms by (simp add: repr_def)

lemma repr_push_last:
  assumes "repr h l (bs @ [b])" and "a \<notin> set (bs @ [b])"
  shows "repr (h(b \<mapsto> (the (h b))\<lparr>prev := Some a\<rparr>, a \<mapsto> \<lparr>prev = None, content = x\<rparr>))
    (l\<lparr>last_ptr := Some a, count := count l + 1\<rparr>) ((bs @ [b]) @ [a])"
  using assms chain_snoc_link [of h "first l" bs b a x] by (simp add: repr_def)

lemma contents_relink:
  assumes "h b = Some nb"
  shows "contents (h(b \<mapsto> nb\<lparr>prev := q\<rparr>)) as = contents h as"
  using assms by (auto simp: contents_def)

lemma repr_drop_first:
  assumes "repr h l (a # as)" and "h a = Some n"
  shows "repr h (if as = [] then l\<lparr>first := None, last_ptr := None, count := count l - 1\<rparr>
      else l\<lparr>first := prev n, count := count l - 1\<rparr>) as"
  using assms by (auto simp: repr_def)

lemma chain_cut:
  "chain h p (as @ [b, c]) \<Longrightarrow> distinct (as @ [b, c]) \<Longrightarrow> h b = Some nb \<Longrightarrow>
   chain (h(b \<mapsto> nb\<lparr>prev := None\<rparr>)) p (as @ [b])"
  by (induction as arbitrary: p) (auto split: option.splits)

lemma repr_drop_last:
  assumes "repr h l (as @ [b, c])" and "h b = Some nb"
  shows "repr (h(b \<mapsto> nb\<lparr>prev := None\<rparr>)) (l\<lparr>last_ptr := Some b, count := count l - 1\<rparr>) (as @ [b])"
  using assms chain_cut [of h "first l" as b c nb] by (simp add: repr_def)

lemma repr_drop_middle:
  assumes "repr h l (as @ [b, c] @ cs)" and "cs \<noteq> []" and "h b = Some nb" and "h c = Some n"
  shows "repr (h(b \<mapsto> nb\<lparr>prev := prev n\<rparr>)) (l\<lparr>count := count l - 1\<rparr>) (as @ [b] @ cs)"
  using assms chain_unlink [of h "first l" as b c cs n] by (simp add: repr_def)

section \<open>The contract of a structure one pushes to\<close>

text \<open>
  What \<open>pushVal\<close> promises \<open>server_operations\<close>, and \<open>push_work\<close> promises \<open>add_work_to_team\<close>: a
  push at a freshly allocated address succeeds, keeps the structure well-formed and appends.
\<close>

locale push_structure =
  fixes inv :: "'s \<Rightarrow> bool"
    and elems :: "'s \<Rightarrow> 'a list"
    and fresh :: "addr \<Rightarrow> 's \<Rightarrow> bool"
    and push :: "addr \<Rightarrow> 'a \<Rightarrow> 's \<Rightarrow> c_error + 's"
  assumes push_law:
    "inv s \<Longrightarrow> fresh a s \<Longrightarrow> \<exists>s'. push a x s = Inr s' \<and> inv s' \<and> elems s' = elems s @ [x]"
    and push_fresh: "inv s \<Longrightarrow> fresh a s \<Longrightarrow> push a x s = Inr s' \<Longrightarrow> fresh b s \<Longrightarrow> b \<noteq> a \<Longrightarrow> fresh b s'"
begin

fun push_all :: "(addr \<times> 'a) list \<Rightarrow> 's \<Rightarrow> c_error + 's" where
  "push_all [] s = Inr s"
| "push_all ((a, x) # xs) s = (case push a x s of Inl e \<Rightarrow> Inl e | Inr s' \<Rightarrow> push_all xs s')"

text \<open>Pushes at distinct fresh addresses never fail and keep the order of the calls.\<close>

lemma push_all_order:
  "inv s \<Longrightarrow> distinct (map fst xs) \<Longrightarrow> \<forall>a \<in> set (map fst xs). fresh a s \<Longrightarrow>
   \<exists>s'. push_all xs s = Inr s' \<and> inv s' \<and> elems s' = elems s @ map snd xs"
proof (induction xs arbitrary: s)
  case Nil
  then show ?case by simp
next
  case (Cons ax xs)
  obtain a x where ax: "ax = (a, x)" by (cases ax)
  from Cons.prems ax obtain s1 where
    s1: "push a x s = Inr s1" "inv s1" "elems s1 = elems s @ [x]"
    using push_law [of s a x] by auto
  have "\<forall>b \<in> set (map fst xs). fresh b s1"
    using Cons.prems ax push_fresh [OF _ _ s1(1)] by auto
  with Cons.IH [OF s1(2)] Cons.prems ax obtain s' where
    "push_all xs s1 = Inr s'" "inv s'" "elems s' = elems s1 @ map snd xs" by auto
  with s1 ax show ?case by simp
qed

end

text \<open>A queue: in addition, a pull takes the oldest element.\<close>

locale pull_structure = push_structure inv elems fresh push
  for inv :: "'s \<Rightarrow> bool" and elems :: "'s \<Rightarrow> 'a list"
    and fresh :: "addr \<Rightarrow> 's \<Rightarrow> bool" and push :: "addr \<Rightarrow> 'a \<Rightarrow> 's \<Rightarrow> c_error + 's" +
  fixes pull :: "'s \<Rightarrow> c_error + ('a option \<times> 's)"
  assumes pull_law: "inv s \<Longrightarrow> \<exists>s'. inv s' \<and>
    pull s = Inr (case elems s of [] \<Rightarrow> None | x # _ \<Rightarrow> Some x, s') \<and> elems s' = tl (elems s)"
begin

fun pull_all :: "nat \<Rightarrow> 's \<Rightarrow> c_error + ('a list \<times> 's)" where
  "pull_all 0 s = Inr ([], s)"
| "pull_all (Suc k) s = (case pull s of Inl e \<Rightarrow> Inl e
     | Inr (None, s') \<Rightarrow> Inr ([], s')
     | Inr (Some x, s') \<Rightarrow> (case pull_all k s' of Inl e \<Rightarrow> Inl e | Inr (xs, t) \<Rightarrow> Inr (x # xs, t)))"

lemma pull_all_elems:
  "inv s \<Longrightarrow> length (elems s) \<le> k \<Longrightarrow>
   \<exists>s'. pull_all k s = Inr (elems s, s') \<and> inv s' \<and> elems s' = []"
proof (induction k arbitrary: s)
  case 0
  then show ?case by simp
next
  case (Suc k)
  from pull_law [OF Suc.prems(1)] obtain s1 where
    s1: "inv s1" "pull s = Inr (case elems s of [] \<Rightarrow> None | x # _ \<Rightarrow> Some x, s1)"
      "elems s1 = tl (elems s)" by blast
  show ?case
  proof (cases "elems s")
    case Nil
    with s1 show ?thesis by simp
  next
    case (Cons x xs)
    with s1 Suc.prems(2) have "length (elems s1) \<le> k" by simp
    from Suc.IH [OF s1(1) this] s1 Cons show ?thesis by auto
  qed
qed

text \<open>First in, first out: what is pushed into an empty structure is pulled in the same order.\<close>

lemma fifo:
  assumes "inv s" "elems s = []" "distinct (map fst xs)" "\<forall>a \<in> set (map fst xs). fresh a s"
  shows "\<exists>s1 s2. push_all xs s = Inr s1 \<and> pull_all (length xs) s1 = Inr (map snd xs, s2)"
proof -
  obtain s1 where s1: "push_all xs s = Inr s1" "inv s1" "elems s1 = map snd xs"
    using push_all_order [OF assms(1,3,4)] assms(2) by auto
  with pull_all_elems [OF s1(2), of "length xs"] show ?thesis by auto
qed

end

end
