(* ===== verification/LinkedList.thy ===== *)
theory LinkedList
  imports Chain
begin

text \<open>
  \<open>src/linkedList.cc\<close>: the list of client sockets, which the signal handler walks to shut the
  clients down. Every function is modelled on the store, pointer by pointer; a null or dangling
  pointer that the code would follow is an error value. The list mutex makes each function atomic.
\<close>

section \<open>Data\<close>

type_synonym sockets = "int store \<times> ends"

definition createList :: "ends" where
  "createList = \<lparr>first = None, last_ptr = None, count = 0\<rparr>"

section \<open>Pushing\<close>

definition lPush :: "addr \<Rightarrow> sockets \<Rightarrow> c_error + sockets" where
  "lPush new_val s = (case s of (h, l) \<Rightarrow>
     (case h new_val of
        None \<Rightarrow> Inl Null_pointer
      | Some n \<Rightarrow>
          let h1 = h(new_val \<mapsto> n\<lparr>prev := None\<rparr>)
          in if count l = 0
             then Inr (h1, l\<lparr>first := Some new_val, last_ptr := Some new_val, count := count l + 1\<rparr>)
             else (case last_ptr l of
                 None \<Rightarrow> Inl Null_pointer
               | Some b \<Rightarrow> (case h1 b of
                     None \<Rightarrow> Inl Null_pointer
                   | Some nb \<Rightarrow> Inr (h1(b \<mapsto> nb\<lparr>prev := Some new_val\<rparr>),
                       l\<lparr>last_ptr := Some new_val, count := count l + 1\<rparr>)))))"

text \<open>\<open>pushVal\<close>: \<open>malloc\<close> returned \<open>a\<close>; the pointer of the node is not set before \<open>lPush\<close>.\<close>

definition pushVal :: "addr \<Rightarrow> int \<Rightarrow> sockets \<Rightarrow> c_error + sockets" where
  "pushVal a new_val s = (case s of (h, l) \<Rightarrow>
     lPush a (h(a \<mapsto> \<lparr>prev = None, content = new_val\<rparr>), l))"

section \<open>Searching and removing\<close>

text \<open>The first loop of \<open>find_next\<close>: \<open>k\<close> rounds left, counter \<open>i\<close>, node \<open>temp_line\<close>.\<close>

fun index_loop :: "int store \<Rightarrow> int \<Rightarrow> nat \<Rightarrow> int \<Rightarrow> addr option \<Rightarrow> c_error + int" where
  "index_loop h v 0 i t = Inr (- 1)"
| "index_loop h v (Suc k) i t = (case t of None \<Rightarrow> Inl Null_pointer | Some a \<Rightarrow>
     (case h a of None \<Rightarrow> Inl Null_pointer | Some n \<Rightarrow>
        if content n = v then Inr (i - 1) else index_loop h v k (i + 1) (prev n)))"

text \<open>The second loop: the node at position \<open>ret_number\<close>.\<close>

fun nth_loop :: "int store \<Rightarrow> int \<Rightarrow> nat \<Rightarrow> int \<Rightarrow> addr option \<Rightarrow> c_error + addr option" where
  "nth_loop h r 0 i t = Inr None"
| "nth_loop h r (Suc k) i t =
     (if i = r then Inr t
      else case t of None \<Rightarrow> Inl Null_pointer | Some a \<Rightarrow>
        (case h a of None \<Rightarrow> Inl Null_pointer | Some n \<Rightarrow> nth_loop h r k (i + 1) (prev n)))"

definition find_next :: "int store \<Rightarrow> ends \<Rightarrow> int \<Rightarrow> c_error + addr option" where
  "find_next h l v =
     (if first l = None then Inr None
      else case index_loop h v (nat (count l)) 0 (first l) of
          Inl e \<Rightarrow> Inl e
        | Inr ret_number \<Rightarrow> nth_loop h ret_number (nat (count l)) 0 (first l))"

text \<open>What \<open>p->sck_val\<close> reads.\<close>

definition sck_val :: "int store \<Rightarrow> addr option \<Rightarrow> c_error + int" where
  "sck_val h p = (case p of None \<Rightarrow> Inl Null_pointer | Some a \<Rightarrow>
     (case h a of None \<Rightarrow> Inl Null_pointer | Some n \<Rightarrow> Inr (content n)))"

text \<open>\<open>p->prev = q\<close>\<close>

definition set_prev :: "int store \<Rightarrow> addr option \<Rightarrow> addr option \<Rightarrow> c_error + int store" where
  "set_prev h p q = (case p of None \<Rightarrow> Inl Null_pointer | Some a \<Rightarrow>
     (case h a of None \<Rightarrow> Inl Null_pointer | Some n \<Rightarrow> Inr (h(a \<mapsto> n\<lparr>prev := q\<rparr>))))"

definition pullList :: "sockets \<Rightarrow> addr \<Rightarrow> c_error + sockets" where
  "pullList s new_val = (case s of (h, l) \<Rightarrow>
     (case (sck_val h (first l), h new_val) of
        (Inr fv, Some n) \<Rightarrow>
          if fv = content n then
            (if count l = 1
             then Inr (h, l\<lparr>first := None, last_ptr := None, count := count l - 1\<rparr>)
             else Inr (h, l\<lparr>first := prev (the (h (the (first l)))), count := count l - 1\<rparr>))
          else (case sck_val h (last_ptr l) of Inl e \<Rightarrow> Inl e | Inr lv \<Rightarrow>
            if lv = content n then
              (if count l = 1
               then Inr (h, l\<lparr>last_ptr := None, first := None, count := count l - 1\<rparr>)
               else (case find_next h l lv of Inl e \<Rightarrow> Inl e | Inr next_line \<Rightarrow>
                   (case set_prev h next_line None of Inl e \<Rightarrow> Inl e | Inr h' \<Rightarrow>
                      Inr (h', l\<lparr>last_ptr := next_line, count := count l - 1\<rparr>))))
            else
              (case find_next h l (content n) of Inl e \<Rightarrow> Inl e | Inr next_line \<Rightarrow>
                 (case set_prev h next_line (prev n) of Inl e \<Rightarrow> Inl e | Inr h' \<Rightarrow>
                    Inr (h', l\<lparr>count := count l - 1\<rparr>))))
      | _ \<Rightarrow> Inl Null_pointer))"

fun pull_loop :: "sockets \<Rightarrow> int \<Rightarrow> nat \<Rightarrow> addr option \<Rightarrow> c_error + sockets" where
  "pull_loop s v 0 t = Inr s"
| "pull_loop s v (Suc k) t = (case t of None \<Rightarrow> Inl Null_pointer | Some a \<Rightarrow>
     (case fst s a of None \<Rightarrow> Inl Null_pointer | Some n \<Rightarrow>
        if content n = v then pullList s a else pull_loop s v k (prev n)))"

definition pullSpec :: "int \<Rightarrow> sockets \<Rightarrow> c_error + sockets" where
  "pullSpec v s = (if first (snd s) = None then Inr s
     else pull_loop s v (nat (count (snd s))) (first (snd s)))"

section \<open>Walking the list\<close>

text \<open>\<open>printList\<close> and \<open>shutdownList\<close> visit the sockets in list order.\<close>

fun visit_loop :: "int store \<Rightarrow> nat \<Rightarrow> addr option \<Rightarrow> c_error + int list" where
  "visit_loop h 0 t = Inr []"
| "visit_loop h (Suc k) t = (case t of None \<Rightarrow> Inl Null_pointer | Some a \<Rightarrow>
     (case h a of None \<Rightarrow> Inl Null_pointer | Some n \<Rightarrow>
        (case visit_loop h k (prev n) of Inl e \<Rightarrow> Inl e | Inr vs \<Rightarrow> Inr (content n # vs))))"

definition shutdownList :: "sockets \<Rightarrow> c_error + int list" where
  "shutdownList s = (if first (snd s) = None then Inr []
     else visit_loop (fst s) (nat (count (snd s))) (first (snd s)))"

fun printList_lines :: "nat \<Rightarrow> int list \<Rightarrow> string list" where
  "printList_lines i [] = []"
| "printList_lines i (v # vs) =
     (''Socket '' @ show_ld (int i) @ '' is : '' @ show_ld v @ ''.'') # printList_lines (Suc i) vs"

definition printList :: "sockets \<Rightarrow> c_error + string list" where
  "printList s = (case shutdownList s of Inl e \<Rightarrow> Inl e | Inr vs \<Rightarrow> Inr (printList_lines 0 vs))"

section \<open>Pushing appends\<close>

lemma pushVal_repr:
  assumes r: "repr h l as" and a: "h a = None"
  shows "\<exists>h' l'. pushVal a v (h, l) = Inr (h', l') \<and> repr h' l' (as @ [a]) \<and>
    contents h' (as @ [a]) = contents h as @ [v] \<and> (\<forall>b. b \<noteq> a \<longrightarrow> h b = None \<longrightarrow> h' b = None)"
proof -
  have na: "a \<notin> set as" using fresh_notin [OF r] a by (simp add: fresh_addr_def)
  show ?thesis
  proof (cases as rule: rev_cases)
    case Nil
    with r have "count l = 0" by (simp add: repr_def)
    with Nil r repr_push_first [of h l a v] show ?thesis
      by (simp add: pushVal_def lPush_def)
  next
    case (snoc bs b)
    with r obtain nb where nb: "h b = Some nb" by (auto simp: repr_def dest: chain_node)
    have l: "count l \<noteq> 0" "last_ptr l = Some b" using r snoc by (auto simp: repr_def)
    have "b \<noteq> a" using snoc na by auto
    then have p: "pushVal a v (h, l) = Inr (h(b \<mapsto> nb\<lparr>prev := Some a\<rparr>, a \<mapsto> \<lparr>prev = None, content = v\<rparr>),
        l\<lparr>last_ptr := Some a, count := count l + 1\<rparr>)"
      using l nb by (simp add: pushVal_def lPush_def fun_upd_twist)
    have "contents (h(b \<mapsto> nb\<lparr>prev := Some a\<rparr>, a \<mapsto> \<lparr>prev = None, content = v\<rparr>)) as = contents h as"
      using na nb by (auto simp: contents_def)
    with p snoc na nb repr_push_last [of h l bs b a v] r show ?thesis by simp
  qed
qed

interpretation client_list: push_structure wf_ends items fresh_addr pushVal
proof unfold_locales
  fix s :: sockets and a v
  assume wf: "wf_ends s" and f: "fresh_addr a s"
  obtain h l where s: "s = (h, l)" by (cases s)
  with wf obtain as where as: "repr h l as" "items s = contents h as" using wf_repr by blast
  from f s have a: "h a = None" by (simp add: fresh_addr_def)
  from pushVal_repr [OF as(1) a, of v] obtain h' l' where
    p: "pushVal a v s = Inr (h', l')" "repr h' l' (as @ [a])"
      "contents h' (as @ [a]) = contents h as @ [v]"
      "\<forall>b. b \<noteq> a \<longrightarrow> h b = None \<longrightarrow> h' b = None"
    using s by blast
  then show "\<exists>s'. pushVal a v s = Inr s' \<and> wf_ends s' \<and> items s' = items s @ [v]"
    using repr_wf as(2) by metis
  fix b s'
  assume "pushVal a v s = Inr s'" "fresh_addr b s" "b \<noteq> a"
  then show "fresh_addr b s'" using p s by (simp add: fresh_addr_def)
qed

section \<open>Removing takes the socket out\<close>

lemma index_loop_at:
  "chain h t (xs @ c # ys) \<Longrightarrow> v \<notin> set (contents h xs) \<Longrightarrow> content (the (h c)) = v \<Longrightarrow>
   length xs < k \<Longrightarrow> index_loop h v k i t = Inr (i + int (length xs) - 1)"
proof (induction xs arbitrary: t k i)
  case Nil
  then show ?case by (cases k) (auto split: option.splits)
next
  case (Cons x xs)
  then show ?case by (cases k) (auto split: option.splits)
qed

lemma nth_loop_at:
  "chain h t (xs @ b # ys) \<Longrightarrow> length xs < k \<Longrightarrow>
   nth_loop h (i + int (length xs)) k i t = Inr (Some b)"
proof (induction xs arbitrary: t k i)
  case Nil
  then show ?case by (cases k) (auto split: option.splits)
next
  case (Cons x xs)
  then obtain k' nx where k: "k = Suc k'" "t = Some x" "h x = Some nx" "chain h (prev nx) (xs @ b # ys)"
    by (cases k) (auto split: option.splits)
  with Cons.IH [of "prev nx" k' "i + 1"] Cons.prems(2) show ?case by (simp add: add.assoc)
qed

text \<open>Despite its name, \<open>find_next\<close> finds the node pushed just before the one sought.\<close>

lemma find_next_before:
  assumes "repr h l (xs @ [b, c] @ ys)" and "v \<notin> set (contents h (xs @ [b]))"
    and "content (the (h c)) = v"
  shows "find_next h l v = Inr (Some b)"
proof -
  let ?k = "nat (count l)"
  have ch: "chain h (first l) ((xs @ [b]) @ c # ys)" "length xs + 1 < ?k"
    using assms(1) by (auto simp: repr_def)
  then have "first l \<noteq> None" by (cases xs) auto
  moreover have "index_loop h v ?k 0 (first l) = Inr (int (length xs))"
    using index_loop_at [OF ch(1) assms(2,3), of ?k 0] ch(2) by simp
  moreover have "nth_loop h (int (length xs)) ?k 0 (first l) = Inr (Some b)"
    using nth_loop_at [of h "first l" xs b "c # ys" ?k 0] ch by simp
  ultimately show ?thesis by (simp add: find_next_def)
qed

lemma pull_loop_at:
  "chain (fst s) t (xs @ c # ys) \<Longrightarrow> v \<notin> set (contents (fst s) xs) \<Longrightarrow>
   content (the (fst s c)) = v \<Longrightarrow> length xs < k \<Longrightarrow> pull_loop s v k t = pullList s c"
proof (induction xs arbitrary: t k)
  case Nil
  then show ?case by (cases k) (auto split: option.splits)
next
  case (Cons x xs)
  then show ?case by (cases k) (auto split: option.splits)
qed

lemma pull_loop_absent:
  "chain (fst s) t as \<Longrightarrow> v \<notin> set (contents (fst s) as) \<Longrightarrow> pull_loop s v (length as) t = Inr s"
  by (induction as arbitrary: t) (auto split: option.splits)

lemma repr_ends_read:
  assumes "repr h l as" and "as \<noteq> []"
  shows "sck_val h (first l) = Inr (hd (contents h as))"
    and "sck_val h (last_ptr l) = Inr (last (contents h as))"
proof -
  obtain a as' where "as = a # as'" using assms(2) by (cases as) auto
  with assms show "sck_val h (first l) = Inr (hd (contents h as))"
    by (auto simp: repr_def sck_val_def split: option.splits)
  obtain bs b where b: "as = bs @ [b]" using assms(2) by (cases as rule: rev_cases) auto
  with assms(1) have "\<exists>n. h b = Some n"
    using chain_node [of h "first l" as b] by (simp add: repr_def)
  with assms b show "sck_val h (last_ptr l) = Inr (last (contents h as))"
    by (auto simp: repr_def sck_val_def)
qed

text \<open>\<open>pullList\<close> on a node, by its position: at the front, at the end, in between.\<close>

lemma pullList_first:
  assumes "repr h l (c # ys)"
  shows "\<exists>l'. pullList (h, l) c = Inr (h, l') \<and> repr h l' ys"
proof -
  obtain n where n: "h c = Some n" "first l = Some c"
    using assms by (auto simp: repr_def split: option.splits)
  have "count l = 1 \<longleftrightarrow> ys = []" using assms by (auto simp: repr_def)
  then have "pullList (h, l) c = Inr (h, if ys = []
      then l\<lparr>first := None, last_ptr := None, count := count l - 1\<rparr>
      else l\<lparr>first := prev n, count := count l - 1\<rparr>)"
    using n by (simp add: pullList_def sck_val_def)
  with repr_drop_first [OF assms n(1)] show ?thesis by blast
qed

lemma pullList_last:
  assumes r: "repr h l (xs @ [b, c])" and v: "content (the (h c)) \<notin> set (contents h (xs @ [b]))"
  shows "\<exists>h' l'. pullList (h, l) c = Inr (h', l') \<and> repr h' l' (xs @ [b]) \<and>
    (\<forall>as. contents h' as = contents h as)"
proof -
  have "\<forall>a \<in> set (xs @ [b, c]). \<exists>n. h a = Some n"
    using r by (auto simp: repr_def dest: chain_node)
  then obtain nb nc where nodes: "h b = Some nb" "h c = Some nc" by auto
  have "contents h (xs @ [b, c]) \<noteq> []" by simp
  then have hd: "hd (contents h (xs @ [b, c])) \<in> set (contents h (xs @ [b]))"
    by (cases xs) auto
  have "find_next h l (content nc) = Inr (Some b)"
    using find_next_before [of h l xs b c "[]"] r v nodes by simp
  moreover have "count l \<noteq> 1" using r by (simp add: repr_def)
  ultimately have "pullList (h, l) c =
      Inr (h(b \<mapsto> nb\<lparr>prev := None\<rparr>), l\<lparr>last_ptr := Some b, count := count l - 1\<rparr>)"
    using repr_ends_read [OF r] hd v nodes by (auto simp: pullList_def set_prev_def)
  with repr_drop_last [OF r nodes(1)] contents_relink [where h = h, OF nodes(1)] show ?thesis by auto
qed

lemma pullList_middle:
  assumes r: "repr h l (xs @ [b, c] @ ys)" and ys: "ys \<noteq> []"
    and v: "content (the (h c)) \<notin> set (contents h (xs @ [b]))"
      "content (the (h c)) \<notin> set (contents h ys)"
  shows "\<exists>h' l'. pullList (h, l) c = Inr (h', l') \<and> repr h' l' (xs @ [b] @ ys) \<and>
    (\<forall>as. contents h' as = contents h as)"
proof -
  have "\<forall>a \<in> set (xs @ [b, c] @ ys). \<exists>n. h a = Some n"
    using r by (auto simp: repr_def dest: chain_node)
  then obtain nb nc where nodes: "h b = Some nb" "h c = Some nc" by auto
  have hd: "hd (contents h (xs @ [b, c] @ ys)) \<in> set (contents h (xs @ [b]))"
    by (cases xs) auto
  have last: "last (contents h (xs @ [b, c] @ ys)) \<in> set (contents h ys)"
    using ys by (cases ys rule: rev_cases) auto
  have "find_next h l (content nc) = Inr (Some b)"
    using find_next_before [of h l xs b c ys] r v nodes by simp
  then have "pullList (h, l) c =
      Inr (h(b \<mapsto> nb\<lparr>prev := prev nc\<rparr>), l\<lparr>count := count l - 1\<rparr>)"
    using repr_ends_read [OF r] hd last v nodes by (auto simp: pullList_def set_prev_def)
  with repr_drop_middle [OF r ys nodes] contents_relink [where h = h, OF nodes(1)]
  show ?thesis by auto
qed

lemma pullSpec_ok:
  assumes wf: "wf_ends s" and dis: "distinct (items s)"
  shows "\<exists>s'. pullSpec v s = Inr s' \<and> wf_ends s' \<and> items s' = remove1 v (items s)"
proof -
  obtain h l where s: "s = (h, l)" by (cases s)
  with wf obtain as where r: "repr h l as" and it: "items s = contents h as"
    using wf_repr by blast
  have ch: "chain h (first l) as" "nat (count l) = length as" using r by (auto simp: repr_def)
  show ?thesis
  proof (cases "v \<in> set (contents h as)")
    case False
    have "pullSpec v s = Inr s"
      using pull_loop_absent [of s "first l" as v] ch False s by (simp add: pullSpec_def)
    with wf False it show ?thesis by (simp add: remove1_idem)
  next
    case True
    then obtain xs c ys where as: "as = xs @ c # ys" "content (the (h c)) = v"
      using split_list by (fastforce simp: contents_def)
    with dis it have v: "v \<notin> set (contents h xs)" "v \<notin> set (contents h ys)" by auto
    have "first l \<noteq> None" using ch(1) as by (cases xs) auto
    moreover have "pull_loop s v (nat (count l)) (first l) = pullList s c"
      using ch as v s by (intro pull_loop_at [of s "first l" xs c ys]) auto
    ultimately have pull: "pullSpec v s = pullList (h, l) c"
      unfolding pullSpec_def s by auto
    have goal: "remove1 v (items s) = contents h (xs @ ys)"
      using as v it by (simp add: remove1_append)
    have "\<exists>h' l'. pullList (h, l) c = Inr (h', l') \<and> repr h' l' (xs @ ys) \<and>
        contents h' (xs @ ys) = contents h (xs @ ys)"
    proof (cases xs rule: rev_cases)
      case Nil
      with pullList_first [of h l c ys] r as show ?thesis by auto
    next
      case (snoc xs' b)
      then show ?thesis
      proof (cases "ys = []")
        case True
        with r as v snoc have "repr h l (xs' @ [b, c])"
          "content (the (h c)) \<notin> set (contents h (xs' @ [b]))" by auto
        from pullList_last [OF this] show ?thesis using snoc True by (metis append_Nil2)
      next
        case False
        have "repr h l (xs' @ [b, c] @ ys)" "content (the (h c)) \<notin> set (contents h (xs' @ [b]))"
          "content (the (h c)) \<notin> set (contents h ys)" using r as v snoc by auto
        from pullList_middle [OF this(1) False this(2,3)] show ?thesis
          using snoc by (metis append_assoc)
      qed
    qed
    with pull goal repr_wf show ?thesis by metis
  qed
qed

text \<open>
  Pulling a socket out of the list removes it wherever it is, keeps the order of the
  others, and never follows a bad pointer; pulling one that is not there changes nothing.
\<close>

theorem pullSpec_removes:
  assumes "wf_ends s" and "distinct (items s)"
  shows "\<exists>s'. pullSpec v s = Inr s' \<and> wf_ends s' \<and> items s' = remove1 v (items s)"
  using assms by (rule pullSpec_ok)

text \<open>Walking a well-formed list meets no bad pointer and visits every socket once, in order.\<close>

lemma visit_loop_chain: "chain h t as \<Longrightarrow> visit_loop h (length as) t = Inr (contents h as)"
  by (induction as arbitrary: t) (auto split: option.splits)

theorem shutdownList_all: "wf_ends s \<Longrightarrow> shutdownList s = Inr (items s)"
proof -
  assume wf: "wf_ends s"
  obtain h l where s: "s = (h, l)" by (cases s)
  with wf obtain as where r: "repr h l as" and it: "items s = contents h as"
    using wf_repr by blast
  then have "chain h (first l) as" "nat (count l) = length as" by (auto simp: repr_def)
  with visit_loop_chain [of h "first l" as] it s show ?thesis
    by (cases as) (auto simp: shutdownList_def)
qed

lemma createList_wf: "wf_ends (h, createList)" and createList_items: "items (h, createList) = []"
proof -
  have "repr h createList []" by (simp add: repr_def createList_def)
  then show "wf_ends (h, createList)" "items (h, createList) = []"
    using repr_wf by fastforce+
qed

text \<open>Three sockets in a list, for the examples.\<close>

definition three_sockets :: "sockets" where
  "three_sockets =
     ([10 \<mapsto> \<lparr>prev = Some 20, content = 4\<rparr>, 20 \<mapsto> \<lparr>prev = Some 30, content = 5\<rparr>,
       30 \<mapsto> \<lparr>prev = None, content = 6\<rparr>],
      \<lparr>first = Some 10, last_ptr = Some 30, count = 3\<rparr>)"

lemma three_sockets_wf: "wf_ends three_sockets" "items three_sockets = [4, 5, 6]"
proof -
  have "repr (fst three_sockets) (snd three_sockets) [10, 20, 30]"
    by (simp add: repr_def three_sockets_def)
  from repr_wf [OF this] show "wf_ends three_sockets" "items three_sockets = [4, 5, 6]"
    by (simp_all add: three_sockets_def)
qed

theorem pullSpec_removes_witness:
  "\<exists>s'. pullSpec 5 three_sockets = Inr s' \<and> wf_ends s' \<and> items s' = [4, 6]"
  using pullSpec_removes [of three_sockets 5] three_sockets_wf by simp

text \<open>
  However many clients come, in whatever order, the list holds all their sockets in
  the order of their arrival, and shutting the list down reaches every one of them exactly once.
\<close>

theorem shutdown_reaches_all:
  assumes "distinct (map fst xs)" and "\<forall>a \<in> set (map fst xs). h a = None"
  shows "\<exists>s. client_list.push_all xs (h, createList) = Inr s \<and> shutdownList s = Inr (map snd xs)"
proof -
  have "\<forall>a \<in> set (map fst xs). fresh_addr a (h, createList)"
    using assms(2) by (simp add: fresh_addr_def)
  then obtain s where "client_list.push_all xs (h, createList) = Inr s" "wf_ends s"
    "items s = items (h, createList) @ map snd xs"
    using client_list.push_all_order [OF createList_wf assms(1)] by blast
  then show ?thesis using shutdownList_all by (simp add: createList_items)
qed

theorem shutdown_reaches_all_witness:
  "\<exists>s. client_list.push_all [(10, 4), (20, 5)] (Map.empty, createList) = Inr s \<and>
    shutdownList s = Inr [4, 5]"
  using shutdown_reaches_all [of "[(10, 4), (20, 5)]" Map.empty] by simp

end
