(* ===== verification/ClientSession.thy ===== *)
theory ClientSession
  imports SyncOps NumberGen LinkedList
begin

text \<open>
  \<open>server_operations\<close> of \<open>src/server_operations.cc\<close>: the session of a client. A request line gives
  the text sent back, whether the loop goes on, and a new state: the user, the board, and the
  network behind the master's side of the commit protocol. The texts are the code's.
\<close>

section \<open>State\<close>

record 'p client_state =
  c_user :: string
  c_uname_avl :: bool
  c_quit :: bool
  c_board :: board_state
  c_net :: 'p

text \<open>What the session is given: the network, the schedule, the peers, and uninitialised memory.\<close>

record 'p client_env =
  e_wire :: "'p wire"
  e_sched :: schedule
  e_addrs :: "peer_stat_address list"
  e_reply_junk :: string
  e_msg_junk :: string
  e_repl_junk :: string
  e_len_junk :: string

definition lines_text :: "string list \<Rightarrow> string" where
  "lines_text ls = concat (map (\<lambda>l. l @ [NL]) ls)"

text \<open>\<open>snprintf(response, 2*MAX_LEN, ...)\<close> and \<open>snprintf(response, 2*BBLINE_LEN, ...)\<close>, then \<open>send\<close>.\<close>

definition respond :: "string \<Rightarrow> string" where "respond s = snprintf (2 * MAX_LEN) s"
definition respond_long :: "string \<Rightarrow> string" where "respond_long s = snprintf (2 * BBLINE_LEN) s"

definition greeting :: "string \<Rightarrow> string" where
  "greeting client_ip = respond (lines_text ['''', ''0.0 Welcome to Bullettin Board Server '' @ client_ip,
     ''1.USER username'', ''2.READ msg_number'', ''3.WRITE text'', ''4.REPLACE msg_num/message''])"

definition hello :: "string \<Rightarrow> string" where
  "hello user = respond (lines_text [''1.0 HELLO '' @ user @ '' welcome to the Bullettin Board.'', ''''])"

definition wrote :: "string \<Rightarrow> string" where
  "wrote n = respond (lines_text [''3.0 WROTE '' @ n, ''''])"

definition sync_error :: string where
  "sync_error = respond (lines_text [''3.2 ERROR WRITE : Synchronization error.'', ''''])"

definition improper_replace :: string where
  "improper_replace = respond (lines_text [''3.2 ERROR WRITE : Improper REPLACE format.'',
     ''FORMAT -> REPLACE message-number/message'', ''Ex  : REPLACE 6/jack and jill went up the hill.'', ''''])"

section \<open>The commands\<close>

type_synonym 'p reaction = "c_error + string \<times> bool \<times> 'p client_state"

definition client_user_cmd :: "string list \<Rightarrow> 'p client_state \<Rightarrow> 'p reaction" where
  "client_user_cmd command c =
     (if length command > 1 then
        (let user = append_args [] (tl command); c' = c\<lparr>c_uname_avl := True, c_user := user\<rparr> in
         if MAX_LEN \<le> length user then Inl Out_of_bounds
         else if c_uname_avl c = False then
           (if \<not> strstr1 user SLASH then Inr (hello user, True, c')
            else Inr (respond (lines_text
                   [''ERR : The name parameter of USER should not contain the character / in it.'',
                    ''Ex  : USER Michael'', '''']), True, c'))
         else Inr (hello user, True, c'))
      else Inr (respond (lines_text
             [''ERR : The USER command must accompany a name with it.'', ''Ex  : USER Michael'', '''']), True, c))"

definition client_read :: "string list \<Rightarrow> 'p client_state \<Rightarrow> 'p reaction" where
  "client_read command c =
     (if length command = 2 then
        (case read_descriptor (command ! 1) (c_board c) of
           Inl e \<Rightarrow> Inl e
         | Inr (read_return, temp_line, st) \<Rightarrow>
             (if read_return \<ge> 0
              then Inr (respond_long (lines_text
                     [''2.0 MESSAGE '' @ command ! 1 @ '' '' @ (case temp_line of None \<Rightarrow> [] | Some s \<Rightarrow> s), '''']),
                   True, c\<lparr>c_board := st\<rparr>)
              else if read_return = - 2
              then Inr (respond (lines_text [''2.2 ERROR READ : Bullettin Board Unavailable'', '''']),
                   True, c\<lparr>c_board := st\<rparr>)
              else Inr (respond (lines_text [''2.1 UNKNOWN '' @ command ! 1 @ '' message not found.'', '''']),
                   True, c\<lparr>c_board := st\<rparr>)))
      else Inr (respond (lines_text [''2.2 ERROR READ : Improper READ format.'',
             ''FORMAT -> READ message-number'', ''Ex  : READ 6'', '''']), True, c))"

definition client_write :: "'p client_env \<Rightarrow> string list \<Rightarrow> 'p client_state \<Rightarrow> 'p reaction" where
  "client_write env command c =
     (let t = length command in
      if t \<ge> 2 then
        (let msg = (if t > 2 then append_args (cstr (e_msg_junk env)) (tl command) else command ! 1) in
         if MAX_LEN \<le> length msg then Inl Out_of_bounds
         else (case generate_number (c_board c) of
             Inl e \<Rightarrow> Inl e
           | Inr (gen_num, st1) \<Rightarrow>
               let msg_nbr = show_ld gen_num in
               (case new_line msg_nbr (c_user c) msg of
                  Inl e \<Rightarrow> Inl e
                | Inr syncer_line \<Rightarrow>
                    (case sync_write (e_wire env) (e_sched env) (e_reply_junk env) (e_addrs env)
                            syncer_line st1 (c_net c) of
                       Inl e \<Rightarrow> Inl e
                     | Inr (sync_ret, st2, w) \<Rightarrow>
                         if sync_ret = 0 \<and> gen_num \<ge> 0
                         then Inr (wrote msg_nbr, True, c\<lparr>c_board := st2, c_net := w\<rparr>)
                         else
                           let st3 = snd (release_number gen_num st2) in
                           Inr (if gen_num \<ge> 0 then sync_error
                                else respond (lines_text [''3.2 ERROR WRITE : bbfile not found.'', '''']),
                                True, c\<lparr>c_board := st3, c_net := w\<rparr>)))))
      else Inr (respond (lines_text [''3.2 ERROR WRITE : Improper WRITE format.'',
             ''FORMAT -> WRITE message'', ''Ex  : WRITE jack and jill went up the hill.'', '''']), True, c))"

definition client_replace :: "'p client_env \<Rightarrow> string list \<Rightarrow> 'p client_state \<Rightarrow> 'p reaction" where
  "client_replace env command c =
     (if length command > 1 then
        (let repl_tokens = repl_split (e_repl_junk env) (strcat_args (tl command)) (length (command ! 1)) in
         case repl_message repl_tokens of
           None \<Rightarrow> Inr (improper_replace, True, c)
         | Some msg \<Rightarrow>
             (case read_descriptor (repl_tokens ! 0) (c_board c) of
                Inl e \<Rightarrow> Inl e
              | Inr (read_return, temp_line, st1) \<Rightarrow>
                  if read_return = - 1
                  then Inr (respond (lines_text [''3.1 UNKNOWN '' @ repl_tokens ! 0, '''']), True, c\<lparr>c_board := st1\<rparr>)
                  else (case new_line (repl_tokens ! 0) (c_user c) msg of
                      Inl e \<Rightarrow> Inl e
                    | Inr syncer_line \<Rightarrow>
                        (case sync_replace (e_wire env) (e_sched env) (e_reply_junk env) (e_len_junk env)
                                (e_addrs env) syncer_line st1 (c_net c) of
                           Inl e \<Rightarrow> Inl e
                         | Inr (sync_ret, st2, w) \<Rightarrow>
                             Inr (if sync_ret = 0 then wrote (repl_tokens ! 0) else sync_error,
                                  True, c\<lparr>c_board := st2, c_net := w\<rparr>)))))
      else Inr (improper_replace, True, c))"

text \<open>The request array after tokenizing shows its first token.\<close>

definition client_request :: "'p client_env \<Rightarrow> string \<Rightarrow> 'p client_state \<Rightarrow> 'p reaction" where
  "client_request env request c = (case chop request of
      Inl e \<Rightarrow> Inl e
    | Inr req \<Rightarrow>
        let command = command_tokens req; client_command = tolwr (hd command) in
        if client_command \<noteq> ''quit'' then
          (if tolwr client_command = ''user'' then client_user_cmd command c
           else if tolwr client_command = ''read'' then client_read command c
           else if tolwr client_command = ''write'' then client_write env command c
           else if tolwr client_command = ''replace'' then client_replace env command c
           else Inr (respond (lines_text [''ERR : Invalid Command '' @ hd command @ ''. '', '''']), True, c))
        else Inr (respond (lines_text [''4.0 BYE . Hope to see you later.'', '''']), False, c\<lparr>c_quit := True\<rparr>))"

section \<open>The session\<close>

definition client_start :: "board_state \<Rightarrow> 'p \<Rightarrow> 'p client_state" where
  "client_start st w = \<lparr>c_user = ''nobody'', c_uname_avl = False, c_quit = False, c_board = st, c_net = w\<rparr>"

text \<open>
  \<open>a\<close> is the address \<open>malloc\<close> gives the node of the list of clients. The session gives all it sent,
  the list of clients, the board and the network; its socket is shut down and closed.
\<close>

definition server_operations ::
  "'p client_env \<Rightarrow> addr \<Rightarrow> int \<Rightarrow> string \<Rightarrow> string \<Rightarrow> rd list \<Rightarrow> sockets \<Rightarrow> board_state \<Rightarrow> 'p \<Rightarrow>
   c_error + string \<times> sockets \<times> board_state \<times> 'p" where
  "server_operations env a sd client_ip buf fd clients st w =
     (case pushVal a sd clients of
        Inl e \<Rightarrow> Inl e
      | Inr clients1 \<Rightarrow>
          (case serve (client_request env) buf fd (client_start st w) of
             Inl e \<Rightarrow> Inl e
           | Inr (out, c) \<Rightarrow>
               (case pullSpec sd clients1 of
                  Inl e \<Rightarrow> Inl e
                | Inr clients2 \<Rightarrow>
                    Inr (greeting client_ip @ out @
                         (if \<not> c_quit c then respond (lines_text ['''', ''4.0 BYE . Hope to see you later.'', '''']) else []),
                       clients2, c_board c, c_net c))))"

section \<open>Requests of words\<close>

lemma client_request_tokens:
  assumes "chop request = Inr req" and "command_tokens req = command"
  shows "client_request env request c =
       (let client_command = map to_lower (hd command) in
        if client_command \<noteq> ''quit'' then
          (if tolwr client_command = ''user'' then client_user_cmd command c
           else if tolwr client_command = ''read'' then client_read command c
           else if tolwr client_command = ''write'' then client_write env command c
           else if tolwr client_command = ''replace'' then client_replace env command c
           else Inr (respond (lines_text [''ERR : Invalid Command '' @ hd command @ ''. '', '''']), True, c))
        else Inr (respond (lines_text [''4.0 BYE . Hope to see you later.'', '''']), False, c\<lparr>c_quit := True\<rparr>))"
  by (simp add: client_request_def assms Let_def)

text \<open>A command line as a terminal sends it: words, a carriage return, and the newline \<open>readline\<close> eats.\<close>

definition typed_line :: "string \<Rightarrow> string list \<Rightarrow> string" where
  "typed_line cmd args = append_args cmd args @ [CHR 0x0D]"

lemma chop_typed [session_simps]: "chop (typed_line cmd args) = Inr (append_args cmd args)"
  by (simp add: typed_line_def chop_def)

lemma typed_tokens:
  "word_ok cmd \<Longrightarrow> \<forall>v \<in> set args. word_ok v \<Longrightarrow> command_tokens (append_args cmd args) = cmd # args"
proof -
  assume ok: "word_ok cmd" "\<forall>v \<in> set args. word_ok v"
  have "append_args cmd args = cmd @ blanked (map (Pair 0) args)"
    by (simp add: blanked_map) (simp add: append_args_def)
  then show ?thesis using ok command_tokens_blanked [of cmd "map (Pair 0) args"] by (simp add: comp_def)
qed

lemma client_typed:
  assumes "word_ok cmd" "\<forall>v \<in> set args. word_ok v" and "map to_lower cmd = low" and "map to_lower low = low"
  shows "client_request env (typed_line cmd args) c =
        (if low \<noteq> ''quit'' then
          (if low = ''user'' then client_user_cmd (cmd # args) c
           else if low = ''read'' then client_read (cmd # args) c
           else if low = ''write'' then client_write env (cmd # args) c
           else if low = ''replace'' then client_replace env (cmd # args) c
           else Inr (respond (lines_text [''ERR : Invalid Command '' @ cmd @ ''. '', '''']), True, c))
        else Inr (respond (lines_text [''4.0 BYE . Hope to see you later.'', '''']), False, c\<lparr>c_quit := True\<rparr>))"
  by (subst client_request_tokens [OF chop_typed typed_tokens [OF assms(1,2)]])
    (simp add: Let_def assms(3,4))

end
