(* ===== verification/CommitNetwork.thy ===== *)
theory CommitNetwork
  imports SyncOps
begin

text \<open>
  What the master's side of the commit protocol needs of the network and the peers, as a contract,
  and what it then achieves: the jobs of a phase visit every peer exactly once and count the
  replies, so that \<open>sync_write\<close> and \<open>sync_replace\<close> are the textbook protocol on the list of peers.
  The state of the network is the list of the peers' states.
\<close>

section \<open>The jobs of one phase\<close>

definition bump :: "bool \<Rightarrow> peer_stat \<Rightarrow> peer_stat" where
  "bump yes p = (if yes then p\<lparr>pos_count := pos_count p + 1\<rparr> else p\<lparr>neg_count := neg_count p + 1\<rparr>)"

lemma bump_simps [simp]:
  "peer_addr (bump b p) = peer_addr p" "line_a (bump b p) = line_a p"
  "writer (bump b p) = writer p" "replacer (bump b p) = replacer p"
  "pos_count (bump b p) = pos_count p + of_bool b"
  "neg_count (bump b p) = neg_count p + of_bool (\<not> b)"
  by (simp_all add: bump_def)

lemma first_unmarked_shift:
  "\<forall>a \<in> set ds. marked a \<Longrightarrow> \<not> marked t \<Longrightarrow> first_unmarked i (ds @ t # ts) = Some (i + length ds)"
  by (induction ds arbitrary: i) auto

lemma first_unmarked_none: "\<forall>a \<in> set ds. marked a \<Longrightarrow> first_unmarked i ds = None"
  by (induction ds arbitrary: i) auto

text \<open>
  A counting job of a phase, by what it does to the peer at position \<open>k\<close>: its address entry becomes
  \<open>G a e\<close>, its state \<open>E e\<close>, and \<open>P e\<close> tells whether its reply counts as positive.
\<close>

definition slot_job ::
  "'e list job \<Rightarrow> (peer_stat \<Rightarrow> bool) \<Rightarrow> (nat \<Rightarrow> peer_stat_address \<Rightarrow> 'e \<Rightarrow> bool) \<Rightarrow>
   (nat \<Rightarrow> peer_stat_address \<Rightarrow> 'e \<Rightarrow> peer_stat_address) \<Rightarrow> ('e \<Rightarrow> bool) \<Rightarrow> ('e \<Rightarrow> 'e) \<Rightarrow> bool" where
  "slot_job job J ok G P E \<longleftrightarrow>
     (\<forall>p w k. J p \<longrightarrow> k < length w \<longrightarrow> length w = length (peer_addr p) \<longrightarrow>
        first_unmarked 0 (peer_addr p) = Some k \<longrightarrow> ok k (peer_addr p ! k) (w ! k) \<longrightarrow>
        (let p' = bump (P (w ! k)) (p\<lparr>peer_addr := (peer_addr p)[k := G k (peer_addr p ! k) (w ! k)]\<rparr>)
         in job p w = Inr (0, broadcasts p', p', w[k := E (w ! k)]) \<and> J p')) \<and>
     (\<forall>k a e. marked (G k a e))"

lemma slot_jobD:
  assumes "slot_job job J ok G P E" "J p" "k < length w" "length w = length (peer_addr p)"
    "first_unmarked 0 (peer_addr p) = Some k" "ok k a e" "peer_addr p ! k = a" "w ! k = e"
    "p' = bump (P e) (p\<lparr>peer_addr := (peer_addr p)[k := G k a e]\<rparr>)"
  shows "job p w = Inr (0, broadcasts p', p', w[k := E e]) \<and> J p'"
  using assms unfolding slot_job_def Let_def by blast

fun map_from :: "(nat \<Rightarrow> 'a \<Rightarrow> 'b \<Rightarrow> 'c) \<Rightarrow> nat \<Rightarrow> 'a list \<Rightarrow> 'b list \<Rightarrow> 'c list" where
  "map_from f k (a # as) (b # bs) = f k a b # map_from f (Suc k) as bs"
| "map_from f k _ _ = []"

lemma length_map_from [simp]: "length (map_from f k as bs) = min (length as) (length bs)"
  by (induction f k as bs rule: map_from.induct) auto

lemma nth_map_from:
  "i < length as \<Longrightarrow> i < length bs \<Longrightarrow> map_from f k as bs ! i = f (k + i) (as ! i) (bs ! i)"
  by (induction f k as bs arbitrary: i rule: map_from.induct) (auto simp: nth_Cons split: nat.splits)

definition yes_count :: "('e \<Rightarrow> bool) \<Rightarrow> 'e list \<Rightarrow> int" where
  "yes_count P w = int (length (filter P w))"

lemma yes_count_simps [simp]:
  "yes_count P [] = 0" "yes_count P (e # w) = of_bool (P e) + yes_count P w"
  by (simp_all add: yes_count_def)

lemma yes_count_all: "yes_count P w = int (length w) \<longleftrightarrow> (\<forall>e \<in> set w. P e)"
proof -
  have "length (filter P w) = length w \<longleftrightarrow> filter P w = w"
    by (metis length_filter_less filter_id_conv less_irrefl)
  then show ?thesis by (simp add: yes_count_def filter_id_conv)
qed

lemma run_slot_jobs:
  assumes job: "slot_job job J ok G P E"
  shows "J p \<Longrightarrow> peer_addr p = ds @ ts \<Longrightarrow> \<forall>a \<in> set ds. marked a \<Longrightarrow> \<forall>a \<in> set ts. \<not> marked a \<Longrightarrow>
    length wd = length ds \<Longrightarrow> length wt = length ts \<Longrightarrow>
    \<forall>i < length ts. ok (length ds + i) (ts ! i) (wt ! i) \<Longrightarrow>
    pos_count p + neg_count p = int (length ds) \<Longrightarrow>
    \<exists>p'. run_jobs (length ts) job p (wd @ wt) = Inr (ts \<noteq> [], p', wd @ map E wt) \<and> J p' \<and>
      pos_count p' = pos_count p + yes_count P wt \<and>
      neg_count p' = neg_count p + yes_count (\<lambda>e. \<not> P e) wt \<and>
      peer_addr p' = ds @ map_from G (length ds) ts wt"
proof (induction ts arbitrary: p ds wd wt)
  case Nil
  then show ?case by (intro exI [of _ p]) auto
next
  case (Cons t ts)
  from Cons.prems(6) obtain e wt' where wt: "wt = e # wt'" "length wt' = length ts" by (cases wt) auto
  let ?k = "length ds" and ?w = "wd @ wt"
  have at: "peer_addr p ! ?k = t" "?w ! ?k = e" using Cons.prems wt by (simp_all add: nth_append)
  have ok0: "ok ?k t e" using Cons.prems(7) wt(1) by (metis add.right_neutral length_greater_0_conv
        list.discI nth_Cons_0)
  let ?p1 = "bump (P e) (p\<lparr>peer_addr := (peer_addr p)[?k := G ?k t e]\<rparr>)"
  have addr1: "peer_addr ?p1 = (ds @ [G ?k t e]) @ ts" using Cons.prems(2) by simp
  have w1: "?w[?k := E e] = (wd @ [E e]) @ wt'" using Cons.prems(5) wt by (simp add: list_update_append)
  have "first_unmarked 0 (peer_addr p) = Some ?k"
    using Cons.prems first_unmarked_shift [of ds t 0 ts] by simp
  from slot_jobD [OF job Cons.prems(1) _ _ this ok0 at refl] Cons.prems(2,5) wt
  have run1: "job p ?w = Inr (0, broadcasts ?p1, ?p1, ?w[?k := E e])" and J1: "J ?p1"
    by simp_all
  have marks: "\<forall>a \<in> set (ds @ [G ?k t e]). marked a" using job Cons.prems(3) by (auto simp: slot_job_def)
  have oks: "\<forall>i < length ts. ok (length (ds @ [G ?k t e]) + i) (ts ! i) (wt' ! i)"
    using Cons.prems(7) wt by (simp add: All_less_Suc2)
  have cnt: "pos_count ?p1 + neg_count ?p1 = int (length (ds @ [G ?k t e]))" using Cons.prems(8) by simp
  from Cons.IH [OF J1 addr1 marks _ _ wt(2) oks cnt, of "wd @ [E e]"] Cons.prems(4,5) obtain p' where
    p': "run_jobs (length ts) job ?p1 ((wd @ [E e]) @ wt') = Inr (ts \<noteq> [], p', (wd @ [E e]) @ map E wt')"
      "J p'" "pos_count p' = pos_count ?p1 + yes_count P wt'"
      "neg_count p' = neg_count ?p1 + yes_count (\<lambda>e. \<not> P e) wt'"
      "peer_addr p' = (ds @ [G ?k t e]) @ map_from G (length (ds @ [G ?k t e])) ts wt'"
    by auto
  have "ts = [] \<Longrightarrow> broadcasts ?p1"
    using cnt addr1 by (simp add: broadcasts_def NO_OF_PEERS_def)
  then have "run_jobs (length (t # ts)) job p ?w = Inr (True, p', wd @ map E wt)"
    using run1 p'(1) wt unfolding w1 by (cases "ts = []") auto
  then show ?case using p' wt by (intro exI [of _ p']) auto
qed

lemma run_slot_jobs_all:
  assumes "slot_job job J ok G P E" and "J p"
    and "peer_addr p = map (marked_update (\<lambda>_. False)) as" and "length w = length as"
    and "\<And>i. i < length as \<Longrightarrow> ok i ((as ! i)\<lparr>marked := False\<rparr>) (w ! i)"
    and "pos_count p = 0" "neg_count p = 0"
  shows "\<exists>p'. phase None job p w = Inr (True, as \<noteq> [], p', map E w) \<and> J p' \<and>
      pos_count p' = yes_count P w \<and> pos_count p' + neg_count p' = NO_OF_PEERS p' \<and>
      length (peer_addr p') = length as \<and>
      (\<forall>i < length as. peer_addr p' ! i = G i ((as ! i)\<lparr>marked := False\<rparr>) (w ! i))"
proof -
  let ?ts = "map (marked_update (\<lambda>_. False)) as"
  have 1: "peer_addr p = [] @ ?ts" "\<forall>a \<in> set []. marked a" "\<forall>a \<in> set ?ts. \<not> marked a"
    "length [] = length []" "length w = length ?ts" using assms(3,4) by auto
  have 2: "\<forall>i < length ?ts. ok (length [] + i) (?ts ! i) (w ! i)" using assms(5) by simp
  have 3: "pos_count p + neg_count p = int (length [])" using assms(6,7) by simp
  from run_slot_jobs [OF assms(1,2) 1 2 3] obtain p' where p':
    "run_jobs (length ?ts) job p w = Inr (?ts \<noteq> [], p', map E w)" "J p'"
    "pos_count p' = yes_count P w" "neg_count p' = yes_count (\<lambda>e. \<not> P e) w"
    "peer_addr p' = map_from G 0 ?ts w"
    using assms(6,7) by auto
  have len: "length (peer_addr p') = length as" using p'(5) assms(4) by simp
  have "yes_count P w + yes_count (\<lambda>e. \<not> P e) w = int (length w)" by (induction w) auto
  then have "pos_count p' + neg_count p' = NO_OF_PEERS p'"
    using p'(3,4) len assms(4) by (simp add: NO_OF_PEERS_def)
  moreover have "phase None job p w = Inr (True, as \<noteq> [], p', map E w)"
    using p'(1) assms(3) by (simp add: phase_def)
  moreover have "\<forall>i < length as. peer_addr p' ! i = G i ((as ! i)\<lparr>marked := False\<rparr>) (w ! i)"
    using assms(4) by (simp add: p'(5) nth_map_from)
  ultimately show ?thesis using p'(2,3) len by blast
qed

text \<open>The jobs of the last phase count nothing.\<close>

lemma run_last_jobs:
  assumes part: "\<And>w k. k < length w \<Longrightarrow> length w = n \<Longrightarrow>
      hang_up wr (sock (sd k)) (send_req wr (sd k) req w) = w[k := E (w ! k)]"
    and fine: "\<And>k. k < n \<Longrightarrow> \<not> sync_fail (sd k)"
  shows "peer_addr p = ds @ ts \<Longrightarrow> \<forall>a \<in> set ds. marked a \<Longrightarrow> \<forall>a \<in> set ts. \<not> marked a \<Longrightarrow>
    length wd = length ds \<Longrightarrow> length wt = length ts \<Longrightarrow> length ds + length ts = n \<Longrightarrow>
    \<forall>i < length ts. peer_port (ts ! i) = sd (length ds + i) \<Longrightarrow>
    \<exists>p'. run_jobs (length ts) (send_last req wr) p (wd @ wt) =
      Inr (False, p', wd @ map_from (\<lambda>_ a e. if dont_reissue a then e else E e) (length ds) ts wt)"
proof (induction ts arbitrary: p ds wd wt)
  case Nil
  then show ?case by (intro exI [of _ p]) auto
next
  case (Cons t ts)
  from Cons.prems(5) obtain e wt' where wt: "wt = e # wt'" "length wt' = length ts" by (cases wt) auto
  let ?k = "length ds" and ?w = "wd @ wt" and ?t = "t\<lparr>marked := True\<rparr>"
  let ?e = "if dont_reissue t then e else E e"
  let ?p1 = "upd_addr ?k (marked_update (\<lambda>_. True)) p"
  have at: "peer_addr p ! ?k = t" "?w ! ?k = e" using Cons.prems wt by (simp_all add: nth_append)
  have addr1: "peer_addr ?p1 = (ds @ [?t]) @ ts" using Cons.prems(1) by (simp add: upd_addr_def)
  have w1: "?w[?k := E e] = (wd @ [E e]) @ wt'" using Cons.prems(4) wt by (simp add: list_update_append)
  have port: "peer_port t = sd ?k" using Cons.prems(7) by (metis add.right_neutral length_greater_0_conv
        list.discI nth_Cons_0)
  have "first_unmarked 0 (peer_addr p) = Some ?k"
    using Cons.prems first_unmarked_shift [of ds t 0 ts] by simp
  moreover have "peer_addr ?p1 ! ?k = ?t" using addr1 by (simp add: nth_append)
  moreover have "hang_up wr (sock (sd ?k)) (send_req wr (sd ?k) req ?w) = (wd @ [E e]) @ wt'"
    using part [of ?k ?w] Cons.prems(4,5,6) at(2) w1 wt by simp
  ultimately have "\<exists>r. send_last req wr p ?w = Inr (r, False, ?p1, (wd @ [?e]) @ wt')"
    using fine [of ?k] Cons.prems(6) port wt(1) by (simp add: send_last_def Let_def)
  then obtain r where run1: "send_last req wr p ?w = Inr (r, False, ?p1, (wd @ [?e]) @ wt')" by blast
  have marks: "\<forall>a \<in> set (ds @ [?t]). marked a" using Cons.prems(2) by auto
  have ports: "\<forall>i < length ts. peer_port (ts ! i) = sd (length (ds @ [?t]) + i)"
    using Cons.prems(7) by (simp add: All_less_Suc2)
  from Cons.IH [OF addr1 marks _ _ wt(2) _ ports, of "wd @ [?e]"] Cons.prems obtain p' where
    "run_jobs (length ts) (send_last req wr) ?p1 ((wd @ [?e]) @ wt') = Inr (False, p', (wd @ [?e]) @
      map_from (\<lambda>_ a e. if dont_reissue a then e else E e) (length (ds @ [?t])) ts wt')"
    by auto
  then show ?case using run1 wt by auto
qed

section \<open>A calm schedule, and what the master does on its own board\<close>

definition calm :: schedule where
  "calm = \<lparr>adds = (\<lambda>_. None), waits_first = (\<lambda>_. True), wakes_up = (\<lambda>_. False)\<rparr>"

text \<open>What the master does to its own board once every peer has committed.\<close>

definition local_write :: "line \<Rightarrow> board_state \<Rightarrow> c_error + bool \<times> board_state" where
  "local_write l st = (case write_descriptor (Some (msg_nmbr l)) (Some (poster l)) (Some (message l)) st of
     (r, st1) \<Rightarrow> if r < 0 then Inr (False, st1)
       else (case read_descriptor (msg_nmbr l) st1 of
           Inl e \<Rightarrow> Inl e
         | Inr (rr, x, st2) \<Rightarrow> Inr (\<not> rr < 0, st2)))"

definition local_replace :: "string \<Rightarrow> line \<Rightarrow> board_state \<Rightarrow> c_error + bool \<times> board_state" where
  "local_replace junk_len l st = (case replace_descriptor junk_len (msg_nmbr l) (poster l) (message l) st of
       Inl e \<Rightarrow> Inl e
     | Inr (r, st1) \<Rightarrow> if r < 0 then Inr (False, st1)
         else (case read_descriptor (msg_nmbr l) st1 of
             Inl e \<Rightarrow> Inl e
           | Inr (rr, x, st2) \<Rightarrow> Inr (rr \<noteq> - 1, st2)))"

definition commit_request :: "bool \<Rightarrow> line \<Rightarrow> string" where
  "commit_request wv l = (if wv then write_request (msg_nmbr l) (message l)
     else replace_request (msg_nmbr l) (message l))"

section \<open>The contract of the network\<close>

text \<open>
  Peer \<open>i\<close> is reached on descriptor \<open>fd i\<close> after \<open>dial\<close>, which admits the master (\<open>admit\<close>). A request
  that \<open>react\<close> answers is answered in time, and the text before the last byte of the answer is what
  \<open>react\<close> says; a last request changes the peer by \<open>part\<close>.
\<close>

locale commit_network =
  fixes wr :: "'e list wire"
    and junk :: string
    and addrs :: "peer_stat_address list"
    and fd :: "nat \<Rightarrow> int"
    and admit :: "'e \<Rightarrow> 'e"
    and react :: "string \<Rightarrow> 'e \<Rightarrow> (string \<times> 'e) option"
    and part :: "string \<Rightarrow> 'e \<Rightarrow> 'e"
  assumes dial_law: "length w = length addrs \<Longrightarrow> k < length addrs \<Longrightarrow>
      dial wr (ip (addrs ! k)) (show_ld (port (addrs ! k))) w = (fd k, w[k := admit (w ! k)])"
    and fd_law: "k < length addrs \<Longrightarrow> \<not> sync_fail (word_of_int (fd k))"
    and react_law: "length w = length addrs \<Longrightarrow> k < length addrs \<Longrightarrow> react req (w ! k) = Some (r, e) \<Longrightarrow>
      get_reply wr junk (word_of_int (fd k)) (send_req wr (word_of_int (fd k)) req w) =
        Inr (recv_nodata, r, w[k := e])"
    and part_law: "length w = length addrs \<Longrightarrow> k < length addrs \<Longrightarrow>
      hang_up wr (sock (word_of_int (fd k))) (send_req wr (word_of_int (fd k)) req w) =
        w[k := part req (w ! k)]"
begin

definition said :: "string \<Rightarrow> 'e \<Rightarrow> string" where
  "said req e = fst (the (react req e))"

definition after :: "string \<Rightarrow> 'e \<Rightarrow> 'e" where
  "after req e = snd (the (react req e))"

definition yes :: "string \<Rightarrow> 'e \<Rightarrow> bool" where
  "yes req e \<longleftrightarrow> said req e = ''positive''"

lemma reactD: "react req e \<noteq> None \<Longrightarrow> react req e = Some (said req e, after req e)"
  by (auto simp: said_def after_def)

lemma precommit_slot:
  assumes "length (precommit_request (poster l)) < ALEN"
  shows "slot_job (send_precommit wr junk) (\<lambda>p. line_a p = l \<and> length (peer_addr p) = length addrs)
    (\<lambda>k a e. ip a = ip (addrs ! k) \<and> port a = port (addrs ! k) \<and>
       react (precommit_request (poster l)) (admit e) \<noteq> None)
    (\<lambda>k a e. a\<lparr>marked := True, peer_port := word_of_int (fd k)\<rparr>)
    (\<lambda>e. yes (precommit_request (poster l)) (admit e))
    (\<lambda>e. after (precommit_request (poster l)) (admit e))"
  unfolding slot_job_def Let_def
proof (intro conjI allI impI; (elim conjE)?)
  fix p :: peer_stat and w :: "'e list" and k
  assume k: "k < length w" "length w = length (peer_addr p)" "first_unmarked 0 (peer_addr p) = Some k"
    and p: "line_a p = l" "length (peer_addr p) = length addrs"
    and a: "ip (peer_addr p ! k) = ip (addrs ! k)" "port (peer_addr p ! k) = port (addrs ! k)"
    and r: "react (precommit_request (poster l)) (admit (w ! k)) \<noteq> None"
  let ?w1 = "w[k := admit (w ! k)]"
  have d: "dial wr (ip (addrs ! k)) (show_ld (port (addrs ! k))) w = (fd k, ?w1)"
    using k p by (intro dial_law) auto
  have "react (precommit_request (poster l)) (?w1 ! k) =
      Some (said (precommit_request (poster l)) (admit (w ! k)), after (precommit_request (poster l)) (admit (w ! k)))"
    using reactD [OF r] k by simp
  from react_law [OF _ _ this] k p
  have g: "get_reply wr junk (word_of_int (fd k)) (send_req wr (word_of_int (fd k)) (precommit_request (poster l)) ?w1) =
      Inr (recv_nodata, said (precommit_request (poster l)) (admit (w ! k)),
        w[k := after (precommit_request (poster l)) (admit (w ! k))])" by simp
  show "send_precommit wr junk p w =
      Inr (0, broadcasts (bump (yes (precommit_request (poster l)) (admit (w ! k)))
            (p\<lparr>peer_addr := (peer_addr p)[k := (peer_addr p ! k)\<lparr>marked := True, peer_port := word_of_int (fd k)\<rparr>]\<rparr>)),
          bump (yes (precommit_request (poster l)) (admit (w ! k)))
            (p\<lparr>peer_addr := (peer_addr p)[k := (peer_addr p ! k)\<lparr>marked := True, peer_port := word_of_int (fd k)\<rparr>]\<rparr>),
          w[k := after (precommit_request (poster l)) (admit (w ! k))])"
    using k p a d g fd_law [of k] assms
    by (simp add: send_precommit_def upd_addr_def Let_def bump_def yes_def)
qed (simp_all)

lemma commit_slot:
  assumes "length (commit_request wv l) < ALEN"
  shows "slot_job (send_commit wr junk)
    (\<lambda>p. line_a p = l \<and> writer p = wv \<and> replacer p = (\<not> wv) \<and> length (peer_addr p) = length addrs)
    (\<lambda>k a e. peer_port a = word_of_int (fd k) \<and> react (commit_request wv l) e \<noteq> None)
    (\<lambda>k a e. a\<lparr>marked := True,
       dont_reissue := dont_reissue a \<or> said (commit_request wv l) e = ''negative_exists''\<rparr>)
    (\<lambda>e. yes (commit_request wv l) e) (\<lambda>e. after (commit_request wv l) e)"
  unfolding slot_job_def Let_def
proof (intro conjI allI impI; (elim conjE)?)
  fix p :: peer_stat and w :: "'e list" and k
  assume k: "k < length w" "length w = length (peer_addr p)" "first_unmarked 0 (peer_addr p) = Some k"
    and p: "line_a p = l" "writer p = wv" "replacer p = (\<not> wv)" "length (peer_addr p) = length addrs"
    and a: "peer_port (peer_addr p ! k) = word_of_int (fd k)"
    and r: "react (commit_request wv l) (w ! k) \<noteq> None"
  let ?q = "commit_request wv l" and ?a = "peer_addr p ! k"
  from react_law [OF _ _ reactD [OF r]] k p
  have g: "get_reply wr junk (word_of_int (fd k)) (send_req wr (word_of_int (fd k)) ?q w) =
      Inr (recv_nodata, said ?q (w ! k), w[k := after ?q (w ! k)])" by simp
  let ?G = "?a\<lparr>marked := True, dont_reissue := dont_reissue ?a \<or> said ?q (w ! k) = ''negative_exists''\<rparr>"
  have sel: "(if writer p then write_request (msg_nmbr l) (message l)
      else replace_request (msg_nmbr l) (message l)) = ?q" using p by (simp add: commit_request_def)
  have same: "?a\<lparr>marked := True, dont_reissue := dont_reissue ?a\<rparr> = ?a\<lparr>marked := True\<rparr>"
    by (cases ?a) simp
  have comm: "broadcasts (p\<lparr>neg_count := i, peer_addr := as\<rparr>) =
      broadcasts (p\<lparr>peer_addr := as, neg_count := i\<rparr>)" for i as
    by (simp add: broadcasts_def NO_OF_PEERS_def)
  show "send_commit wr junk p w =
      Inr (0, broadcasts (bump (yes ?q (w ! k)) (p\<lparr>peer_addr := (peer_addr p)[k := ?G]\<rparr>)),
        bump (yes ?q (w ! k)) (p\<lparr>peer_addr := (peer_addr p)[k := ?G]\<rparr>), w[k := after ?q (w ! k)])"
    using k p a g fd_law [of k] assms sel same comm
    by (auto simp: send_commit_def upd_addr_def Let_def bump_def yes_def recv_nodata_def)
qed (simp_all)

section \<open>The protocol\<close>

text \<open>
  The protocol on the peers' states: a refused precommit is answered by \<open>refused\<close>, a refused commit
  by an abort to every peer but those that said the message exists.
\<close>

definition two_phase ::
  "('e \<Rightarrow> 'e) \<Rightarrow> string \<Rightarrow> string \<Rightarrow> (board_state \<Rightarrow> c_error + bool \<times> board_state) \<Rightarrow>
   board_state \<Rightarrow> 'e list \<Rightarrow> c_error + int \<times> board_state \<times> 'e list" where
  "two_phase refused pre com local st w =
     (let w1 = map (\<lambda>e. after pre (admit e)) w; w2 = map (after com) w1 in
      if \<not> (\<forall>e \<in> set w. yes pre (admit e)) then Inr (- 1, st, map refused w1)
      else if \<not> (\<forall>e \<in> set w1. yes com e)
      then Inr (- 1, st, map (\<lambda>e. if said com e = ''negative_exists'' then after com e
                               else part abort_request (after com e)) w1)
      else (case local st of
          Inl x \<Rightarrow> Inl x
        | Inr (ok, st') \<Rightarrow>
            if ok then Inr (0, st', map (part quit_request) w2)
            else Inr (- 1, st', map (part abort_request) w2)))"

lemma map_from_map: "length as = length bs \<Longrightarrow> (\<And>k a b. a \<in> set as \<Longrightarrow> f k a b = g b) \<Longrightarrow> map_from f k as bs = map g bs"
  by (induction f k as bs rule: map_from.induct) auto

lemma precommit_phase:
  assumes len: "length (precommit_request (poster l)) < ALEN" and n: "length w = length addrs"
    and r: "\<forall>e \<in> set w. react (precommit_request (poster l)) (admit e) \<noteq> None"
  shows "\<exists>c. phase None (send_precommit wr junk) (start_stat addrs l) w =
      Inr (True, addrs \<noteq> [], c, map (\<lambda>e. after (precommit_request (poster l)) (admit e)) w) \<and>
    line_a c = l \<and> pos_count c = yes_count (\<lambda>e. yes (precommit_request (poster l)) (admit e)) w \<and>
    pos_count c + neg_count c = NO_OF_PEERS c \<and> length (peer_addr c) = length addrs \<and>
    (\<forall>i < length addrs. peer_port (peer_addr c ! i) = word_of_int (fd i) \<and>
       dont_reissue (peer_addr c ! i) = dont_reissue (addrs ! i))"
proof -
  have J: "line_a (start_stat addrs l) = l \<and> length (peer_addr (start_stat addrs l)) = length addrs"
    and a: "peer_addr (start_stat addrs l) = map (marked_update (\<lambda>_. False)) addrs"
    and z: "pos_count (start_stat addrs l) = 0" "neg_count (start_stat addrs l) = 0"
    by (simp_all add: start_stat_def)
  from run_slot_jobs_all [OF precommit_slot [OF len] J a n _ z] r n
  obtain c where c: "phase None (send_precommit wr junk) (start_stat addrs l) w =
      Inr (True, addrs \<noteq> [], c, map (\<lambda>e. after (precommit_request (poster l)) (admit e)) w)"
    "line_a c = l \<and> length (peer_addr c) = length addrs"
    "pos_count c = yes_count (\<lambda>e. yes (precommit_request (poster l)) (admit e)) w"
    "pos_count c + neg_count c = NO_OF_PEERS c"
    "\<forall>i < length addrs. peer_addr c ! i =
       (addrs ! i)\<lparr>marked := False\<rparr>\<lparr>marked := True, peer_port := word_of_int (fd i)\<rparr>"
    by fastforce
  then show ?thesis by (intro exI [of _ c]) simp
qed

lemma commit_phase:
  assumes len: "length (commit_request wv l) < ALEN" and n: "length w = length addrs"
    and r: "\<forall>e \<in> set w. react (commit_request wv l) e \<noteq> None"
    and c: "line_a c = l" "length (peer_addr c) = length addrs"
      "\<forall>i < length addrs. peer_port (peer_addr c ! i) = word_of_int (fd i) \<and> \<not> dont_reissue (peer_addr c ! i)"
  shows "\<exists>d. phase None (send_commit wr junk) ((reset_stat c)\<lparr>writer := wv, replacer := \<not> wv\<rparr>) w =
      Inr (True, addrs \<noteq> [], d, map (\<lambda>e. after (commit_request wv l) e) w) \<and>
    pos_count d = yes_count (\<lambda>e. yes (commit_request wv l) e) w \<and>
    pos_count d + neg_count d = NO_OF_PEERS d \<and> length (peer_addr d) = length addrs \<and>
    (\<forall>i < length addrs. peer_port (peer_addr d ! i) = word_of_int (fd i) \<and>
       dont_reissue (peer_addr d ! i) = (said (commit_request wv l) (w ! i) = ''negative_exists''))"
proof -
  let ?q = "commit_request wv l" and ?p = "(reset_stat c)\<lparr>writer := wv, replacer := \<not> wv\<rparr>"
  have J: "line_a ?p = l \<and> writer ?p = wv \<and> replacer ?p = (\<not> wv) \<and> length (peer_addr ?p) = length addrs"
    and a: "peer_addr ?p = map (marked_update (\<lambda>_. False)) (peer_addr c)"
    and z: "pos_count ?p = 0" "neg_count ?p = 0"
    using c by (simp_all add: reset_stat_def)
  have n': "length w = length (peer_addr c)" using n c(2) by simp
  have "peer_port ((peer_addr c ! i)\<lparr>marked := False\<rparr>) = word_of_int (fd i) \<and> react ?q (w ! i) \<noteq> None"
    if "i < length (peer_addr c)" for i using that n c r by simp
  from run_slot_jobs_all [OF commit_slot [OF len] J a n' this z]
  obtain d where d: "phase None (send_commit wr junk) ?p w =
      Inr (True, peer_addr c \<noteq> [], d, map (\<lambda>e. after ?q e) w)"
    "length (peer_addr d) = length (peer_addr c)"
    "pos_count d = yes_count (\<lambda>e. yes ?q e) w" "pos_count d + neg_count d = NO_OF_PEERS d"
    "\<forall>i < length (peer_addr c). peer_addr d ! i =
       (peer_addr c ! i)\<lparr>marked := False\<rparr>\<lparr>marked := True,
         dont_reissue := dont_reissue ((peer_addr c ! i)\<lparr>marked := False\<rparr>) \<or> said ?q (w ! i) = ''negative_exists''\<rparr>"
    by blast
  have "(peer_addr c \<noteq> []) = (addrs \<noteq> [])" using c(2) by (metis length_0_conv)
  with d c(2,3) show ?thesis by (intro exI [of _ d]) simp
qed

lemma finish_phase:
  assumes n: "length u = length addrs" "length (peer_addr d) = length addrs"
    and p: "\<forall>i < length addrs. peer_port (peer_addr d ! i) = word_of_int (fd i) \<and>
      dont_reissue (peer_addr d ! i) = X (u ! i)"
  shows "finish None (send_last req wr) ret d st (map f u) =
    Inr (ret, st, map (\<lambda>e. if X e then f e else part req (f e)) u)"
proof -
  let ?as = "map (marked_update (\<lambda>_. False)) (peer_addr d)" and ?w = "map f u"
  let ?g = "\<lambda>_ a e. if dont_reissue a then e else part req e"
  have h: "hang_up wr (sock (word_of_int (fd k))) (send_req wr (word_of_int (fd k)) req w) = w[k := part req (w ! k)]"
    if "k < length w" "length w = length addrs" for w k
    using that by (intro part_law) auto
  have 1: "peer_addr (reset_stat d) = [] @ ?as" "\<forall>a \<in> set []. marked a" "\<forall>a \<in> set ?as. \<not> marked a"
    "length [] = length []" "length ?w = length ?as" "length [] + length ?as = length addrs"
    using n by (auto simp: reset_stat_def)
  have 2: "\<forall>i < length ?as. peer_port (?as ! i) = word_of_int (fd (length [] + i))" using n p by simp
  from run_last_jobs [OF h fd_law 1 2]
  obtain p' where r: "run_jobs (length ?as) (send_last req wr) (reset_stat d) ?w =
      Inr (False, p', map_from ?g 0 ?as ?w)" by auto
  have "map_from ?g 0 ?as ?w = map (\<lambda>e. if X e then f e else part req (f e)) u"
    using n p by (intro nth_equalityI) (auto simp: nth_map_from)
  with r show ?thesis by (simp add: finish_def phase_def reset_stat_def)
qed

lemma await_calm:
  "pos_count c = yes_count P w \<Longrightarrow> pos_count c + neg_count c = NO_OF_PEERS c \<Longrightarrow>
   length (peer_addr c) = length addrs \<Longrightarrow> length w = length addrs \<Longrightarrow> await False True (addrs \<noteq> []) c = Inr ()"
  by (auto simp: await_def NO_OF_PEERS_def)

text \<open>The three ways the protocol goes.\<close>

lemma two_phase_refused:
  "\<not> (\<forall>e \<in> set w. yes pre (admit e)) \<Longrightarrow>
   two_phase refused pre com local st w = Inr (- 1, st, map refused (map (\<lambda>e. after pre (admit e)) w))"
  by (simp add: two_phase_def Let_def)

lemma two_phase_aborted:
  "\<forall>e \<in> set w. yes pre (admit e) \<Longrightarrow> w1 = map (\<lambda>e. after pre (admit e)) w \<Longrightarrow> \<not> (\<forall>e \<in> set w1. yes com e) \<Longrightarrow>
   two_phase refused pre com local st w =
     Inr (- 1, st, map (\<lambda>e. if said com e = ''negative_exists'' then after com e
                            else part abort_request (after com e)) w1)"
  by (simp add: two_phase_def Let_def)

lemma two_phase_local:
  "\<forall>e \<in> set w. yes pre (admit e) \<Longrightarrow> w1 = map (\<lambda>e. after pre (admit e)) w \<Longrightarrow> \<forall>e \<in> set w1. yes com e \<Longrightarrow>
   two_phase refused pre com local st w =
     (case local st of
        Inl x \<Rightarrow> Inl x
      | Inr (ok, st') \<Rightarrow>
          if ok then Inr (0, st', map (part quit_request) (map (after com) w1))
          else Inr (- 1, st', map (part abort_request) (map (after com) w1)))"
  by (simp add: two_phase_def Let_def split: sum.split prod.split)

lemma all_positive:
  "pos_count c = yes_count P w \<Longrightarrow> length (peer_addr c) = length w \<Longrightarrow>
   (pos_count c = NO_OF_PEERS c) = (\<forall>e \<in> set w. P e)"
  by (simp add: NO_OF_PEERS_def yes_count_all)

lemma finish_all:
  assumes "length w = length addrs" "length (peer_addr d) = length addrs"
    and "\<forall>i < length addrs. peer_port (peer_addr d ! i) = word_of_int (fd i) \<and> \<not> dont_reissue (peer_addr d ! i)"
  shows "finish None (send_last req wr) ret d st w = Inr (ret, st, map (part req) w)"
  using finish_phase [of w d "\<lambda>_. False" req ret st "\<lambda>e. e"] assms by simp

lemmas calm_simps = calm_def

text \<open>
  The commit phase and what follows it, after every peer has accepted the precommit: the same for
  writing and replacing, up to the work on the master's own board.
\<close>

lemma no_exists:
  assumes "\<forall>e \<in> set w. yes q e" "length w = length addrs" "i < length addrs"
  shows "said q (w ! i) \<noteq> ''negative_exists''"
proof -
  have "yes q (w ! i)" using assms by simp
  then show ?thesis by (simp add: yes_def)
qed

theorem sync_write_protocol:
  assumes pre: "length (precommit_request (poster l)) < ALEN"
    and com: "length (write_request (msg_nmbr l) (message l)) < ALEN"
    and n: "length w = length addrs" and dr: "\<forall>i < length addrs. \<not> dont_reissue (addrs ! i)"
    and r1: "\<forall>e \<in> set w. react (precommit_request (poster l)) (admit e) \<noteq> None"
    and r2: "\<forall>e \<in> set w. react (write_request (msg_nmbr l) (message l))
      (after (precommit_request (poster l)) (admit e)) \<noteq> None"
  shows "sync_write wr calm junk addrs l st w =
    two_phase (part quit_request) (precommit_request (poster l)) (write_request (msg_nmbr l) (message l))
      (local_write l) st w"
proof -
  let ?pre = "precommit_request (poster l)" and ?com = "write_request (msg_nmbr l) (message l)"
  let ?w1 = "map (\<lambda>e. after ?pre (admit e)) w"
  have q: "commit_request True l = ?com" by (simp add: commit_request_def)
  obtain c where c: "phase None (send_precommit wr junk) (start_stat addrs l) w = Inr (True, addrs \<noteq> [], c, ?w1)"
    "line_a c = l" "pos_count c = yes_count (\<lambda>e. yes ?pre (admit e)) w"
    "pos_count c + neg_count c = NO_OF_PEERS c" "length (peer_addr c) = length addrs"
    "\<forall>i < length addrs. peer_port (peer_addr c ! i) = word_of_int (fd i) \<and> \<not> dont_reissue (peer_addr c ! i)"
    using precommit_phase [OF pre n r1] dr by auto
  have aw1: "await False True (addrs \<noteq> []) c = Inr ()" using c(3,4,5) n by (rule await_calm)
  have all1: "(pos_count c = NO_OF_PEERS c) = (\<forall>e \<in> set w. yes ?pre (admit e))"
    using c(3,5) n by (intro all_positive) auto
  show ?thesis
  proof (cases "\<forall>e \<in> set w. yes ?pre (admit e)")
    case False
    then have "pos_count c \<noteq> NO_OF_PEERS c" using all1 by blast
    then show ?thesis
      unfolding two_phase_refused [OF False]
      using c(1) aw1 finish_all [of ?w1 c quit_request "- 1" st] n c(5,6)
      by (simp add: sync_write_def calm_def send_quit_def)
  next
    case True
    have n1: "length ?w1 = length addrs" using n by simp
    have r2': "\<forall>e \<in> set ?w1. react (commit_request True l) e \<noteq> None" using r2 q by auto
    obtain d where d: "phase None (send_commit wr junk) ((reset_stat c)\<lparr>writer := True, replacer := False\<rparr>) ?w1 =
        Inr (True, addrs \<noteq> [], d, map (after ?com) ?w1)"
      "pos_count d = yes_count (yes ?com) ?w1" "pos_count d + neg_count d = NO_OF_PEERS d"
      "length (peer_addr d) = length addrs"
      "\<forall>i < length addrs. peer_port (peer_addr d ! i) = word_of_int (fd i) \<and>
         dont_reissue (peer_addr d ! i) = (said ?com (?w1 ! i) = ''negative_exists'')"
      using commit_phase [of True, OF _ n1 r2' c(2,5,6)] com q by auto
    have aw2: "await False True (addrs \<noteq> []) d = Inr ()" using d(2,3,4) n1 by (rule await_calm)
    have all2: "(pos_count d = NO_OF_PEERS d) = (\<forall>e \<in> set ?w1. yes ?com e)"
      using d(2,4) n1 by (intro all_positive) auto
    show ?thesis
    proof (cases "\<forall>e \<in> set ?w1. yes ?com e")
      case False
      then have ne: "pos_count d \<noteq> NO_OF_PEERS d" using all2 by blast
      have eq: "pos_count c = NO_OF_PEERS c" using True all1 by blast
      show ?thesis
        unfolding two_phase_aborted [OF True refl False]
        using c(1) aw1 eq d(1) aw2 ne finish_phase [OF n1 d(4,5), of abort_request "- 1" st "after ?com"]
        by (simp add: sync_write_def calm_def send_del_def)
    next
      case pos: True
      have d': "\<forall>i < length addrs. peer_port (peer_addr d ! i) = word_of_int (fd i) \<and> \<not> dont_reissue (peer_addr d ! i)"
        using d(5) no_exists [OF pos n1] by simp
      have n2: "length (map (after ?com) ?w1) = length addrs" using n by simp
      note fin = finish_all [OF n2 d(4) d']
      have eq: "pos_count c = NO_OF_PEERS c" "pos_count d = NO_OF_PEERS d"
        using True pos all1 all2 by blast+
      show ?thesis
        unfolding two_phase_local [OF True refl pos]
        using c(1) aw1 eq d(1) aw2 fin
        by (simp add: sync_write_def calm_def send_del_def send_quit_def local_write_def
            split: prod.split sum.split)
    qed
  qed
qed

theorem sync_replace_protocol:
  assumes pre: "length (precommit_request (poster l)) < ALEN"
    and com: "length (replace_request (msg_nmbr l) (message l)) < ALEN"
    and n: "length w = length addrs" and dr: "\<forall>i < length addrs. \<not> dont_reissue (addrs ! i)"
    and r1: "\<forall>e \<in> set w. react (precommit_request (poster l)) (admit e) \<noteq> None"
    and r2: "\<forall>e \<in> set w. react (replace_request (msg_nmbr l) (message l))
      (after (precommit_request (poster l)) (admit e)) \<noteq> None"
  shows "sync_replace wr calm junk junk_len addrs l st w =
    two_phase (\<lambda>e. e) (precommit_request (poster l)) (replace_request (msg_nmbr l) (message l))
      (local_replace junk_len l) st w"
proof -
  let ?pre = "precommit_request (poster l)" and ?com = "replace_request (msg_nmbr l) (message l)"
  let ?w1 = "map (\<lambda>e. after ?pre (admit e)) w"
  have q: "commit_request False l = ?com" by (simp add: commit_request_def)
  obtain c where c: "phase None (send_precommit wr junk) (start_stat addrs l) w = Inr (True, addrs \<noteq> [], c, ?w1)"
    "line_a c = l" "pos_count c = yes_count (\<lambda>e. yes ?pre (admit e)) w"
    "pos_count c + neg_count c = NO_OF_PEERS c" "length (peer_addr c) = length addrs"
    "\<forall>i < length addrs. peer_port (peer_addr c ! i) = word_of_int (fd i) \<and> \<not> dont_reissue (peer_addr c ! i)"
    using precommit_phase [OF pre n r1] dr by auto
  have aw1: "await False True (addrs \<noteq> []) c = Inr ()" using c(3,4,5) n by (rule await_calm)
  have all1: "(pos_count c = NO_OF_PEERS c) = (\<forall>e \<in> set w. yes ?pre (admit e))"
    using c(3,5) n by (intro all_positive) auto
  show ?thesis
  proof (cases "\<forall>e \<in> set w. yes ?pre (admit e)")
    case False
    then have "pos_count c \<noteq> NO_OF_PEERS c" using all1 by blast
    then show ?thesis
      unfolding two_phase_refused [OF False]
      using c(1) aw1 n c(5)
      by (simp add: sync_replace_def calm_def)
  next
    case True
    have n1: "length ?w1 = length addrs" using n by simp
    have r2': "\<forall>e \<in> set ?w1. react (commit_request False l) e \<noteq> None" using r2 q by auto
    obtain d where d: "phase None (send_commit wr junk) ((reset_stat c)\<lparr>writer := False, replacer := True\<rparr>) ?w1 =
        Inr (True, addrs \<noteq> [], d, map (after ?com) ?w1)"
      "pos_count d = yes_count (yes ?com) ?w1" "pos_count d + neg_count d = NO_OF_PEERS d"
      "length (peer_addr d) = length addrs"
      "\<forall>i < length addrs. peer_port (peer_addr d ! i) = word_of_int (fd i) \<and>
         dont_reissue (peer_addr d ! i) = (said ?com (?w1 ! i) = ''negative_exists'')"
      using commit_phase [of False, OF _ n1 r2' c(2,5,6)] com q by auto
    have aw2: "await False True (addrs \<noteq> []) d = Inr ()" using d(2,3,4) n1 by (rule await_calm)
    have all2: "(pos_count d = NO_OF_PEERS d) = (\<forall>e \<in> set ?w1. yes ?com e)"
      using d(2,4) n1 by (intro all_positive) auto
    show ?thesis
    proof (cases "\<forall>e \<in> set ?w1. yes ?com e")
      case False
      then have ne: "pos_count d \<noteq> NO_OF_PEERS d" using all2 by blast
      have eq: "pos_count c = NO_OF_PEERS c" using True all1 by blast
      show ?thesis
        unfolding two_phase_aborted [OF True refl False]
        using c(1) aw1 eq d(1) aw2 ne finish_phase [OF n1 d(4,5), of abort_request "- 1" st "after ?com"]
        by (simp add: sync_replace_def calm_def send_del_def)
    next
      case pos: True
      have d': "\<forall>i < length addrs. peer_port (peer_addr d ! i) = word_of_int (fd i) \<and> \<not> dont_reissue (peer_addr d ! i)"
        using d(5) no_exists [OF pos n1] by simp
      have n2: "length (map (after ?com) ?w1) = length addrs" using n by simp
      note fin = finish_all [OF n2 d(4) d']
      have eq: "pos_count c = NO_OF_PEERS c" "pos_count d = NO_OF_PEERS d"
        using True pos all1 all2 by blast+
      show ?thesis
        unfolding two_phase_local [OF True refl pos]
        using c(1) aw1 eq d(1) aw2 fin
        by (simp add: sync_replace_def calm_def send_del_def send_quit_def local_replace_def
            split: prod.split sum.split)
    qed
  qed
qed

text \<open>
  The outcome against peers that all accept the precommit, which takes them to \<open>f e\<close>, and answer
  the commit by \<open>ans e\<close>, which takes them to \<open>g e\<close>.
\<close>

lemma two_phase_outcome:
  assumes f: "\<And>e. e \<in> set w \<Longrightarrow> react pre (admit e) = Some (''positive'', f e)"
    and g: "\<And>e. e \<in> set w \<Longrightarrow> react com (f e) = Some (ans e, g e)"
  shows "two_phase refused pre com local st w =
    (if \<forall>e \<in> set w. ans e = ''positive'' then
       (case local st of
          Inl x \<Rightarrow> Inl x
        | Inr (ok, st') \<Rightarrow>
            if ok then Inr (0, st', map (\<lambda>e. part quit_request (g e)) w)
            else Inr (- 1, st', map (\<lambda>e. part abort_request (g e)) w))
     else Inr (- 1, st, map (\<lambda>e. if ans e = ''negative_exists'' then g e else part abort_request (g e)) w))"
proof -
  have w1: "map f w = map (\<lambda>e. after pre (admit e)) w" using f by (auto simp: after_def)
  have all1: "\<forall>e \<in> set w. yes pre (admit e)" using f by (auto simp: yes_def said_def)
  have yes2: "yes com (f e) = (ans e = ''positive'')" "after com (f e) = g e" "said com (f e) = ans e"
    if "e \<in> set w" for e using g [OF that] by (auto simp: yes_def said_def after_def)
  then have all2: "(\<forall>e \<in> set (map f w). yes com e) = (\<forall>e \<in> set w. ans e = ''positive'')" by simp
  show ?thesis
  proof (cases "\<forall>e \<in> set w. ans e = ''positive''")
    case True
    have "map (after com) (map f w) = map g w" using yes2 by simp
    then show ?thesis
      unfolding two_phase_local [OF all1 w1 all2 [THEN iffD2, OF True]]
      using True by (simp add: comp_def split: sum.split prod.split)
  next
    case False
    then have no: "\<not> (\<forall>e \<in> set (map f w). yes com e)" using all2 by blast
    have m: "map (\<lambda>e. if said com e = ''negative_exists'' then after com e else part abort_request (after com e))
        (map f w) = map (\<lambda>e. if ans e = ''negative_exists'' then g e else part abort_request (g e)) w"
      using yes2 by simp
    show ?thesis unfolding two_phase_aborted [OF all1 w1 no] if_not_P [OF False] m ..
  qed
qed

lemma sync_write_outcome:
  assumes "length (precommit_request (poster l)) < ALEN"
    and "length (write_request (msg_nmbr l) (message l)) < ALEN"
    and "length w = length addrs" and "\<forall>i < length addrs. \<not> dont_reissue (addrs ! i)"
    and f: "\<And>e. e \<in> set w \<Longrightarrow> react (precommit_request (poster l)) (admit e) = Some (''positive'', f e)"
    and g: "\<And>e. e \<in> set w \<Longrightarrow> react (write_request (msg_nmbr l) (message l)) (f e) = Some (ans e, g e)"
  shows "sync_write wr calm junk addrs l st w =
    (if \<forall>e \<in> set w. ans e = ''positive'' then
       (case local_write l st of
          Inl x \<Rightarrow> Inl x
        | Inr (ok, st') \<Rightarrow>
            if ok then Inr (0, st', map (\<lambda>e. part quit_request (g e)) w)
            else Inr (- 1, st', map (\<lambda>e. part abort_request (g e)) w))
     else Inr (- 1, st, map (\<lambda>e. if ans e = ''negative_exists'' then g e else part abort_request (g e)) w))"
proof -
  let ?pre = "precommit_request (poster l)" and ?com = "write_request (msg_nmbr l) (message l)"
  have r1: "\<forall>e \<in> set w. react ?pre (admit e) \<noteq> None" using f by auto
  have r2: "\<forall>e \<in> set w. react ?com (after ?pre (admit e)) \<noteq> None" using f g by (auto simp: after_def)
  show ?thesis unfolding sync_write_protocol [OF assms(1-4) r1 r2] by (rule two_phase_outcome [OF f g])
qed

lemma sync_replace_outcome:
  assumes "length (precommit_request (poster l)) < ALEN"
    and "length (replace_request (msg_nmbr l) (message l)) < ALEN"
    and "length w = length addrs" and "\<forall>i < length addrs. \<not> dont_reissue (addrs ! i)"
    and f: "\<And>e. e \<in> set w \<Longrightarrow> react (precommit_request (poster l)) (admit e) = Some (''positive'', f e)"
    and g: "\<And>e. e \<in> set w \<Longrightarrow> react (replace_request (msg_nmbr l) (message l)) (f e) = Some (ans e, g e)"
  shows "sync_replace wr calm junk junk_len addrs l st w =
    (if \<forall>e \<in> set w. ans e = ''positive'' then
       (case local_replace junk_len l st of
          Inl x \<Rightarrow> Inl x
        | Inr (ok, st') \<Rightarrow>
            if ok then Inr (0, st', map (\<lambda>e. part quit_request (g e)) w)
            else Inr (- 1, st', map (\<lambda>e. part abort_request (g e)) w))
     else Inr (- 1, st, map (\<lambda>e. if ans e = ''negative_exists'' then g e else part abort_request (g e)) w))"
proof -
  let ?pre = "precommit_request (poster l)" and ?com = "replace_request (msg_nmbr l) (message l)"
  have r1: "\<forall>e \<in> set w. react ?pre (admit e) \<noteq> None" using f by auto
  have r2: "\<forall>e \<in> set w. react ?com (after ?pre (admit e)) \<noteq> None" using f g by (auto simp: after_def)
  show ?thesis unfolding sync_replace_protocol [OF assms(1-4) r1 r2] by (rule two_phase_outcome [OF f g])
qed

end

end
