(* ===== verification/SyncFailures.thy ===== *)
theory SyncFailures
  imports CommitNetwork
begin

text \<open>
  Runs of \<open>sync_write\<close> and \<open>sync_replace\<close> that do not follow the protocol: without peers the
  protocol is skipped; a peer whose name cannot be resolved is never counted, and a broadcast that
  comes before the wait is lost, so that the master waits forever, unless the wait returns by itself
  (the schedule says whether it does); a peer that does not answer in time makes \<open>send_precommit\<close> write
  before its array.
\<close>

section \<open>No peers\<close>

lemma run_no_jobs: "phase a job (start_stat [] l) w = Inr (True, False, start_stat [] l, w)"
  by (simp add: phase_def start_stat_def split: option.split)

lemma phase_no_peers: "peer_addr p = [] \<Longrightarrow> phase a job p w = Inr (True, False, p, w)"
  by (simp add: phase_def split: option.split)

lemma finish_no_peers: "peer_addr p = [] \<Longrightarrow> finish a job r p st w = Inr (r, st, w)"
  by (simp add: finish_def phase_no_peers reset_stat_def)

lemma write_alone:
  "sync_write wr sch junk [] l st w = (case local_write l st of
     Inl e \<Rightarrow> Inl e | Inr (ok, st') \<Rightarrow> Inr (if ok then 0 else - 1, st', w))"
  by (simp add: sync_write_def run_no_jobs phase_no_peers finish_no_peers await_def NO_OF_PEERS_def
      local_write_def start_stat_def reset_stat_def split: prod.split sum.split)

lemma replace_alone:
  "sync_replace wr sch junk junk_len [] l st w = (case local_replace junk_len l st of
     Inl e \<Rightarrow> Inl e | Inr (ok, st') \<Rightarrow> Inr (if ok then 0 else - 1, st', w))"
  by (simp add: sync_replace_def run_no_jobs phase_no_peers finish_no_peers await_def NO_OF_PEERS_def
      local_replace_def start_stat_def reset_stat_def split: prod.split sum.split)

section \<open>Waiting forever\<close>

lemma first_unmarked_Some:
  "first_unmarked i xs = Some k \<Longrightarrow> i \<le> k \<and> k - i < length xs \<and> \<not> marked (xs ! (k - i))"
proof (induction xs arbitrary: i)
  case (Cons x xs)
  show ?case
  proof (cases "marked x")
    case True
    with Cons have "Suc i \<le> k \<and> k - Suc i < length xs \<and> \<not> marked (xs ! (k - Suc i))" by simp
    moreover from this have "k - i = Suc (k - Suc i)" by arith
    ultimately show ?thesis by simp
  next
    case False
    with Cons.prems show ?thesis by simp
  qed
qed simp

lemma filter_update:
  "k < length xs \<Longrightarrow> \<not> P (xs ! k) \<Longrightarrow>
   length (filter P (xs[k := y])) = length (filter P xs) + of_bool (P y)"
proof -
  assume k: "k < length xs" "\<not> P (xs ! k)"
  then have xs: "xs = take k xs @ xs ! k # drop (Suc k) xs" by (simp add: id_take_nth_drop)
  have "length (filter P xs) = length (filter P (take k xs @ xs ! k # drop (Suc k) xs))"
    by (simp flip: xs)
  with k show ?thesis by (simp add: upd_conv_take_nth_drop)
qed

definition unreachable :: "'p wire \<Rightarrow> peer_stat_address \<Rightarrow> bool" where
  "unreachable wr a \<longleftrightarrow> (\<forall>w. fst (dial wr (ip a) (show_ld (port a)) w) = err_host)"

text \<open>Only peers that could be resolved are counted.\<close>

definition undercounted :: "'p wire \<Rightarrow> peer_stat \<Rightarrow> bool" where
  "undercounted wr p \<longleftrightarrow> 0 \<le> pos_count p \<and> 0 \<le> neg_count p \<and>
     pos_count p + neg_count p \<le> int (length (filter (\<lambda>a. marked a \<and> \<not> unreachable wr a) (peer_addr p))) \<and>
     (\<exists>a \<in> set (peer_addr p). unreachable wr a)"

lemma unreachable_upd [simp]:
  "unreachable wr (a\<lparr>marked := b\<rparr>) = unreachable wr a"
  "unreachable wr (a\<lparr>peer_port := sd\<rparr>) = unreachable wr a"
  by (simp_all add: unreachable_def)

lemma filter_short: "\<exists>x \<in> set xs. \<not> P x \<Longrightarrow> length (filter P xs) < length xs"
  by (induction xs) (auto simp: le_imp_less_Suc)

lemma undercounted_silent: "undercounted wr p \<Longrightarrow> \<not> broadcasts p"
proof -
  assume u: "undercounted wr p"
  then have "\<exists>a \<in> set (peer_addr p). \<not> (marked a \<and> \<not> unreachable wr a)" by (auto simp: undercounted_def)
  from filter_short [OF this] u show ?thesis by (auto simp: undercounted_def broadcasts_def NO_OF_PEERS_def)
qed

lemma has_unreachable_upd:
  "\<exists>a \<in> set xs. unreachable wr a \<Longrightarrow> k < length xs \<Longrightarrow> unreachable wr y = unreachable wr (xs ! k) \<Longrightarrow>
   \<exists>a \<in> set (xs[k := y]). unreachable wr a"
  by (metis in_set_conv_nth length_list_update nth_list_update)

lemma undercounted_upd:
  assumes u: "undercounted wr p" and k: "k < length (peer_addr p)" "\<not> marked (peer_addr p ! k)"
    and y: "marked y" "unreachable wr y = unreachable wr (peer_addr p ! k)"
    and c: "pos_count q + neg_count q = pos_count p + neg_count p + of_bool (\<not> unreachable wr y)"
      "pos_count p \<le> pos_count q" "neg_count p \<le> neg_count q" "peer_addr q = (peer_addr p)[k := y]"
  shows "undercounted wr q"
proof -
  have "length (filter (\<lambda>a. marked a \<and> \<not> unreachable wr a) (peer_addr q)) =
      length (filter (\<lambda>a. marked a \<and> \<not> unreachable wr a) (peer_addr p)) + of_bool (\<not> unreachable wr y)"
    using k y(1) unfolding c(4) by (subst filter_update) auto
  moreover have "\<exists>a \<in> set (peer_addr q). unreachable wr a"
    using u k(1) y(2) unfolding c(4) by (intro has_unreachable_upd) (auto simp: undercounted_def)
  ultimately show ?thesis using u c by (auto simp: undercounted_def)
qed

lemma undercounted_mark:
  assumes u: "undercounted wr p" and k: "k < length (peer_addr p)" "\<not> marked (peer_addr p ! k)"
    and q: "peer_addr q = (peer_addr p)[k := y]" "pos_count q = pos_count p" "neg_count q = neg_count p"
    and y: "marked y" "unreachable wr y = unreachable wr (peer_addr p ! k)"
  shows "undercounted wr q"
proof -
  have "length (filter (\<lambda>a. marked a \<and> \<not> unreachable wr a) (peer_addr p)) \<le>
      length (filter (\<lambda>a. marked a \<and> \<not> unreachable wr a) (peer_addr q))"
    using k unfolding q(1) by (subst filter_update) auto
  moreover have "\<exists>a \<in> set (peer_addr q). unreachable wr a"
    using u k(1) y(2) unfolding q(1) by (intro has_unreachable_upd) (auto simp: undercounted_def)
  ultimately show ?thesis using u q(2,3) by (auto simp: undercounted_def)
qed

lemma precommit_undercounts:
  assumes u: "undercounted wr p" and r: "send_precommit wr junk p w = Inr (x, b, q, w')"
  shows "\<not> b \<and> undercounted wr q"
proof (cases "first_unmarked 0 (peer_addr p)")
  case None
  with u r show ?thesis by (auto simp: send_precommit_def)
next
  case (Some k)
  then have k: "k < length (peer_addr p)" "\<not> marked (peer_addr p ! k)"
    using first_unmarked_Some [OF Some] by auto
  let ?a = "peer_addr p ! k"
  obtain d w1 where d: "dial wr (ip ?a) (show_ld (port ?a)) w = (d, w1)"
    by (cases "dial wr (ip ?a) (show_ld (port ?a)) w")
  define y where "y = ?a\<lparr>marked := True, peer_port := word_of_int d\<rparr>"
  define p2 where "p2 = p\<lparr>peer_addr := (peer_addr p)[k := y]\<rparr>"
  have y: "marked y" "unreachable wr y = unreachable wr ?a" by (simp_all add: y_def)
  have step: "upd_addr k (peer_port_update (\<lambda>_. word_of_int d)) (upd_addr k (marked_update (\<lambda>_. True)) p) = p2"
    using k(1) by (simp add: upd_addr_def p2_def y_def)
  have at: "peer_addr (upd_addr k (marked_update (\<lambda>_. True)) p) ! k = ?a\<lparr>marked := True\<rparr>"
    using k(1) by (simp add: upd_addr_def)
  have u2: "undercounted wr p2"
    by (rule undercounted_mark [OF u k _ _ _ y]) (simp_all add: p2_def)
  show ?thesis
  proof (cases "sync_fail (word_of_int d)")
    case True
    with r Some d step at u2 show ?thesis by (auto simp: send_precommit_def Let_def)
  next
    case False
    then have "d \<noteq> err_host" by (auto simp: sync_fail_def)
    then have reach: "\<not> unreachable wr y" using d by (subst y(2)) (auto simp: unreachable_def intro!: exI [of _ w])
    let ?req = "precommit_request (poster (line_a p))"
    have len: "\<not> ALEN \<le> length ?req"
      using r Some d step at False by (auto simp: send_precommit_def Let_def)
    obtain n bf w2 where g: "get_reply wr junk (word_of_int d) (send_req wr (word_of_int d) ?req w1) = Inr (n, bf, w2)"
    proof (cases "get_reply wr junk (word_of_int d) (send_req wr (word_of_int d) ?req w1)")
      case (Inl e)
      with r Some d step at False len show ?thesis by (simp add: send_precommit_def Let_def)
    next
      case (Inr t)
      with that show ?thesis by (cases t) auto
    qed
    have q: "q = (if bf = ''positive'' then p2\<lparr>pos_count := pos_count p2 + 1\<rparr>
               else p2\<lparr>neg_count := neg_count p2 + 1\<rparr>)" "b = broadcasts q"
      using r Some d step at False len g by (auto simp: send_precommit_def Let_def)
    have "undercounted wr q"
      by (rule undercounted_upd [OF u k y]) (use reach in \<open>simp_all add: q(1) p2_def\<close>)
    then show ?thesis using q(2) undercounted_silent by blast
  qed
qed

lemma run_jobs_undercounts:
  "undercounted wr p \<Longrightarrow> run_jobs k (send_precommit wr junk) p w = Inr (b, q, w') \<Longrightarrow> \<not> b \<and> undercounted wr q"
proof (induction k arbitrary: p w b)
  case (Suc k)
  from Suc.prems(2) obtain x b1 p1 w1 b2 where
    1: "send_precommit wr junk p w = Inr (x, b1, p1, w1)"
      "run_jobs k (send_precommit wr junk) p1 w1 = Inr (b2, q, w')" "b = (b1 \<or> b2)"
    by (auto split: sum.splits prod.splits)
  from precommit_undercounts [OF Suc.prems(1) 1(1)] have "\<not> b1" "undercounted wr p1" by auto
  with Suc.IH [OF this(2) 1(2)] 1(3) show ?case by blast
qed auto

lemma await_blocks: "peer_addr p \<noteq> [] \<Longrightarrow> \<not> (waiting \<and> b) \<Longrightarrow> await False waiting b p = Inl Never_returns"
  by (auto simp: await_def NO_OF_PEERS_def)

lemma start_undercounted:
  "a \<in> set addrs \<Longrightarrow> unreachable wr a \<Longrightarrow> undercounted wr (start_stat addrs l)"
  by (force simp: undercounted_def start_stat_def)

lemma precommit_length:
  "send_precommit wr junk p w = Inr (x, b, q, w') \<Longrightarrow> length (peer_addr q) = length (peer_addr p)"
  by (auto simp: send_precommit_def upd_addr_def Let_def split: option.splits sum.splits prod.splits if_splits)

lemma run_jobs_length:
  "run_jobs k (send_precommit wr junk) p w = Inr (b, q, w') \<Longrightarrow> length (peer_addr q) = length (peer_addr p)"
proof (induction k arbitrary: p w b)
  case (Suc k)
  then show ?case by (fastforce dest: precommit_length split: sum.splits prod.splits)
qed auto

section \<open>Which jobs fail\<close>

text \<open>
  A job either takes the first unmarked peer, whose name and port stay, or finds none. Its only error is
  a reply that is empty or a request that is too long.
\<close>

definition names :: "peer_stat \<Rightarrow> (string \<times> int) list" where
  "names p = map (\<lambda>a. (ip a, port a)) (peer_addr p)"

definition marks :: "peer_stat \<Rightarrow> nat" where
  "marks p = length (filter marked (peer_addr p))"




lemma precommit_names:
  "send_precommit wr junk p w = Inr (x, b, q, w') \<Longrightarrow> names q = names p \<and> line_a q = line_a p"
  by (auto simp: send_precommit_def upd_addr_def Let_def names_def map_update
      split: option.splits sum.splits prod.splits if_splits dest!: first_unmarked_Some
      intro!: list_update_same_conv [THEN iffD2])

text \<open>A peer that takes the connection, or refuses it, and then says nothing before the timeout.\<close>

definition mute :: "'p wire \<Rightarrow> string \<times> int \<Rightarrow> bool" where
  "mute wr peer \<longleftrightarrow> (\<forall>w. let sd = word_of_int (fst (dial wr (fst peer) (show_ld (snd peer)) w)) :: 64 word
     in \<not> sync_fail sd \<and> (\<forall>w2. fst (polls wr (sock sd) w2) = []))"






text \<open>Only peers that are not mute are marked by jobs that do not fail, and every such job marks one.\<close>

definition heard_only :: "'p wire \<Rightarrow> peer_stat \<Rightarrow> bool" where
  "heard_only wr p \<longleftrightarrow> (\<forall>k<length (peer_addr p). map marked (peer_addr p) ! k \<longrightarrow> \<not> mute wr (names p ! k))"




lemma start_heard: "heard_only wr (start_stat addrs l)" "marks (start_stat addrs l) = 0"
  "names (start_stat addrs l) = map (\<lambda>a. (ip a, port a)) addrs"
  by (simp_all add: heard_only_def start_stat_def marks_def names_def comp_def)


text \<open>Peers with which no job fails: their host is not known, or every conversation gets some reply.\<close>

definition talks :: "'p wire \<Rightarrow> string \<Rightarrow> string \<times> int \<Rightarrow> bool" where
  "talks wr junk peer \<longleftrightarrow> (\<forall>w. let d = fst (dial wr (fst peer) (show_ld (snd peer)) w)
     in d = err_host \<or> (\<forall>w2. \<exists>t. get_reply wr junk (word_of_int d) w2 = Inr t))"

lemma precommit_total:
  assumes "\<forall>c \<in> set (names p). talks wr junk c" and "length (precommit_request (poster (line_a p))) < ALEN"
  shows "\<exists>t. send_precommit wr junk p w = Inr t"
proof (cases "first_unmarked 0 (peer_addr p)")
  case None
  then show ?thesis by (simp add: send_precommit_def del: split_paired_Ex)
next
  case (Some k)
  let ?a = "peer_addr p ! k"
  have k: "k < length (peer_addr p)" using first_unmarked_Some [OF Some] by simp
  then have "(ip ?a, port ?a) \<in> set (names p)" by (auto simp: names_def)
  with assms(1) have t: "talks wr junk (ip ?a, port ?a)" by blast
  obtain d w1 where d: "dial wr (ip ?a) (show_ld (port ?a)) w = (d, w1)"
    by (cases "dial wr (ip ?a) (show_ld (port ?a)) w")
  then have "fst (dial wr (ip ?a) (show_ld (port ?a)) w) = d" by simp
  with t have "d = err_host \<or> (\<forall>w2. \<exists>t. get_reply wr junk (word_of_int d) w2 = Inr t)"
    unfolding talks_def fst_conv snd_conv Let_def by metis
  then show ?thesis
  proof
    assume "d = err_host"
    then have "sync_fail (word_of_int d)" by (simp add: sync_fail_def)
    then show ?thesis using Some d k by (simp add: send_precommit_def upd_addr_def Let_def del: split_paired_Ex)
  next
    assume r: "\<forall>w2. \<exists>t. get_reply wr junk (word_of_int d) w2 = Inr t"
    obtain n bf w2 where "get_reply wr junk (word_of_int d)
        (send_req wr (word_of_int d) (precommit_request (poster (line_a p))) w1) = Inr (n, bf, w2)"
      using r by (metis prod_cases3)
    then show ?thesis using Some d k assms(2) by (simp add: send_precommit_def upd_addr_def Let_def del: split_paired_Ex)
  qed
qed

lemma run_jobs_total:
  assumes "\<forall>c \<in> set (names p). talks wr junk c" and "length (precommit_request (poster (line_a p))) < ALEN"
  shows "\<exists>t. run_jobs k (send_precommit wr junk) p w = Inr t"
  using assms
proof (induction k arbitrary: p w)
  case (Suc k)
  from precommit_total [OF Suc.prems] obtain x b p1 w1 where
    1: "send_precommit wr junk p w = Inr (x, b, p1, w1)" by (metis prod_cases4)
  with precommit_names [OF 1] Suc.prems Suc.IH [of p1 w1] show ?case
    by (auto split: sum.split simp del: split_paired_Ex)
qed (simp del: split_paired_Ex)

section \<open>A peer that cannot be resolved\<close>

text \<open>
  Property C33: a peer whose host cannot be resolved blocks every write and every replacement, even when all
  other peers reply: its job leaves without counting, so no job broadcasts, and the master never gets past
  its first wait, unless the wait returns by itself.
\<close>

theorem unresolved_peer_blocks:
  assumes "a \<in> set addrs" and "unreachable wr a" and "\<forall>b \<in> set addrs. talks wr junk (ip b, port b)"
    and "length (precommit_request (poster l)) < ALEN" and "adds sch 0 = None" and "\<not> wakes_up sch 0"
  shows "sync_write wr sch junk addrs l st w = Inl Never_returns \<and>
    sync_replace wr sch junk junk_len addrs l st w = Inl Never_returns"
proof -
  have "\<forall>c \<in> set (names (start_stat addrs l)). talks wr junk c"
    using assms(3) by (simp add: start_heard(3))
  moreover have "line_a (start_stat addrs l) = l" by (simp add: start_stat_def)
  ultimately obtain b c w1 where eq: "run_jobs (length addrs) (send_precommit wr junk) (start_stat addrs l) w = Inr (b, c, w1)"
    using run_jobs_total [of "start_stat addrs l" wr junk "length addrs" w] assms(4) by (metis prod_cases3)
  from run_jobs_undercounts [OF start_undercounted [OF assms(1,2)] eq]
  have u: "\<not> b" "undercounted wr c" by auto
  then have "peer_addr c \<noteq> []" by (auto simp: undercounted_def)
  then have "await False x False c = Inl Never_returns" for x by (simp add: await_blocks)
  moreover have "phase None (send_precommit wr junk) (start_stat addrs l) w = Inr (True, False, c, w1)"
    using eq u(1) by (simp add: phase_def start_stat_def)
  ultimately show ?thesis using assms(5,6) by (simp add: sync_write_def sync_replace_def)
qed

text \<open>A network where the host ``nowhere'' is not known and everyone else agrees, and one where nobody is known.\<close>

definition half_net :: "unit wire" where
  "half_net = \<lparr>dial = (\<lambda>h _ w. (if h = ''nowhere'' then err_host else 5, w)), transmit = (\<lambda>_ _ w. w),
     polls = (\<lambda>_ w. ([Recv_data (''positive'' @ [NL])], w)), hang_up = (\<lambda>_ w. w)\<rparr>"

definition deaf_net :: "unit wire" where
  "deaf_net = \<lparr>dial = (\<lambda>_ _ w. (err_host, w)), transmit = (\<lambda>_ _ w. w), polls = (\<lambda>_ w. ([], w)), hang_up = (\<lambda>_ w. w)\<rparr>"

definition two_peers :: "peer_stat_address list" where
  "two_peers = map (\<lambda>h. \<lparr>port = 10002, ip = h, marked = False, peer_port = 0, dont_reissue = False\<rparr>)
     [''here'', ''nowhere'']"

lemma half_net_talks: "talks half_net junk (h, p)"
proof -
  have "length (''positive'' @ [NL]) \<le> ALEN - 1" by (simp add: ALEN_def)
  then have "recv_loop (ALEN - 1) (NUL # junk) [Recv_data (''positive'' @ [NL])] =
      (recv_nodata, overwrite (''positive'' @ [NL]) (NUL # junk))"
    by (intro recv_loop_one) simp_all
  moreover have "cstr (overwrite (''positive'' @ [NL]) (NUL # junk)) \<noteq> []"
    by (simp add: overwrite_def cstr_def)
  ultimately have "\<exists>t. get_reply half_net junk sd w = Inr t" for sd w
    by (simp add: get_reply_def half_net_def chop_def)
  then show ?thesis by (simp add: talks_def Let_def)
qed

theorem unresolved_peer_blocks_witness:
  "sync_write half_net calm [] two_peers \<lparr>msg_nmbr = ''1'', poster = ''u'', message = ''m''\<rparr> (sample_board []) () =
     Inl Never_returns"
proof -
  have "two_peers ! 1 \<in> set two_peers" "unreachable half_net (two_peers ! 1)" "adds calm 0 = None" "\<not> wakes_up calm 0"
    by (simp_all add: two_peers_def unreachable_def half_net_def calm_def)
  moreover have "length (precommit_request (poster \<lparr>msg_nmbr = ''1'', poster = ''u'', message = ''m''\<rparr>)) < ALEN"
    by (simp add: precommit_request_def ALEN_def)
  ultimately show ?thesis using unresolved_peer_blocks half_net_talks by metis
qed

text \<open>
  The guard of the wait does not look at the replies that were already counted: if all
  peers have answered before the master waits, no broadcast is left to end its wait.
\<close>

lemma late_wait_blocks:
  assumes "addrs \<noteq> []" and "adds sch 0 = None" and "\<not> waits_first sch 0" and "\<not> wakes_up sch 0"
    and "run_jobs (length addrs) (send_precommit wr junk) (start_stat addrs l) w = Inr r"
  shows "sync_write wr sch junk addrs l st w = Inl Never_returns \<and>
    sync_replace wr sch junk junk_len addrs l st w = Inl Never_returns"
proof -
  obtain b c w1 where r: "r = (b, c, w1)" by (cases r)
  with run_jobs_length assms(5) have "length (peer_addr c) = length addrs" by (fastforce simp: start_stat_def)
  with assms(1) have "peer_addr c \<noteq> []" by auto
  then have "await False False b c = Inl Never_returns" by (simp add: await_blocks)
  with r assms show ?thesis
    by (simp add: sync_write_def sync_replace_def phase_def start_stat_def)
qed

section \<open>A peer that does not answer\<close>




end
