(* ===== verification/PeerReceiver.thy ===== *)
theory PeerReceiver
  imports Requests
begin

text \<open>
  \<open>peer_receiver_operations\<close> of \<open>src/peer_operations.cc\<close>: the session of a peer with a master
  server. A request line gives a reply, a new session state, a new board, and whether the loop goes
  on. The arrays \<open>undo_command\<close>, \<open>undo_user\<close>, \<open>undo_nmbr\<close> and \<open>undo_message\<close> start with
  arbitrary contents. The calls of \<open>logger\<close> are left out.
\<close>

section \<open>State\<close>

record peer_session =
  client_user :: string
  undo_command :: string
  undo_user :: string
  undo_nmbr :: string
  undo_message :: string

text \<open>What memory holds that a request uses before writing it.\<close>

record peer_junk =
  j_precommit :: string
  j_commit :: string
  j_repl :: string
  j_msg_len :: string

text \<open>
  What handling a request amounts to: the replies sent, whether the loop goes on, whether the
  socket was shut down and closed.
\<close>

record peer_result =
  replies :: string
  goes_on :: bool
  closed :: bool
  session :: peer_session
  board :: board_state

definition peer_start :: "peer_session \<Rightarrow> peer_session" where
  "peer_start junk = junk\<lparr>client_user := ''nobody''\<rparr>"

abbreviation line_end :: string where "line_end \<equiv> [NL]"

definition answer :: "string \<Rightarrow> bool \<Rightarrow> bool \<Rightarrow> peer_session \<Rightarrow> board_state \<Rightarrow> c_error + peer_result" where
  "answer r on cl se st =
     Inr \<lparr>replies = r, goes_on = on, closed = cl, session = se, board = st\<rparr>"

definition positive :: string where "positive = ''positive'' @ line_end"
definition negative :: string where "negative = ''negative'' @ line_end"
definition negative_exists :: string where "negative_exists = ''negative_exists'' @ line_end"

section \<open>One request\<close>

definition peer_abort :: "peer_junk \<Rightarrow> peer_session \<Rightarrow> board_state \<Rightarrow> c_error + peer_result" where
  "peer_abort junk se st =
     (if undo_command se = ''write'' then
        (case delete_descriptor (j_msg_len junk) (undo_nmbr se) st of
           Inl e \<Rightarrow> Inl e
         | Inr (r, st') \<Rightarrow> answer [] False True se st')
      else if undo_command se = ''replace'' then
        (case replace_descriptor (j_msg_len junk) (undo_nmbr se) (undo_user se) (undo_message se) st of
           Inl e \<Rightarrow> Inl e
         | Inr (r, st') \<Rightarrow> answer [] False True se st')
      else answer [] False True se st)"

definition peer_precommit ::
  "peer_junk \<Rightarrow> string list \<Rightarrow> peer_session \<Rightarrow> board_state \<Rightarrow> c_error + peer_result" where
  "peer_precommit junk command se st =
     (let t = length command in
      if t \<ge> 2 then
        (if t > 2 then
           (let message = append_args (cstr (j_precommit junk)) (tl command)
            in if MAX_LEN \<le> length message then Inl Out_of_bounds
               else answer positive True False (se\<lparr>client_user := message\<rparr>) st)
         else answer positive True False (se\<lparr>client_user := command ! 1\<rparr>) st)
      else answer negative False True se st)"

definition peer_commit_write ::
  "peer_junk \<Rightarrow> string list \<Rightarrow> peer_session \<Rightarrow> board_state \<Rightarrow> c_error + peer_result" where
  "peer_commit_write junk command se st =
     (let tk = length command - 1 in
      if tk > 2 then
        (let message = (if tk > 3 then append_args (cstr (j_commit junk)) (drop 3 command)
                        else command ! 3)
         in if MAX_LEN \<le> length message then Inl Out_of_bounds
            else (case read_descriptor (command ! 2) st of
                Inl e \<Rightarrow> Inl e
              | Inr (read_return, temp_line, st1) \<Rightarrow>
                  if read_return = - 1 then
                    (case write_descriptor (Some (command ! 2)) (Some (client_user se)) (Some message) st1 of
                       (write_return, st2) \<Rightarrow>
                         if write_return = 0
                         then answer positive True False
                           (se\<lparr>undo_command := ''write'', undo_nmbr := command ! 2\<rparr>) st2
                         else answer negative True False se st2)
                  else answer negative_exists False False se st1))
      else answer negative False False se st)"

definition peer_commit_replace ::
  "peer_junk \<Rightarrow> string list \<Rightarrow> peer_session \<Rightarrow> board_state \<Rightarrow> c_error + peer_result" where
  "peer_commit_replace junk command se st =
     (if length command > 2 then
        (let repl_request = strcat_args (drop 2 command);
             repl_tokens = repl_split (j_repl junk) repl_request (length (command ! 1))
         in case repl_message repl_tokens of
              None \<Rightarrow> answer negative False False se st
            | Some message \<Rightarrow>
                (case read_descriptor (repl_tokens ! 0) st of
                   Inl e \<Rightarrow> Inl e
                 | Inr (read_return, temp_line, st1) \<Rightarrow>
                     if read_return = - 1 then answer negative False False se st1
                     else (case read_tokenized_descriptor (repl_tokens ! 0) (undo_user se) (undo_message se) st1 of
                         Inl e \<Rightarrow> Inl e
                       | Inr (r, u, m, st2) \<Rightarrow>
                           (case replace_descriptor (j_msg_len junk) (repl_tokens ! 0) (client_user se) message st2 of
                              Inl e \<Rightarrow> Inl e
                            | Inr (r', st3) \<Rightarrow>
                                answer positive True False
                                  (se\<lparr>undo_command := ''replace'', undo_nmbr := repl_tokens ! 0,
                                      undo_user := u, undo_message := m\<rparr>) st3))))
      else answer negative False False se st)"

definition peer_commit ::
  "peer_junk \<Rightarrow> string list \<Rightarrow> peer_session \<Rightarrow> board_state \<Rightarrow> c_error + peer_result" where
  "peer_commit junk command se st =
     (if length command > 1 then
        (if command ! 1 = ''write'' then peer_commit_write junk command se st
         else if command ! 1 = ''replace'' then peer_commit_replace junk command se st
         else answer negative False False se st)
      else answer negative False False se st)"

text \<open>\<open>request\<close> is the C string that \<open>readline\<close> stored.\<close>

definition peer_request ::
  "peer_junk \<Rightarrow> string \<Rightarrow> peer_session \<Rightarrow> board_state \<Rightarrow> c_error + peer_result" where
  "peer_request junk request se st = (case chop request of
      Inl e \<Rightarrow> Inl e
    | Inr req \<Rightarrow>
        let command = command_tokens req; client_command = tolwr (hd command) in
        if client_command = ''abort'' then peer_abort junk se st
        else if client_command = ''quit'' then answer [] False True se st
        else if client_command = ''precommit'' then peer_precommit junk command se st
        else if client_command = ''commit'' then peer_commit junk command se st
        else answer negative False False se st)"

text \<open>The session: its replies, whether it closed the socket, and what it left behind.\<close>

definition peer_handler ::
  "peer_junk \<Rightarrow> string \<Rightarrow> peer_session \<times> board_state \<times> bool \<Rightarrow>
   c_error + string \<times> bool \<times> (peer_session \<times> board_state \<times> bool)" where
  "peer_handler junk request s = (case s of (se, st, cl) \<Rightarrow>
     (case peer_request junk request se st of
        Inl e \<Rightarrow> Inl e
      | Inr r \<Rightarrow> Inr (replies r, goes_on r, session r, board r, cl \<or> closed r)))"

definition peer_receiver_operations ::
  "peer_junk \<Rightarrow> peer_session \<Rightarrow> string \<Rightarrow> rd list \<Rightarrow> board_state \<Rightarrow>
   c_error + string \<times> (peer_session \<times> board_state \<times> bool)" where
  "peer_receiver_operations junk se buf fd st =
     serve (peer_handler junk) buf fd (peer_start se, st, False)"

lemma answer_simps [simp, session_simps]:
  "answer r on cl se st = Inr x \<longleftrightarrow> x = \<lparr>replies = r, goes_on = on, closed = cl, session = se, board = st\<rparr>"
  "answer r on cl se st \<noteq> Inl e"
  by (auto simp: answer_def)

section \<open>Requests as a master server sends them\<close>

lemma peer_request_tokens:
  assumes "chop request = Inr req" and "command_tokens req = command"
  shows "peer_request junk request se st =
    (let client_command = map to_lower (hd command) in
        if client_command = ''abort'' then peer_abort junk se st
        else if client_command = ''quit'' then answer [] False True se st
        else if client_command = ''precommit'' then peer_precommit junk command se st
        else if client_command = ''commit'' then peer_commit junk command se st
        else answer negative False False se st)"
  by (simp add: peer_request_def assms Let_def)

lemma to_lower_words [session_simps]:
  "map to_lower ''abort'' = ''abort''" "map to_lower ''quit'' = ''quit''"
  "map to_lower ''precommit'' = ''precommit''" "map to_lower ''commit'' = ''commit''"
  by (simp_all add: to_lower_def)

text \<open>A precommit is always answered positively and sets the poster.\<close>

lemma peer_precommit_words:
  assumes "wordy p ws" and "cstr (j_precommit junk) = []" and "length (words_text ws) < MAX_LEN"
  shows "peer_request junk (precommit_request p) se st =
    answer positive True False (se\<lparr>client_user := words_text ws\<rparr>) st"
proof -
  obtain req where req: "chop (precommit_request p) = Inr req" "command_tokens req = ''precommit'' # ws"
    using precommit_tokens [OF assms(1)] by blast
  obtain w vs where ws: "ws = w # vs"
    using assms(1) by (cases ws) (auto simp: wordy_def words_ok_def)
  have "peer_precommit junk (''precommit'' # ws) se st =
      answer positive True False (se\<lparr>client_user := words_text ws\<rparr>) st"
    using assms(2,3) by (cases vs) (auto simp: peer_precommit_def words_text_args ws Let_def)
  then show ?thesis
    by (subst peer_request_tokens [OF req]) (simp add: to_lower_words [simplified])
qed

lemma peer_write_tokens:
  assumes "word_ok n" and "wordy m ws" and "cstr (j_commit junk) = []"
    and "length (words_text ws) < MAX_LEN"
  shows "peer_request junk (write_request n m) se st =
    (case read_descriptor n st of
         Inl e \<Rightarrow> Inl e
       | Inr (read_return, temp_line, st1) \<Rightarrow>
           if read_return = - 1 then
             (case write_descriptor (Some n) (Some (client_user se)) (Some (words_text ws)) st1 of
                (write_return, st2) \<Rightarrow>
                  if write_return = 0
                  then answer positive True False (se\<lparr>undo_command := ''write'', undo_nmbr := n\<rparr>) st2
                  else answer negative True False se st2)
           else answer negative_exists False False se st1)"
    (is "_ = ?r")
proof -
  let ?command = "''commit'' # ''write'' # n # ws"
  obtain req where req: "chop (write_request n m) = Inr req" "command_tokens req = ?command"
    using write_tokens [OF assms(1,2)] by blast
  obtain w vs where ws: "ws = w # vs"
    using assms(2) by (cases ws) (auto simp: wordy_def words_ok_def)
  have msg: "(if 3 < length ?command - 1 then append_args (cstr (j_commit junk)) (drop 3 ?command)
      else ?command ! 3) = words_text ws"
    using assms(3) by (cases vs) (auto simp: words_text_args ws)
  have n2: "?command ! 2 = n" by simp
  have "peer_commit_write junk ?command se st = ?r"
    unfolding peer_commit_write_def Let_def msg n2 using assms(4) by (simp add: ws)
  then show ?thesis
    by (subst peer_request_tokens [OF req]) (simp add: to_lower_words [simplified] peer_commit_def)
qed

text \<open>What \<open>read_descriptor\<close> gives on a good board, by what readers see.\<close>

lemma read_descriptor_view:
  assumes "board_inv st"
  shows "read_descriptor n st = (case read_view st n of
      None \<Rightarrow> Inr (- 1, None, st) | Some r \<Rightarrow> Inr (int (length r), Some r, st))"
proof -
  obtain ls where ls: "board_ok st" "has_lines st ls" "wf_board ls" using assms by (rule board_invE)
  show ?thesis
  proof (cases "lookup n ls")
    case None
    then show ?thesis using read_descriptor_board [OF ls(1,2)] read_view_lines [OF ls(1,2)] by simp
  next
    case (Some l)
    then have "wf_line l" using lookup_split [OF Some] ls(3) by (auto simp: wf_board_def)
    then have "length (reply l) < MAX_LEN" by (rule reply_short)
    with Some show ?thesis
      using read_descriptor_board [OF ls(1,2)] read_view_lines [OF ls(1,2)] by simp
  qed
qed

lemma wf_entry_message: "wf_line (line_entry n u m) \<Longrightarrow> length m < MAX_LEN"
  by (simp add: wf_line_def line_entry_def MAX_LEN_def)

text \<open>A commit of a new number posts the line and remembers how to undo it.\<close>

lemma peer_write_posts:
  assumes "word_ok n" and "wordy m ws" and "cstr (j_commit junk) = []"
    and "board_inv st" and "read_view st n = None"
    and "fits_line n (client_user se) (words_text ws)"
  shows "peer_request junk (write_request n m) se st =
    answer positive True False (se\<lparr>undo_command := ''write'', undo_nmbr := n\<rparr>)
      (post_line n (client_user se) (words_text ws) st)"
proof -
  have "length (words_text ws) < MAX_LEN"
    using assms(6) wf_entry_message by (auto simp: fits_line_def)
  then show ?thesis
    by (simp add: peer_write_tokens [OF assms(1-3)] read_descriptor_view [OF assms(4)] assms(5)
        write_descriptor_posts [OF assms(4)])
qed

text \<open>A number that is in use is refused and the board stays as it is.\<close>

lemma peer_write_refuses:
  assumes "word_ok n" and "wordy m ws" and "cstr (j_commit junk) = []"
    and "board_inv st" and "read_view st n \<noteq> None" and "length (words_text ws) < MAX_LEN"
  shows "peer_request junk (write_request n m) se st = answer negative_exists False False se st"
  using assms(5)
  by (auto simp: peer_write_tokens [OF assms(1-3,6)] read_descriptor_view [OF assms(4)])

text \<open>An abort after a committed write erases the line; a quit changes nothing.\<close>

lemma peer_abort_tokens: "peer_request junk abort_request se st = peer_abort junk se st"
  by (subst peer_request_tokens [OF last_request_tokens(1,2)]) (simp add: to_lower_words [simplified])

lemma peer_quit: "peer_request junk quit_request se st = answer [] False True se st"
  by (subst peer_request_tokens [OF last_request_tokens(3,4)]) (simp add: to_lower_words [simplified])

lemma peer_abort_erases:
  assumes "undo_command se = ''write''" and "board_inv st" and "read_view st (undo_nmbr se) \<noteq> None"
  shows "peer_request junk abort_request se st =
    answer [] False True se (erase_msg (undo_nmbr se) st)"
proof -
  obtain r where "delete_descriptor (j_msg_len junk) (undo_nmbr se) st = Inr (r, erase_msg (undo_nmbr se) st)"
    using delete_descriptor_erases [OF assms(2,3)] by blast
  with assms(1) show ?thesis by (simp add: peer_abort_tokens peer_abort_def)
qed

section \<open>Committing a replacement\<close>

text \<open>
  A peer scans \<open>strlen("replace")\<close>, seven, bytes of the text. When the slash after the number is among
  them, is followed by a character other than a blank, and no other slash is, the text is split
  there.
\<close>

lemma repl_split_seven:
  assumes "SLASH \<notin> set n" "NUL \<notin> set (n @ m)" "length n < 6" "6 - length n \<le> length m"
    and "m \<noteq> []" "hd m \<noteq> SP" "SLASH \<notin> set (take (6 - length n) m)"
  shows "repl_split junk (n @ ''/'' @ m) 7 = [n, m]"
proof -
  let ?x = "take (6 - length n) m" and ?y = "drop (6 - length n) m"
  have m: "m = ?x @ ?y" by simp
  have x: "drop_blanks ?x = ?x" "?x \<noteq> []" using assms(3,5,6) by (cases m; cases "6 - length n"; simp)+
  have len: "length (n @ SLASH # ?x) = 7" using assms(3,4) by simp
  have eq: "(n @ ''/'' @ m) @ NUL # junk = (n @ SLASH # ?x) @ (?y @ NUL # junk)" by simp
  have nul: "NUL \<notin> set (n @ SLASH # ?x)" "NUL \<notin> set ?y"
    using assms(2) in_set_takeD [of NUL "6 - length n" m] in_set_dropD [of NUL "6 - length n" m] by auto
  have "repl_split junk (n @ ''/'' @ m) 7 = split_tokens bbline_sep ?y (n @ SLASH # ?x)"
    unfolding repl_split_def eq using bbline_tokenize_spec [OF nul(1), of "?y @ NUL # junk"] nul(2)
    unfolding len by simp
  also have "\<dots> = n # split_tokens bbline_sep ?y ?x"
    using split_tokens_sep [of n bbline_sep SLASH ?y ?x] assms(1) x by (auto simp: bbline_sep_def)
  also have "split_tokens bbline_sep ?y ?x = [m]"
    using assms(7) by (subst split_tokens_nosep) (auto simp: bbline_sep_def)
  finally show ?thesis .
qed

text \<open>A number of six characters or more is never split from the message.\<close>

lemma repl_split_long:
  assumes "SLASH \<notin> set n" "NUL \<notin> set (n @ m)" "6 \<le> length n"
  shows "length (repl_split junk (n @ ''/'' @ m) 7) = 1"
proof (cases "length n = 6")
  case True
  have eq: "(n @ ''/'' @ m) @ NUL # junk = (n @ ''/'') @ (m @ NUL # junk)" by simp
  have "NUL \<notin> set (n @ ''/'')" "length (n @ ''/'') = 7" using assms(2) True by auto
  then have "repl_split junk (n @ ''/'' @ m) 7 = split_tokens bbline_sep m (n @ SLASH # [])"
    unfolding repl_split_def eq using bbline_tokenize_spec [of "n @ ''/''" "m @ NUL # junk"] assms(2) by simp
  also have "\<dots> = [n]"
    using split_tokens_sep [of n bbline_sep SLASH m "[]"] assms(1) by (auto simp: bbline_sep_def)
  finally show ?thesis by simp
next
  case False
  then have len: "length (take 7 n) = 7" using assms(3) by simp
  have eq: "(n @ ''/'' @ m) @ NUL # junk = take 7 n @ (drop 7 n @ ''/'' @ m @ NUL # junk)" by simp
  have "NUL \<notin> set (take 7 n)" using assms(2) by (auto dest: in_set_takeD)
  from bbline_tokenize_spec [OF this] len
  have "repl_split junk (n @ ''/'' @ m) 7 =
      split_tokens bbline_sep (cstr (drop 7 n @ ''/'' @ m @ NUL # junk)) (take 7 n)"
    unfolding repl_split_def eq by simp
  then show ?thesis
    using assms(1) by (subst (asm) split_tokens_nosep) (auto simp: bbline_sep_def dest: in_set_takeD)
qed

text \<open>The line a message was posted as, and what the tokenized read makes of it.\<close>

definition posted :: "board_state \<Rightarrow> string \<Rightarrow> string \<Rightarrow> string \<Rightarrow> bool" where
  "posted st n u m \<longleftrightarrow> fits_line n u m \<and>
     (\<exists>ls. has_lines st ls \<and> lookup n ls = Some (line_entry n u m))"

definition one_more_fd :: "board_state \<Rightarrow> board_state" where
  "one_more_fd st = st\<lparr>open_fds := Suc (open_fds st)\<rparr>"

lemma board_inv_fd: "board_inv st \<Longrightarrow> Suc (open_fds st) < fd_limit st \<Longrightarrow> board_inv (one_more_fd st)"
  by (auto simp: board_inv_def board_ok_def has_lines_def one_more_fd_def)

lemma read_view_fd:
  assumes "board_inv st" and "Suc (open_fds st) < fd_limit st"
  shows "read_view (one_more_fd st) k = read_view st k"
proof -
  obtain ls where ls: "board_ok st" "has_lines st ls" using assms(1) by (rule board_invE)
  moreover have "board_ok (one_more_fd st)" "has_lines (one_more_fd st) ls"
    using ls assms(2) by (auto simp: board_ok_def has_lines_def one_more_fd_def)
  ultimately show ?thesis by (simp add: read_view_lines)
qed

lemma read_tok_loop_positions:
  assumes "lookup n ls = Some l" and "wf_board ls"
  shows "read_tok_loop n um (positions p ls) = read_tok_loop n um [(l, 0)]"
  using assms
  by (induction ls arbitrary: p) (auto simp: wf_board_def wf_line_def hd_line_tokens split: if_splits)

lemma posted_view:
  assumes "board_inv st" "ok_num n" "posted st n u m"
  shows "read_view st n = Some (shown_as u m)"
proof -
  obtain ls where ls: "has_lines st ls" "lookup n ls = Some (line_entry n u m)" "fits_line n u m"
    using assms(3) by (auto simp: posted_def)
  have "board_ok st" using assms(1) by (simp add: board_inv_def)
  then show ?thesis using read_view_lines [OF _ ls(1)] ls(2,3) assms(2) by (simp add: reply_posted)
qed

lemma read_tokenized_posted:
  assumes "board_inv st" "ok_num n" "posted st n u m"
  shows "\<exists>r. read_tokenized_descriptor n ju jm st = Inr (r, drop_blanks u, drop_blanks m, one_more_fd st)"
proof -
  obtain ls where ls: "has_lines st ls" "lookup n ls = Some (line_entry n u m)" and f: "fits_line n u m"
    using assms(3) by (auto simp: posted_def)
  have wf: "wf_board ls" using ls(1) by (simp add: has_lines_def)
  let ?l = "line_entry n u m" and ?ts = "split_tokens bbline_sep [] (drop_blanks m)"
  have fl: "NUL \<notin> set (n @ u @ m)" "SLASH \<notin> set u" "drop_blanks m \<noteq> []" "slash_clean m"
    "length ?l < 1024"
    using f by (auto simp: fits_line_def wf_line_def line_entry_def)
  have tok: "line_tokens ?l = n # drop_blanks u # ?ts"
    using tokens_entry [OF fl(1) ok_num_no_slash [OF assms(2)] fl(2,3)] .
  have j: "join ?ts = drop_blanks m" using join_split_clean [OF slash_clean_drop [OF fl(4)]] .
  have "0 < length ?ts" by simp
  then obtain t ts where ts: "?ts = t # ts" by (cases ?ts) auto
  have loop: "read_tok_loop n (ju, jm) [(?l, 0)] = Some (drop_blanks u, drop_blanks m)"
  proof (cases "ts = []")
    case True
    with ts j tok show ?thesis by simp
  next
    case False
    with ts j tok show ?thesis
      by (simp add: strcat_tokens_2 [unfolded numeral_2_eq_2] strcat_tokens_2 del: strcat_tokens.simps)
  qed
  have len: "length (drop_blanks u) < MAX_LEN" "length (drop_blanks m) < MAX_LEN"
    using fl(5) length_dropWhile_le [of "\<lambda>c. c = SP" u] length_dropWhile_le [of "\<lambda>c. c = SP" m]
    by (simp_all add: line_entry_def MAX_LEN_def)
  have ok: "board_ok st" using assms(1) by (simp add: board_inv_def)
  show ?thesis
    using len ok loop read_tok_loop_positions [OF ls(2) wf, of "(ju, jm)" 0] scan_lines [OF ls(1)]
    by (simp add: read_tokenized_descriptor_def open_board one_more_fd_def)
qed

text \<open>
  The texts a replacement can carry: the number has no slash and at most five characters, the
  message none among the bytes the peer scans, and number, slash and message fill seven bytes.
\<close>

definition repl_fits :: "string \<Rightarrow> string \<Rightarrow> bool" where
  "repl_fits n m \<longleftrightarrow> length n < 6 \<and> 6 - length n \<le> length m \<and> SLASH \<notin> set (take (6 - length n) m)"

lemma peer_replace_tokens:
  assumes "word_ok (n @ ''/'' @ w)" and "\<forall>v \<in> set ws. word_ok v"
  shows "peer_request junk (replace_request n (strcat_args (w # ws))) se st =
    (let repl_tokens = repl_split (j_repl junk) (n @ ''/'' @ strcat_args (w # ws)) 7
     in case repl_message repl_tokens of
              None \<Rightarrow> answer negative False False se st
            | Some message \<Rightarrow>
                (case read_descriptor (repl_tokens ! 0) st of
                   Inl e \<Rightarrow> Inl e
                 | Inr (read_return, temp_line, st1) \<Rightarrow>
                     if read_return = - 1 then answer negative False False se st1
                     else (case read_tokenized_descriptor (repl_tokens ! 0) (undo_user se) (undo_message se) st1 of
                         Inl e \<Rightarrow> Inl e
                       | Inr (r, u, m, st2) \<Rightarrow>
                           (case replace_descriptor (j_msg_len junk) (repl_tokens ! 0) (client_user se) message st2 of
                              Inl e \<Rightarrow> Inl e
                            | Inr (r', st3) \<Rightarrow>
                                answer positive True False
                                  (se\<lparr>undo_command := ''replace'', undo_nmbr := repl_tokens ! 0,
                                      undo_user := u, undo_message := m\<rparr>) st3))))"
    (is "_ = ?r")
proof -
  let ?command = "''commit'' # ''replace'' # (n @ ''/'' @ w) # ws"
  obtain req where req: "chop (replace_request n (strcat_args (w # ws))) = Inr req"
    "command_tokens req = ?command"
    using replace_tokens [OF assms] by blast
  have c: "strcat_args (drop 2 ?command) = n @ ''/'' @ strcat_args (w # ws)" "length (?command ! 1) = 7"
    "2 < length ?command" by simp_all
  have "peer_commit_replace junk ?command se st = ?r"
    unfolding peer_commit_replace_def Let_def c using c(3) by (simp only: if_True)
  then show ?thesis
    by (subst peer_request_tokens [OF req]) (simp add: to_lower_words [simplified] peer_commit_def
        del: strcat_args_simps)
qed

lemma word_slash: "word_ok (n @ ''/'' @ w) \<Longrightarrow> ok_num n \<Longrightarrow> NUL \<notin> set (n @ w)"
  by (auto simp: word_ok_def)

lemma strcat_no_NUL: "NUL \<notin> set w \<Longrightarrow> \<forall>v \<in> set ws. word_ok v \<Longrightarrow> NUL \<notin> set (strcat_args (w # ws))"
  by (induction ws arbitrary: w) (auto simp: word_ok_def)

text \<open>A committed replacement, and what is remembered for its undoing.\<close>

lemma peer_replace_commits:
  assumes wds: "word_ok (n @ ''/'' @ w)" "\<forall>v \<in> set ws. word_ok v" "w \<noteq> []"
    and m: "m = strcat_args (w # ws)" "repl_fits n m"
    and inv: "board_inv st" "ok_num n" "Suc (open_fds st) < fd_limit st"
    and old: "posted st n u0 m0" and new: "fits_line n (client_user se) m"
  shows "peer_request junk (replace_request n m) se st =
    answer positive True False
      (se\<lparr>undo_command := ''replace'', undo_nmbr := n, undo_user := drop_blanks u0, undo_message := drop_blanks m0\<rparr>)
      (bb.replace_msg n (client_user se) m (one_more_fd st))"
proof -
  have nul: "NUL \<notin> set (n @ m)" using word_slash [OF wds(1) inv(2)] strcat_no_NUL [of w ws] wds(2) m(1) by auto
  have "word_ok w"
    using wds(1,3) by (auto simp: word_ok_def)
  then have hd: "m \<noteq> []" "hd m \<noteq> SP" using m(1) by (cases w; auto simp: word_ok_def)+
  have split: "repl_split (j_repl junk) (n @ ''/'' @ m) 7 = [n, m]"
    using m(2) ok_num_no_slash [OF inv(2)] nul hd by (intro repl_split_seven) (auto simp: repl_fits_def)
  have msg: "repl_message [n, m] = Some m" by (simp add: repl_message_def)
  have rd: "read_descriptor n st = Inr (int (length (shown_as u0 m0)), Some (shown_as u0 m0), st)"
    by (simp add: read_descriptor_view [OF inv(1)] posted_view [OF inv(1,2) old])
  obtain r where rt: "read_tokenized_descriptor n (undo_user se) (undo_message se) st =
      Inr (r, drop_blanks u0, drop_blanks m0, one_more_fd st)"
    using read_tokenized_posted [OF inv(1,2) old] by blast
  have "read_view (one_more_fd st) n \<noteq> None"
    using read_view_fd [OF inv(1,3)] posted_view [OF inv(1,2) old] by simp
  from replace_descriptor_replaces [OF board_inv_fd [OF inv(1,3)] this]
  have rep: "replace_descriptor (j_msg_len junk) n (client_user se) m (one_more_fd st) =
      Inr (0, bb.replace_msg n (client_user se) m (one_more_fd st))" .
  show ?thesis
    unfolding m(1) peer_replace_tokens [OF wds(1,2)]
    unfolding m(1) [symmetric] split
    by (simp add: msg rd rt rep)
qed

text \<open>An abort after it takes every reader back to the old message.\<close>

lemma fits_line_drop:
  assumes "fits_line n u m"
  shows "fits_line n (drop_blanks u) (drop_blanks m)"
proof -
  have "length (drop_blanks u) \<le> length u" "length (drop_blanks m) \<le> length m"
    by (rule length_dropWhile_le)+
  then show ?thesis
    using assms slash_clean_drop [of m]
    by (auto simp: fits_line_def wf_line_def line_entry_def dest: set_dropWhileD)
qed

lemma shown_as_drop [simp]: "shown_as (drop_blanks u) (drop_blanks m) = shown_as u m"
  by (simp add: shown_as_def)

lemma peer_abort_restores:
  assumes "undo_command se = ''replace''" "undo_nmbr se = n"
    and "undo_user se = drop_blanks u0" "undo_message se = drop_blanks m0"
    and "board_inv st" "ok_num n" "posted st n u0 m0" "fits_line n u m"
  shows "\<exists>st'. peer_request junk abort_request se (bb.replace_msg n u m st) = answer [] False True se st' \<and>
    board_inv st' \<and> (\<forall>k. ok_num k \<longrightarrow> read_view st' k = read_view st k)"
proof -
  have v: "read_view st n = Some (shown_as (drop_blanks u0) (drop_blanks m0))"
    using posted_view [OF assms(5,6,7)] by simp
  have f: "fits_line n (drop_blanks u0) (drop_blanks m0)"
    using assms(7) fits_line_drop by (simp add: posted_def)
  let ?st1 = "bb.replace_msg n u m st"
  have s1: "board_inv ?st1" "read_view ?st1 n \<noteq> None"
    using bb.inv_replace [OF assms(5,6) _ assms(8)] bb.view_replace [OF assms(5,6) _ assms(8,6)] v by auto
  from replace_descriptor_replaces [OF s1]
  have "peer_request junk abort_request se ?st1 =
      answer [] False True se (bb.replace_msg n (drop_blanks u0) (drop_blanks m0) ?st1)"
    using assms(1-4) by (simp add: peer_abort_tokens peer_abort_def)
  moreover have "board_inv (bb.replace_msg n (drop_blanks u0) (drop_blanks m0) ?st1)"
    using bb.inv_replace [OF s1(1) assms(6) s1(2) f] .
  ultimately show ?thesis using bb.undo_replace [OF assms(5,6,8) f _ v] by blast
qed

section \<open>What a master can rely on\<close>

text \<open>
  Property C15: a peer that commits a replacement shows the new text to its readers and remembers the
  old one: an abort in the same session takes every reader back to what was there before.
\<close>

theorem peer_replace_undone:
  assumes wds: "word_ok (n @ ''/'' @ w)" "\<forall>v \<in> set ws. word_ok v" "w \<noteq> []"
    and m: "m = strcat_args (w # ws)" "repl_fits n m"
    and inv: "board_inv st" "ok_num n" "Suc (open_fds st) < fd_limit st"
    and old: "posted st n u0 m0" and new: "fits_line n (client_user se) m"
  shows "\<exists>se1 st1 st2. peer_request junk (replace_request n m) se st = answer positive True False se1 st1 \<and>
    read_view st1 n = Some (shown_as (client_user se) m) \<and>
    peer_request junk abort_request se1 st1 = answer [] False True se1 st2 \<and>
    (\<forall>k. ok_num k \<longrightarrow> read_view st2 k = read_view st k)"
proof -
  let ?st = "one_more_fd st" and ?se1 = "se\<lparr>undo_command := ''replace'', undo_nmbr := n,
    undo_user := drop_blanks u0, undo_message := drop_blanks m0\<rparr>"
  have inv': "board_inv ?st" using board_inv_fd [OF inv(1,3)] .
  have old': "posted ?st n u0 m0"
    using old by (auto simp: posted_def has_lines_def one_more_fd_def)
  have some: "read_view ?st n \<noteq> None" using posted_view [OF inv' inv(2) old'] by simp
  have "read_view (bb.replace_msg n (client_user se) m ?st) n = Some (shown_as (client_user se) m)"
    using bb.view_replace [OF inv' inv(2) some new inv(2)] by simp
  moreover obtain st2 where "peer_request junk abort_request ?se1 (bb.replace_msg n (client_user se) m ?st) =
      answer [] False True ?se1 st2" "\<forall>k. ok_num k \<longrightarrow> read_view st2 k = read_view ?st k"
    using peer_abort_restores [of ?se1 n u0 m0 ?st "client_user se" m junk] inv' inv(2) old' new by auto
  ultimately show ?thesis
    using peer_replace_commits [OF assms, of junk] read_view_fd [OF inv(1,3)] by metis
qed

definition zero_junk :: peer_junk where
  "zero_junk = \<lparr>j_precommit = [], j_commit = [], j_repl = [], j_msg_len = []\<rparr>"

definition blank_session :: peer_session where
  "blank_session = \<lparr>client_user = [], undo_command = [], undo_user = [], undo_nmbr = [], undo_message = []\<rparr>"

lemma sample_posted: "posted (sample_board [''1/bob/hi'']) ''1'' ''bob'' ''hi''"
proof -
  have "lookup ''1'' [''1/bob/hi''] = Some (line_entry ''1'' ''bob'' ''hi'')"
    by (simp add: msg_num_def line_entry_def)
  moreover have "fits_line ''1'' ''bob'' ''hi''"
    by (simp add: fits_line_def wf_line_def line_entry_def)
  ultimately show ?thesis
    unfolding posted_def using sample_has_lines [OF sample_line(1)] by blast
qed

theorem peer_replace_undone_witness:
  "\<exists>se1 st1 st2. peer_request zero_junk (replace_request ''1'' ''hello '') (blank_session\<lparr>client_user := ''eve''\<rparr>)
      (sample_board [''1/bob/hi'']) = answer positive True False se1 st1 \<and>
    read_view st1 ''1'' = Some ''eve/hello '' \<and>
    peer_request zero_junk abort_request se1 st1 = answer [] False True se1 st2 \<and>
    read_view st2 ''1'' = Some ''bob/hi''"
proof -
  let ?se = "blank_session\<lparr>client_user := ''eve''\<rparr>"
  have a: "word_ok (''1'' @ ''/'' @ ''hello'')" "\<forall>v \<in> set []. word_ok v" "''hello'' \<noteq> []"
    "''hello '' = strcat_args [''hello'']" "repl_fits ''1'' ''hello ''"
    "fits_line ''1'' (client_user ?se) ''hello ''"
    by (simp_all add: word_ok_def repl_fits_def fits_line_def wf_line_def line_entry_def)
  have b: "Suc (open_fds (sample_board [''1/bob/hi''])) < fd_limit (sample_board [''1/bob/hi''])"
    by (simp add: sample_board_def)
  have s: "shown_as (client_user ?se) ''hello '' = ''eve/hello ''" by (simp add: shown_as_def)
  show ?thesis
    using peer_replace_undone [OF a(1-5) sample_inv [OF sample_line] ok_num_digits(1) b sample_posted a(6), of zero_junk]
      ok_num_digits(1) sample_line_view unfolding s by metis
qed

text \<open>
  A replacement of a message whose number has six characters or more is refused by
  every peer, whatever its board holds: a peer looks for the slash in the first seven bytes only.
\<close>

theorem peer_refuses_long_number:
  assumes "word_ok (n @ ''/'' @ w)" and "\<forall>v \<in> set ws. word_ok v" and "ok_num n" and "6 \<le> length n"
  shows "peer_request junk (replace_request n (strcat_args (w # ws))) se st = answer negative False False se st"
proof -
  have "NUL \<notin> set (n @ strcat_args (w # ws))"
    using word_slash [OF assms(1,3)] strcat_no_NUL [of w ws] assms(2) by auto
  then have "length (repl_split (j_repl junk) (n @ ''/'' @ strcat_args (w # ws)) 7) = 1"
    using ok_num_no_slash [OF assms(3)] assms(4) by (intro repl_split_long)
  then have "repl_message (repl_split (j_repl junk) (n @ ''/'' @ strcat_args (w # ws)) 7) = None"
    by (simp only: repl_message_def) simp
  then show ?thesis unfolding peer_replace_tokens [OF assms(1,2)] by (simp del: strcat_args_simps)
qed

theorem peer_refuses_long_number_witness:
  "peer_request zero_junk (replace_request ''100000'' ''hello '') blank_session (sample_board [''100000/bob/hi'']) =
    answer negative False False blank_session (sample_board [''100000/bob/hi''])"
proof -
  have "word_ok (''100000'' @ ''/'' @ ''hello'')" "\<forall>v \<in> set []. word_ok v" "ok_num ''100000''"
    "6 \<le> length ''100000''" by (simp_all add: word_ok_def ok_num_def)
  from peer_refuses_long_number [OF this, of zero_junk blank_session "sample_board [''100000/bob/hi'']"]
  show ?thesis by simp
qed

end
