(* ===== verification/Cluster.thy ===== *)
theory Cluster
  imports CommitNetwork PeerReceiver
begin

text \<open>
  The two halves of the commit protocol put together: the master of theory \<open>SyncOps\<close> against peers
  that run \<open>peer_receiver_operations\<close> (theory \<open>PeerReceiver\<close>), over a network that delivers at once
  and in whole lines. The network interprets the contract \<open>commit_network\<close>, and so the protocol is
  atomic: all boards get the message, or every reader of every board sees what it saw before.
\<close>

section \<open>A peer at the other end of a connection\<close>

record endpoint =
  ep_session :: peer_session
  ep_board :: board_state
  ep_in :: string
  ep_out :: string
  ep_live :: bool

definition ep_admit :: "peer_session \<Rightarrow> endpoint \<Rightarrow> endpoint" where
  "ep_admit js e = e\<lparr>ep_session := peer_start js, ep_in := [], ep_out := [], ep_live := True\<rparr>"

text \<open>Bytes arrive; a complete line is handled as one request.\<close>

definition ep_feed :: "peer_junk \<Rightarrow> string \<Rightarrow> endpoint \<Rightarrow> endpoint" where
  "ep_feed pj bs e =
     (let buf = ep_in e @ bs; l = takeWhile (\<lambda>c. c \<noteq> NL) buf in
      if \<not> ep_live e then e
      else if NL \<notin> set buf then e\<lparr>ep_in := buf\<rparr>
      else if MAX_LEN \<le> length l then e\<lparr>ep_in := [], ep_live := False\<rparr>
      else (case peer_request pj (cstr l) (ep_session e) (ep_board e) of
          Inl x \<Rightarrow> e\<lparr>ep_in := [], ep_live := False\<rparr>
        | Inr r \<Rightarrow> e\<lparr>ep_session := session r, ep_board := board r, ep_out := ep_out e @ replies r,
            ep_in := tl (dropWhile (\<lambda>c. c \<noteq> NL) buf), ep_live := goes_on r\<rparr>))"

section \<open>The network\<close>

definition slot :: "int \<Rightarrow> nat" where "slot fd = nat (fd - 3)"
definition fd_of :: "nat \<Rightarrow> int" where "fd_of k = int k + 3"

definition net :: "peer_junk \<Rightarrow> peer_session \<Rightarrow> peer_stat_address list \<Rightarrow> endpoint list wire" where
  "net pj js addrs =
     \<lparr>dial = (\<lambda>host p w.
        case find (\<lambda>k. ip (addrs ! k) = host \<and> show_ld (port (addrs ! k)) = p) [0..<length addrs] of
          None \<Rightarrow> (err_host, w)
        | Some k \<Rightarrow> (fd_of k, w[k := ep_admit js (w ! k)])),
      transmit = (\<lambda>fd bs w. w[slot fd := ep_feed pj bs (w ! slot fd)]),
      polls = (\<lambda>fd w. (if ep_out (w ! slot fd) = [] then [] else [Recv_data (ep_out (w ! slot fd))],
        w[slot fd := (w ! slot fd)\<lparr>ep_out := []\<rparr>])),
      hang_up = (\<lambda>fd w. w[slot fd := (w ! slot fd)\<lparr>ep_live := False\<rparr>])\<rparr>"

definition cut_nl :: "string \<Rightarrow> string" where
  "cut_nl req = (if 0 < length req \<and> last req = NL then butlast req else req)"

definition ep_line :: "peer_junk \<Rightarrow> string \<Rightarrow> endpoint \<Rightarrow> endpoint" where
  "ep_line pj req e = ep_feed pj [NL] (ep_feed pj (cut_nl req) e)"

definition ep_part :: "peer_junk \<Rightarrow> string \<Rightarrow> endpoint \<Rightarrow> endpoint" where
  "ep_part pj req e = (ep_line pj req e)\<lparr>ep_live := False\<rparr>"

text \<open>The answer to a request, when the peer's code gives one.\<close>

definition ep_react :: "peer_junk \<Rightarrow> string \<Rightarrow> endpoint \<Rightarrow> (string \<times> endpoint) option" where
  "ep_react pj req e =
     (let e' = ep_line pj req e; r = ep_out e' in
      if r = [] \<or> ALEN \<le> length r \<or> NUL \<in> set r then None
      else Some (butlast r, e'\<lparr>ep_out := []\<rparr>))"

lemma uint_fd: "k < 2 ^ 31 - 3 \<Longrightarrow> uint (word_of_int (fd_of k) :: 64 word) = fd_of k"
  unfolding uint_word_of_int fd_of_def by (rule mod_pos_pos_trivial) auto

lemma slot_sock: "k < 2 ^ 31 - 3 \<Longrightarrow> slot (sock (word_of_int (fd_of k))) = k"
proof -
  assume k: "k < 2 ^ 31 - 3"
  then have "to_int32 (fd_of k) = fd_of k" unfolding fd_of_def by (intro to_int32_id) auto
  then show ?thesis by (simp add: sock_def uint_fd [OF k]) (simp add: slot_def fd_of_def)
qed

lemma sync_fail_slot: "k < 2 ^ 31 - 3 \<Longrightarrow> \<not> sync_fail (word_of_int (fd_of k))"
proof -
  assume k: "k < 2 ^ 31 - 3"
  have "uint (word_of_int err_host :: 64 word) = 2 ^ 64 - 1"
    unfolding uint_word_of_int err_host_def by simp
  moreover have "fd_of k < 2 ^ 32" using k by (simp add: fd_of_def)
  ultimately have "uint (word_of_int (fd_of k) :: 64 word) \<noteq> uint (word_of_int err_host :: 64 word)"
    unfolding uint_fd [OF k] by simp
  then have "(word_of_int (fd_of k) :: 64 word) \<noteq> word_of_int err_host" by metis
  moreover have "\<not> (word_of_int (fd_of k) :: 64 word) < 0" by (rule word_not_simps(1))
  ultimately show ?thesis unfolding sync_fail_def by blast
qed

lemma send_req_net:
  assumes "k < length w" "k < 2 ^ 31 - 3"
  shows "send_req (net pj js addrs) (word_of_int (fd_of k)) req w = w[k := ep_line pj req (w ! k)]"
  using assms(1) by (simp add: send_req_def net_def slot_sock [OF assms(2)] ep_line_def cut_nl_def Let_def)

lemma find_address:
  assumes "distinct (map (\<lambda>a. (ip a, port a)) addrs)" "k < length addrs"
  shows "find (\<lambda>j. ip (addrs ! j) = ip (addrs ! k) \<and> show_ld (port (addrs ! j)) = show_ld (port (addrs ! k)))
    [0..<length addrs] = Some k"
proof -
  let ?P = "\<lambda>j. ip (addrs ! j) = ip (addrs ! k) \<and> show_ld (port (addrs ! j)) = show_ld (port (addrs ! k))"
  have "\<not> ?P j" if "j < k" for j
  proof
    assume "?P j"
    then have "map (\<lambda>a. (ip a, port a)) addrs ! j = map (\<lambda>a. (ip a, port a)) addrs ! k"
      using that assms(2) show_ld_inj by auto
    then have "j = k" using that assms by (simp only: nth_eq_iff_index_eq length_map)
    with that show False by simp
  qed
  then show ?thesis using assms(2) unfolding find_Some_iff by (intro exI [of _ k]) auto
qed

lemma overwrite_reply:
  "length r < ALEN \<Longrightarrow> overwrite r (NUL # replicate (ALEN - 1) NUL) = r @ replicate (ALEN - length r) NUL"
proof -
  assume "length r < ALEN"
  have "NUL # replicate (ALEN - 1) NUL = replicate ALEN NUL"
    by (simp add: ALEN_def flip: replicate_Suc)
  then show ?thesis unfolding overwrite_def by (simp only: drop_replicate)
qed

lemma net_laws:
  assumes "distinct (map (\<lambda>a. (ip a, port a)) addrs)" and "length addrs < 2 ^ 31 - 3"
  shows "commit_network (net pj js addrs) (replicate (ALEN - 1) NUL) addrs fd_of (ep_admit js)
    (ep_react pj) (ep_part pj)"
proof
  fix w :: "endpoint list" and k
  assume w: "length w = length addrs" and k: "k < length addrs"
  show "dial (net pj js addrs) (ip (addrs ! k)) (show_ld (port (addrs ! k))) w =
      (fd_of k, w[k := ep_admit js (w ! k)])"
    using find_address [OF assms(1) k] by (simp add: net_def)
next
  fix k
  assume "k < length addrs"
  then show "\<not> sync_fail (word_of_int (fd_of k))" using assms(2) by (intro sync_fail_slot) simp
next
  fix w :: "endpoint list" and k req r e
  assume w: "length w = length addrs" and k: "k < length addrs" and react: "ep_react pj req (w ! k) = Some (r, e)"
  have small: "k < 2 ^ 31 - 3" using k assms(2) by linarith
  let ?e = "ep_line pj req (w ! k)" let ?r = "ep_out ?e"
  have r: "?r \<noteq> []" "length ?r < ALEN" "NUL \<notin> set ?r" "r = butlast ?r" "e = ?e\<lparr>ep_out := []\<rparr>"
    using react by (auto simp: ep_react_def Let_def split: if_splits)
  have p: "polls (net pj js addrs) (sock (word_of_int (fd_of k))) (w[k := ?e]) = ([Recv_data ?r], w[k := e])"
    using w k r(1,5) by (simp add: net_def slot_sock [OF small])
  have rl: "recv_loop (ALEN - 1) (NUL # replicate (ALEN - 1) NUL) [Recv_data ?r] =
      (recv_nodata, ?r @ replicate (ALEN - length ?r) NUL)"
    using recv_loop_one [of ?r "ALEN - 1"] r(1,2) overwrite_reply by simp
  have "replicate (ALEN - length ?r) NUL = NUL # replicate (ALEN - length ?r - 1) NUL"
    using r(2) by (simp flip: replicate_Suc)
  then have c: "cstr (?r @ replicate (ALEN - length ?r) NUL) = ?r" using r(3) by (simp add: cstr_append_NUL)
  have "send_req (net pj js addrs) (word_of_int (fd_of k)) req w = w[k := ?e]"
    using w k small by (intro send_req_net) auto
  then show "get_reply (net pj js addrs) (replicate (ALEN - 1) NUL) (word_of_int (fd_of k))
      (send_req (net pj js addrs) (word_of_int (fd_of k)) req w) = Inr (recv_nodata, r, w[k := e])"
    using p rl c r(1,4) by (simp add: get_reply_def chop_def)
next
  fix w :: "endpoint list" and k req
  assume w: "length w = length addrs" and k: "k < length addrs"
  have small: "k < 2 ^ 31 - 3" using k assms(2) by linarith
  have "send_req (net pj js addrs) (word_of_int (fd_of k)) req w = w[k := ep_line pj req (w ! k)]"
    using w k small by (intro send_req_net) auto
  then show "hang_up (net pj js addrs) (sock (word_of_int (fd_of k)))
      (send_req (net pj js addrs) (word_of_int (fd_of k)) req w) = w[k := ep_part pj req (w ! k)]"
    using w k by (simp add: net_def slot_sock [OF small] ep_part_def)
qed

text \<open>
  A table of peers the protocol is defined for: no peer is listed twice, and no \<open>dont_reissue\<close>
  happens to be set. Every table that is not replaced by the empty one is such a table, so the
  contract holds of the network of any table.
\<close>

definition table_ok :: "peer_stat_address list \<Rightarrow> bool" where
  "table_ok addrs \<longleftrightarrow> distinct (map (\<lambda>a. (ip a, port a)) addrs) \<and> length addrs < 2 ^ 31 - 3 \<and>
     (\<forall>a \<in> set addrs. \<not> dont_reissue a)"

definition sound_table :: "peer_stat_address list \<Rightarrow> peer_stat_address list" where
  "sound_table addrs = (if table_ok addrs then addrs else [])"

lemma sound_table_id: "table_ok addrs \<Longrightarrow> sound_table addrs = addrs"
  by (simp add: sound_table_def)

interpretation cn: commit_network "net pj js (sound_table addrs)" "replicate (ALEN - 1) NUL"
  "sound_table addrs" fd_of "ep_admit js" "ep_react pj" "ep_part pj" for pj js addrs
  by (rule net_laws) (simp_all add: sound_table_def table_ok_def)

section \<open>One peer through the protocol\<close>

lemma blanked_set: "c \<in> set (blanked g) \<Longrightarrow> c = SP \<or> (\<exists>v \<in> snd ` set g. c \<in> set v)"
  by (induction g rule: blanked.induct) (auto split: if_splits)

lemma blanked_chars:
  assumes "\<forall>(k, v) \<in> set g. word_ok v" and "c \<in> {NL, NUL}"
  shows "c \<notin> set (blanked g)"
proof
  assume "c \<in> set (blanked g)"
  then have "c = SP \<or> (\<exists>v \<in> snd ` set g. c \<in> set v)" by (rule blanked_set)
  moreover have "c \<noteq> SP" using assms(2) by auto
  ultimately obtain k v where "(k, v) \<in> set g" "c \<in> set v" by auto
  with assms show False by (auto simp: word_ok_def)
qed

lemma wordy_chars:
  assumes "wordy p ws"
  shows "NL \<notin> set p" "NUL \<notin> set p"
proof -
  obtain g where g: "SP # p = blanked g" "\<forall>(k, v) \<in> set g. word_ok v" using assms by (rule wordy_gaps)
  have "set (SP # p) = set (blanked g)" by (simp only: g(1))
  then have "set p \<subseteq> set (blanked g)" by auto
  with blanked_chars [OF g(2)] show "NL \<notin> set p" "NUL \<notin> set p" by auto
qed

lemma ep_line_request:
  assumes "ep_live e" "ep_in e = []" "ep_out e = []" and req: "NL \<notin> set req" "NUL \<notin> set req" "length req < MAX_LEN"
    and "peer_request pj req (ep_session e) (ep_board e) = answer r on cl se st"
  shows "ep_line pj req e = e\<lparr>ep_session := se, ep_board := st, ep_out := r, ep_live := on\<rparr>"
proof -
  have cut: "cut_nl req = req" using req(1) last_in_set by (metis cut_nl_def length_greater_0_conv)
  have tw: "takeWhile (\<lambda>c. c \<noteq> NL) (req @ [NL]) = req" "dropWhile (\<lambda>c. c \<noteq> NL) (req @ [NL]) = [NL]"
    using req(1) by (auto simp: takeWhile_append dropWhile_append takeWhile_eq_all_conv dropWhile_eq_Nil_conv)
  have 1: "ep_feed pj req e = e\<lparr>ep_in := req\<rparr>" using assms(1,2) req(1) by (simp add: ep_feed_def Let_def)
  have "ep_feed pj [NL] (e\<lparr>ep_in := req\<rparr>) =
      e\<lparr>ep_session := se, ep_board := st, ep_out := r, ep_in := [], ep_live := on\<rparr>"
    using assms tw by (simp add: ep_feed_def Let_def answer_def)
  moreover have "e\<lparr>ep_in := []\<rparr> = e" using assms(2) by (cases e) simp
  then have "e\<lparr>ep_session := se, ep_board := st, ep_out := r, ep_in := [], ep_live := on\<rparr> =
      e\<lparr>ep_session := se, ep_board := st, ep_out := r, ep_live := on\<rparr>"
    by (cases e) simp
  ultimately show ?thesis by (simp only: ep_line_def cut 1)
qed

lemma ep_react_request:
  assumes "ep_live e" "ep_in e = []" "ep_out e = []" and req: "NL \<notin> set req" "NUL \<notin> set req" "length req < MAX_LEN"
    and "peer_request pj req (ep_session e) (ep_board e) = answer (s @ [NL]) on cl se st"
    and "length s < ALEN - 1" "NUL \<notin> set s"
  shows "ep_react pj req e = Some (s, e\<lparr>ep_session := se, ep_board := st, ep_live := on\<rparr>)"
proof -
  have "e\<lparr>ep_session := se, ep_board := st, ep_live := on, ep_out := []\<rparr> =
      e\<lparr>ep_session := se, ep_board := st, ep_live := on\<rparr>" using assms(3) by (cases e) simp
  then show ?thesis using ep_line_request [OF assms(1-7)] assms(8,9)
    by (simp add: ep_react_def Let_def ALEN_def)
qed

text \<open>The texts of a write, as the client, the master and the peers see them.\<close>

definition clean_junk :: "peer_junk \<Rightarrow> bool" where
  "clean_junk pj \<longleftrightarrow> cstr (j_precommit pj) = [] \<and> cstr (j_commit pj) = []"

definition name_ok :: "string \<Rightarrow> string list \<Rightarrow> bool" where
  "name_ok u us \<longleftrightarrow> wordy u us \<and> length (words_text us) < MAX_LEN \<and> length (precommit_request u) < ALEN"

definition write_ok :: "string \<Rightarrow> string \<Rightarrow> string list \<Rightarrow> string \<Rightarrow> string list \<Rightarrow> bool" where
  "write_ok n u us m ws \<longleftrightarrow> word_ok n \<and> ok_num n \<and> wordy u us \<and> wordy m ws \<and>
     fits_line n (words_text us) (words_text ws) \<and> fits_line n u m \<and>
     length (precommit_request u) < ALEN \<and> length (write_request n m) < ALEN"

definition ep_ready :: "peer_session \<Rightarrow> string list \<Rightarrow> endpoint \<Rightarrow> endpoint" where
  "ep_ready js us e = (ep_admit js e)\<lparr>ep_session := (peer_start js)\<lparr>client_user := words_text us\<rparr>\<rparr>"

definition ep_posted :: "peer_session \<Rightarrow> string \<Rightarrow> string list \<Rightarrow> string list \<Rightarrow> endpoint \<Rightarrow> endpoint" where
  "ep_posted js n us ws e = (ep_ready js us e)\<lparr>
     ep_session := (ep_session (ep_ready js us e))\<lparr>undo_command := ''write'', undo_nmbr := n\<rparr>,
     ep_board := post_line n (words_text us) (words_text ws) (ep_board e)\<rparr>"

lemma ep_ready_simps [simp]:
  "ep_live (ep_ready js us e)" "ep_in (ep_ready js us e) = []" "ep_out (ep_ready js us e) = []"
  "ep_board (ep_ready js us e) = ep_board e" "client_user (ep_session (ep_ready js us e)) = words_text us"
  "ep_live (ep_posted js n us ws e)" "ep_in (ep_posted js n us ws e) = []" "ep_out (ep_posted js n us ws e) = []"
  "ep_board (ep_posted js n us ws e) = post_line n (words_text us) (words_text ws) (ep_board e)"
  "undo_command (ep_session (ep_posted js n us ws e)) = ''write''"
  "undo_nmbr (ep_session (ep_posted js n us ws e)) = n"
  by (simp_all add: ep_ready_def ep_posted_def ep_admit_def)

lemma fits_line_lengths:
  "fits_line n u m \<Longrightarrow> length u < MAX_LEN" "fits_line n u m \<Longrightarrow> length m < MAX_LEN"
  by (auto simp: fits_line_def wf_line_def line_entry_def MAX_LEN_def)

lemma ALEN_MAX: "length s < ALEN \<Longrightarrow> length s < MAX_LEN"
  by (simp add: ALEN_def MAX_LEN_def)

lemma write_name_ok: "write_ok n u us m ws \<Longrightarrow> name_ok u us"
  using fits_line_lengths(1) by (auto simp: write_ok_def name_ok_def)

lemma precommit_chars:
  "name_ok u us \<Longrightarrow> NL \<notin> set (precommit_request u)" "name_ok u us \<Longrightarrow> NUL \<notin> set (precommit_request u)"
  using wordy_chars [of u us] by (auto simp: name_ok_def precommit_request_def)

lemma request_chars:
  "write_ok n u us m ws \<Longrightarrow> NL \<notin> set (write_request n m)"
  "write_ok n u us m ws \<Longrightarrow> NUL \<notin> set (write_request n m)"
  using wordy_chars [of m ws] by (auto simp: write_ok_def write_request_def word_ok_def)

lemma react_precommit:
  assumes "name_ok u us" "clean_junk pj"
  shows "ep_react pj (precommit_request u) (ep_admit js e) = Some (''positive'', ep_ready js us e)"
proof -
  have p: "peer_request pj (precommit_request u) (ep_session (ep_admit js e)) (ep_board (ep_admit js e)) =
      answer (''positive'' @ [NL]) True False ((peer_start js)\<lparr>client_user := words_text us\<rparr>) (ep_board e)"
    using assms
    by (subst peer_precommit_words [of u us]) (auto simp: name_ok_def clean_junk_def ep_admit_def positive_def)
  have a: "ep_live (ep_admit js e)" "ep_in (ep_admit js e) = []" "ep_out (ep_admit js e) = []"
    by (simp_all add: ep_admit_def)
  have "length (precommit_request u) < MAX_LEN" using assms(1) ALEN_MAX by (auto simp: name_ok_def)
  from ep_react_request [OF a precommit_chars [OF assms(1)] this p] show ?thesis
    by (simp add: ep_ready_def ep_admit_def ALEN_def)
qed

lemma react_write_fresh:
  assumes "write_ok n u us m ws" "clean_junk pj" "board_inv (ep_board e)" "read_view (ep_board e) n = None"
  shows "ep_react pj (write_request n m) (ep_ready js us e) = Some (''positive'', ep_posted js n us ws e)"
proof -
  let ?s = "(ep_session (ep_ready js us e))\<lparr>undo_command := ''write'', undo_nmbr := n\<rparr>"
  have p: "peer_request pj (write_request n m) (ep_session (ep_ready js us e)) (ep_board (ep_ready js us e)) =
      answer (''positive'' @ [NL]) True False ?s (post_line n (words_text us) (words_text ws) (ep_board e))"
    using assms by (subst peer_write_posts [of n m ws]) (auto simp: write_ok_def clean_junk_def positive_def)
  have "length (write_request n m) < MAX_LEN" using assms(1) ALEN_MAX by (auto simp: write_ok_def)
  from ep_react_request [OF _ _ _ request_chars [OF assms(1)] this p] show ?thesis
    by (simp add: ep_posted_def ALEN_def)
qed

lemma react_write_taken:
  assumes "write_ok n u us m ws" "clean_junk pj" "board_inv (ep_board e)" "read_view (ep_board e) n \<noteq> None"
  shows "ep_react pj (write_request n m) (ep_ready js us e) =
    Some (''negative_exists'', (ep_ready js us e)\<lparr>ep_live := False\<rparr>)"
proof -
  have p: "peer_request pj (write_request n m) (ep_session (ep_ready js us e)) (ep_board (ep_ready js us e)) =
      answer (''negative_exists'' @ [NL]) False False (ep_session (ep_ready js us e)) (ep_board (ep_ready js us e))"
    using assms fits_line_lengths(2)
    by (subst peer_write_refuses [of n m ws]) (auto simp: write_ok_def clean_junk_def negative_exists_def)
  have "length (write_request n m) < MAX_LEN" using assms(1) ALEN_MAX by (auto simp: write_ok_def)
  from ep_react_request [OF _ _ _ request_chars [OF assms(1)] this p] show ?thesis
    by (simp add: ALEN_def)
qed

lemma part_quit: "ep_live e \<Longrightarrow> ep_in e = [] \<Longrightarrow> ep_out e = [] \<Longrightarrow> ep_board (ep_part pj quit_request e) = ep_board e"
  using ep_line_request [OF _ _ _ _ _ _ peer_quit [of pj "ep_session e" "ep_board e"]]
  by (simp add: ep_part_def quit_request_def MAX_LEN_def)

lemma part_abort_write:
  assumes "write_ok n u us m ws" "board_inv (ep_board e)" "read_view (ep_board e) n = None"
  shows "ep_board (ep_part pj abort_request (ep_posted js n us ws e)) =
    erase_msg n (post_line n (words_text us) (words_text ws) (ep_board e))"
proof -
  let ?e = "ep_posted js n us ws e"
  have f: "ok_num n" "fits_line n (words_text us) (words_text ws)" using assms(1) by (auto simp: write_ok_def)
  have "board_inv (ep_board ?e)" "read_view (ep_board ?e) (undo_nmbr (ep_session ?e)) \<noteq> None"
    using bb.inv_post [OF assms(2) f assms(3)] bb.view_post [OF assms(2) f assms(3) f(1)] by auto
  from ep_line_request [OF _ _ _ _ _ _ peer_abort_erases [OF _ this]]
  show ?thesis by (simp add: ep_part_def abort_request_def MAX_LEN_def)
qed

section \<open>Atomicity of writing\<close>

definition quiet :: string where "quiet = replicate (ALEN - 1) NUL"

text \<open>The protocol against these peers, when every peer's board is sound.\<close>

definition after_commit :: "peer_session \<Rightarrow> string \<Rightarrow> string list \<Rightarrow> string list \<Rightarrow> endpoint \<Rightarrow> endpoint" where
  "after_commit js n us ws e = (if read_view (ep_board e) n = None then ep_posted js n us ws e
     else (ep_ready js us e)\<lparr>ep_live := False\<rparr>)"

lemma react_write:
  assumes "write_ok n u us m ws" "clean_junk pj" "board_inv (ep_board e)"
  shows "ep_react pj (write_request n m) (ep_ready js us e) =
    Some (if read_view (ep_board e) n = None then ''positive'' else ''negative_exists'', after_commit js n us ws e)"
  using react_write_fresh [OF assms] react_write_taken [OF assms] by (simp add: after_commit_def)

lemma sync_write_cluster:
  assumes "table_ok addrs" "clean_junk pj" "write_ok n u us m ws" "length w = length addrs"
    and inv: "\<forall>e \<in> set w. board_inv (ep_board e)"
  shows "sync_write (net pj js addrs) calm quiet addrs \<lparr>msg_nmbr = n, poster = u, message = m\<rparr> st w =
    (if \<forall>e \<in> set w. read_view (ep_board e) n = None then
       (case local_write \<lparr>msg_nmbr = n, poster = u, message = m\<rparr> st of
          Inl x \<Rightarrow> Inl x
        | Inr (ok, st') \<Rightarrow>
            if ok then Inr (0, st', map (\<lambda>e. ep_part pj quit_request (ep_posted js n us ws e)) w)
            else Inr (- 1, st', map (\<lambda>e. ep_part pj abort_request (ep_posted js n us ws e)) w))
     else Inr (- 1, st, map (\<lambda>e. if read_view (ep_board e) n = None
            then ep_part pj abort_request (ep_posted js n us ws e)
            else (ep_ready js us e)\<lparr>ep_live := False\<rparr>) w))"
proof -
  let ?l = "\<lparr>msg_nmbr = n, poster = u, message = m\<rparr>"
  have len: "length (precommit_request (poster ?l)) < ALEN"
    "length (write_request (msg_nmbr ?l) (message ?l)) < ALEN"
    using assms(3) by (auto simp: write_ok_def)
  have dr: "\<forall>i < length addrs. \<not> dont_reissue (addrs ! i)" using assms(1) by (simp add: table_ok_def)
  have pre: "ep_react pj (precommit_request (poster ?l)) (ep_admit js e) = Some (''positive'', ep_ready js us e)" for e
    using react_precommit [OF write_name_ok [OF assms(3)] assms(2)] by simp
  have com: "ep_react pj (write_request (msg_nmbr ?l) (message ?l)) (ep_ready js us e) =
      Some (if read_view (ep_board e) n = None then ''positive'' else ''negative_exists'', after_commit js n us ws e)"
    if "e \<in> set w" for e
    using react_write [OF assms(3,2)] inv that by simp
  have ans: "((if read_view (ep_board e) n = None then ''positive'' else ''negative_exists'') = ''positive'') =
      (read_view (ep_board e) n = None)"
    "((if read_view (ep_board e) n = None then ''positive'' else ''negative_exists'') = ''negative_exists'') =
      (read_view (ep_board e) n \<noteq> None)" for e by simp_all
  have out: "sync_write (net pj js addrs) calm (replicate (ALEN - 1) NUL) addrs ?l st w =
    (if \<forall>e \<in> set w. read_view (ep_board e) n = None then
       (case local_write ?l st of
          Inl x \<Rightarrow> Inl x
        | Inr (ok, st') \<Rightarrow>
            if ok then Inr (0, st', map (\<lambda>e. ep_part pj quit_request (after_commit js n us ws e)) w)
            else Inr (- 1, st', map (\<lambda>e. ep_part pj abort_request (after_commit js n us ws e)) w))
     else Inr (- 1, st, map (\<lambda>e. if read_view (ep_board e) n \<noteq> None
            then after_commit js n us ws e else ep_part pj abort_request (after_commit js n us ws e)) w))"
    using cn.sync_write_outcome [of ?l w addrs pj js, unfolded sound_table_id [OF assms(1)],
        OF len assms(4) dr pre com]
    unfolding ans .
  show ?thesis
  proof (cases "\<forall>e \<in> set w. read_view (ep_board e) n = None")
    case True
    have m: "map (\<lambda>e. ep_part pj q (after_commit js n us ws e)) w =
        map (\<lambda>e. ep_part pj q (ep_posted js n us ws e)) w" for q
      using True by (simp add: after_commit_def)
    show ?thesis unfolding quiet_def out if_P [OF True] m ..
  next
    case False
    have m: "map (\<lambda>e. if read_view (ep_board e) n \<noteq> None then after_commit js n us ws e
          else ep_part pj abort_request (after_commit js n us ws e)) w =
        map (\<lambda>e. if read_view (ep_board e) n = None then ep_part pj abort_request (ep_posted js n us ws e)
          else (ep_ready js us e)\<lparr>ep_live := False\<rparr>) w"
      by (simp add: after_commit_def)
    show ?thesis unfolding quiet_def out if_not_P [OF False] m ..
  qed
qed

lemma local_write_posts:
  assumes "board_inv st" "read_view st n = None" "ok_num n" "fits_line n u m"
  shows "local_write \<lparr>msg_nmbr = n, poster = u, message = m\<rparr> st = Inr (True, post_line n u m st)"
proof -
  have "board_inv (post_line n u m st)" "read_view (post_line n u m st) n \<noteq> None"
    using bb.inv_post [OF assms(1,3,4,2)] bb.view_post [OF assms(1,3,4,2,3)] by auto
  then show ?thesis
    by (auto simp: local_write_def write_descriptor_posts [OF assms(1)] read_descriptor_view)
qed

lemma local_replace_posts:
  assumes "board_inv st" "read_view st n \<noteq> None" "ok_num n" "fits_line n u m"
  shows "local_replace junk \<lparr>msg_nmbr = n, poster = u, message = m\<rparr> st = Inr (True, bb.replace_msg n u m st)"
proof -
  have "board_inv (bb.replace_msg n u m st)" "read_view (bb.replace_msg n u m st) n \<noteq> None"
    using bb.inv_replace [OF assms(1,3,2,4)] bb.view_replace [OF assms(1,3,2,4,3)] by auto
  then show ?thesis
    by (auto simp: local_replace_def replace_descriptor_replaces [OF assms(1,2)] read_descriptor_view)
qed

text \<open>What a client of the master may have typed: the default user or a name of words, and words.\<close>

definition typed :: "string \<Rightarrow> string list \<Rightarrow> string \<Rightarrow> string list \<Rightarrow> bool" where
  "typed u us m ws \<longleftrightarrow> (u = words_text us \<or> u = append_args [] us) \<and> m = words_text ws"

lemma typed_shown: "typed u us m ws \<Longrightarrow> shown_as u m = shown_as (words_text us) (words_text ws)"
  by (cases us; cases "tl us") (auto simp: typed_def shown_as_def words_text_def append_args_def)

lemma write_ok_sample: "write_ok ''1'' ''nobody'' [''nobody''] ''hello'' [''hello'']"
  using wordy_word [of "''nobody''"] wordy_word [of "''hello''"]
  by (simp add: write_ok_def word_ok_def ok_num_def fits_line_def words_text_def wf_line_def line_entry_def
      precommit_request_def write_request_def ALEN_def)

text \<open>Three peers on one host.\<close>

definition three_peers :: "peer_stat_address list" where
  "three_peers = map (\<lambda>p. \<lparr>port = p, ip = ''127.0.0.1'', marked = False, peer_port = 0,
     dont_reissue = False\<rparr>) [10001, 10002, 10003]"

definition write_peers :: "endpoint list" where
  "write_peers = replicate 3 \<lparr>ep_session = blank_session, ep_board = sample_board [], ep_in = [], ep_out = [], ep_live = False\<rparr>"

lemma three_peers_ok: "table_ok three_peers"
  by (simp add: table_ok_def three_peers_def)

text \<open>
  Property C1: a write whose number is new everywhere is committed everywhere: the master reports
  success, its board and the board of every peer get the line, and if all boards showed the same
  messages before, they show the same messages after.
\<close>

theorem write_commits_everywhere:
  assumes "table_ok addrs" and "clean_junk pj" and "write_ok n u us m ws" and "typed u us m ws"
    and "length w = length addrs" and "board_inv st"
    and "\<forall>e \<in> set w. board_inv (ep_board e)" and "read_view st n = None"
    and agree: "\<forall>e \<in> set w. \<forall>k. ok_num k \<longrightarrow> read_view (ep_board e) k = read_view st k"
  shows "\<exists>w'. sync_write (net pj js addrs) calm quiet addrs \<lparr>msg_nmbr = n, poster = u, message = m\<rparr> st w =
      Inr (0, post_line n u m st, w') \<and>
    map ep_board w' = map (\<lambda>e. post_line n (words_text us) (words_text ws) (ep_board e)) w \<and>
    (\<forall>e \<in> set w'. \<forall>k. ok_num k \<longrightarrow> read_view (ep_board e) k = read_view (post_line n u m st) k)"
proof -
  have f: "ok_num n" "fits_line n u m" "fits_line n (words_text us) (words_text ws)"
    using assms(3) by (auto simp: write_ok_def)
  have none: "\<forall>e \<in> set w. read_view (ep_board e) n = None" using agree f(1) assms(8) by auto
  let ?w' = "map (\<lambda>e. ep_part pj quit_request (ep_posted js n us ws e)) w"
  have "sync_write (net pj js addrs) calm quiet addrs \<lparr>msg_nmbr = n, poster = u, message = m\<rparr> st w =
      Inr (0, post_line n u m st, ?w')"
    unfolding sync_write_cluster [OF assms(1,2,3,5,7)] if_P [OF none]
    by (simp add: local_write_posts [OF assms(6,8) f(1,2)])
  moreover have boards: "map ep_board ?w' = map (\<lambda>e. post_line n (words_text us) (words_text ws) (ep_board e)) w"
    by (simp add: part_quit)
  moreover have "read_view (post_line n (words_text us) (words_text ws) (ep_board e)) k =
      read_view (post_line n u m st) k" if "e \<in> set w" "ok_num k" for e k
    using that assms(6,7,8) none agree typed_shown [OF assms(4)]
      bb.view_post [OF _ f(1,3), of "ep_board e" k] bb.view_post [OF assms(6) f(1,2) assms(8) that(2)] by simp
  then have "\<forall>e \<in> set ?w'. \<forall>k. ok_num k \<longrightarrow> read_view (ep_board e) k = read_view (post_line n u m st) k"
    by (simp add: part_quit)
  ultimately show ?thesis by blast
qed

theorem write_commits_everywhere_witness:
  "\<exists>w'. sync_write (net zero_junk blank_session three_peers) calm quiet three_peers
      \<lparr>msg_nmbr = ''1'', poster = ''nobody'', message = ''hello''\<rparr> (sample_board []) write_peers =
      Inr (0, post_line ''1'' ''nobody'' ''hello'' (sample_board []), w') \<and>
    map ep_board w' = replicate 3 (post_line ''1'' ''nobody'' ''hello'' (sample_board []))"
proof -
  have "clean_junk zero_junk" "typed ''nobody'' [''nobody''] ''hello'' [''hello'']"
    "length write_peers = length three_peers" "\<forall>e \<in> set write_peers. board_inv (ep_board e)"
    "\<forall>e \<in> set write_peers. \<forall>k. ok_num k \<longrightarrow> read_view (ep_board e) k = read_view (sample_board []) k"
    by (simp_all add: clean_junk_def zero_junk_def typed_def words_text_def write_peers_def three_peers_def sample_empty)
  from write_commits_everywhere [OF three_peers_ok this(1) write_ok_sample this(2,3) sample_empty(1) this(4)
      sample_empty(2) this(5), of blank_session]
  show ?thesis by (auto simp: words_text_def write_peers_def numeral_3_eq_3)
qed

text \<open>
  Property C2: a write whose number some peer already uses is undone everywhere: the master
  reports failure and leaves its board alone, and no reader of any peer's board sees a change,
  although the other peers had already written the line.
\<close>

theorem write_aborts_everywhere:
  assumes "table_ok addrs" and "clean_junk pj" and "write_ok n u us m ws" and "length w = length addrs"
    and inv: "\<forall>e \<in> set w. board_inv (ep_board e)" and some: "\<exists>e \<in> set w. read_view (ep_board e) n \<noteq> None"
  shows "\<exists>w'. sync_write (net pj js addrs) calm quiet addrs \<lparr>msg_nmbr = n, poster = u, message = m\<rparr> st w =
      Inr (- 1, st, w') \<and>
    (\<forall>i < length w. \<forall>k. ok_num k \<longrightarrow> read_view (ep_board (w' ! i)) k = read_view (ep_board (w ! i)) k)"
proof -
  have f: "ok_num n" "fits_line n (words_text us) (words_text ws)" using assms(3) by (auto simp: write_ok_def)
  have no: "\<not> (\<forall>e \<in> set w. read_view (ep_board e) n = None)" using some by simp
  let ?g = "\<lambda>e. if read_view (ep_board e) n = None then ep_part pj abort_request (ep_posted js n us ws e)
      else (ep_ready js us e)\<lparr>ep_live := False\<rparr>"
  have "read_view (ep_board (?g e)) k = read_view (ep_board e) k" if "e \<in> set w" "ok_num k" for e k
    using that inv part_abort_write [OF assms(3), of e pj js] bb.undo_post [OF _ f, of "ep_board e" k] by simp
  moreover have "sync_write (net pj js addrs) calm quiet addrs \<lparr>msg_nmbr = n, poster = u, message = m\<rparr> st w =
      Inr (- 1, st, map ?g w)"
    unfolding sync_write_cluster [OF assms(1-5)] if_not_P [OF no] ..
  ultimately show ?thesis by (intro exI [of _ "map ?g w"]) simp
qed

definition mixed_peers :: "endpoint list" where
  "mixed_peers = write_peers[1 := (write_peers ! 1)\<lparr>ep_board := sample_board [''1/bob/hi'']\<rparr>]"

theorem write_aborts_everywhere_witness:
  "\<exists>w'. sync_write (net zero_junk blank_session three_peers) calm quiet three_peers
      \<lparr>msg_nmbr = ''1'', poster = ''nobody'', message = ''hello''\<rparr> (sample_board []) mixed_peers =
      Inr (- 1, sample_board [], w') \<and> read_view (ep_board (w' ! 0)) ''1'' = None"
proof -
  have b: "wf_board [''1/bob/hi'']" "unique_nums [''1/bob/hi'']"
    by (simp_all add: wf_board_def wf_line_def unique_nums_def)
  have eq: "set mixed_peers = {write_peers ! 0, (write_peers ! 1)\<lparr>ep_board := sample_board [''1/bob/hi'']\<rparr>}"
    by (auto simp: mixed_peers_def write_peers_def numeral_3_eq_3)
  have 1: "clean_junk zero_junk" by (simp add: clean_junk_def zero_junk_def)
  have 2: "length mixed_peers = length three_peers" by (simp add: mixed_peers_def write_peers_def three_peers_def)
  have 3: "\<forall>e \<in> set mixed_peers. board_inv (ep_board e)"
    unfolding eq using sample_inv [OF b] sample_empty(1) by (simp add: write_peers_def)
  have 4: "\<exists>e \<in> set mixed_peers. read_view (ep_board e) ''1'' \<noteq> None"
    unfolding eq by (simp add: sample_view [OF b(1)] msg_num_def)
  obtain w' where w': "sync_write (net zero_junk blank_session three_peers) calm quiet three_peers
      \<lparr>msg_nmbr = ''1'', poster = ''nobody'', message = ''hello''\<rparr> (sample_board []) mixed_peers =
      Inr (- 1, sample_board [], w')"
    "\<forall>i < length mixed_peers. \<forall>k. ok_num k \<longrightarrow>
       read_view (ep_board (w' ! i)) k = read_view (ep_board (mixed_peers ! i)) k"
    using write_aborts_everywhere [OF three_peers_ok 1 write_ok_sample 2 3 4, of blank_session "sample_board []"]
    by blast
  have "0 < length mixed_peers" "ok_num ''1''" "read_view (ep_board (mixed_peers ! 0)) ''1'' = None"
    by (simp_all add: mixed_peers_def write_peers_def ok_num_def sample_empty)
  then have "read_view (ep_board (w' ! 0)) ''1'' = None" using w'(2) by simp
  with w'(1) show ?thesis by blast
qed

end
