(* ===== verification/Service.thy ===== *)
theory Service
  imports ClientSession SyncFailures Cluster
begin

text \<open>
  What a client gets from the server: the replies of \<open>READ\<close>, \<open>WRITE\<close>, \<open>REPLACE\<close> and \<open>USER\<close>, what
  they do to the messages the board shows, and the list of client sockets around a session.
\<close>

section \<open>Facts about numbers and the generator\<close>

lemma show_ld_word: "word_ok (show_ld n)" "0 \<le> n \<Longrightarrow> ok_num (show_ld n)"
proof -
  have d: "\<not> is_digit SP" "\<not> is_digit (CHR ''='')" "\<not> is_digit NUL" "\<not> is_digit NL" "\<not> is_digit SLASH" "\<not> is_digit BS"
    by (simp_all add: is_digit_def)
  show "word_ok (show_ld n)" using d by (auto simp: word_ok_def dest: show_ld_chars)
  show "ok_num (show_ld n)" using d by (auto simp: ok_num_def dest: show_ld_chars)
qed

lemma generate_number_state:
  assumes "board_inv st" "generate_number st = Inr (n, st1)"
  shows "\<exists>tl. st1 = st\<lparr>open_fds := Suc (open_fds st), temp_list := tl\<rparr>"
proof -
  have ok: "board_ok st" using assms(1) by (simp add: board_inv_def)
  then show ?thesis using assms(2) by (auto simp: generate_number_def open_board split: prod.splits if_splits)
qed

lemma generate_number_keeps:
  assumes "board_inv st" "Suc (open_fds st) < fd_limit st" "generate_number st = Inr (n, st1)"
  shows "board_inv st1 \<and> (\<forall>k. read_view st1 k = read_view st k)"
proof -
  obtain tl' where st1: "st1 = st\<lparr>open_fds := Suc (open_fds st), temp_list := tl'\<rparr>"
    using generate_number_state [OF assms(1,3)] by blast
  obtain ls where ls: "board_ok st" "has_lines st ls" "unique_nums ls" using assms(1) by (rule board_invE)
  then have "board_ok st1" "has_lines st1 ls"
    using assms(2) by (auto simp: st1 board_ok_def has_lines_def file_bytes_def)
  with ls show ?thesis unfolding board_inv_def by (auto simp: read_view_lines)
qed

lemma generate_number_unused:
  assumes "board_inv st" "generate_number st = Inr (n, st1)" "n < 2 ^ 31"
  shows "0 < n \<and> read_view st (show_ld n) = None"
proof -
  obtain ls where ls: "board_ok st" "has_lines st ls" using assms(1) by (rule board_invE)
  from generate_number_gt [OF assms(2)] ls(1) have "0 < n" by (simp add: open_board)
  moreover have "lookup (show_ld n) ls = None"
  proof (rule ccontr)
    assume "lookup (show_ld n) ls \<noteq> None"
    then obtain l where "lookup (show_ld n) ls = Some l" by auto
    then obtain xs ys where l: "ls = xs @ l # ys" "msg_num l = show_ld n" using lookup_split by blast
    then have "NUL \<notin> set l" using ls(2) by (simp add: has_lines_def wf_board_def wf_line_def)
    then have "atoi (hd (line_tokens l)) = n"
      using l(2) assms(3) \<open>0 < n\<close> by (simp add: hd_line_tokens atoi_show_ld)
    moreover have "\<exists>p. (l, p) \<in> set (scan st)" using scan_lines [OF ls(2)] l(1) by auto
    ultimately show False using generate_number_gt [OF assms(2)] ls(1) by (fastforce simp: open_board)
  qed
  ultimately show ?thesis using read_view_lines [OF ls] by simp
qed

section \<open>Reading\<close>

lemma word_ok_READ: "word_ok ''READ''" "word_ok ''WRITE''" "word_ok ''REPLACE''" "word_ok ''USER''"
  by (simp_all add: word_ok_def)

text \<open>
  Property C7: the reply to \<open>READ n\<close>, in any capitalisation, is the message the board shows under
  that number, or that it is unknown; nothing else changes.
\<close>

theorem client_read_reply:
  assumes "board_inv (c_board c)" and "word_ok cmd" and "map to_lower cmd = ''read''" and "word_ok n"
  shows "client_request env (typed_line cmd [n]) c =
    Inr (case read_view (c_board c) n of
           Some r \<Rightarrow> respond_long (lines_text [''2.0 MESSAGE '' @ n @ '' '' @ r, ''''])
         | None \<Rightarrow> respond (lines_text [''2.1 UNKNOWN '' @ n @ '' message not found.'', '''']), True, c)"
proof -
  have "map to_lower ''read'' = ''read''" by (simp add: to_lower_def)
  then have "client_request env (typed_line cmd [n]) c = client_read [cmd, n] c"
    using assms by (subst client_typed) (auto simp: assms(3))
  moreover have "c\<lparr>c_board := c_board c\<rparr> = c" by (cases c) simp
  ultimately show ?thesis
    by (simp add: client_read_def read_descriptor_view [OF assms(1)] split: option.split)
qed

definition test_env :: "unit client_env" where
  "test_env = \<lparr>e_wire = deaf_net, e_sched = calm, e_addrs = [], e_reply_junk = [], e_msg_junk = [],
     e_repl_junk = [], e_len_junk = []\<rparr>"

text \<open>The command words in capitals.\<close>

lemma lower_words:
  "map to_lower ''READ'' = ''read''" "map to_lower ''WRITE'' = ''write''"
  "map to_lower ''REPLACE'' = ''replace''" "map to_lower ''USER'' = ''user''"
  by code_simp+

theorem client_read_reply_witness:
  "client_request test_env (typed_line ''READ'' [''1'']) (client_start (sample_board [''1/bob/hi'']) ()) =
    Inr (respond_long (lines_text [''2.0 MESSAGE 1 bob/hi'', '''']), True, client_start (sample_board [''1/bob/hi'']) ())"
  using client_read_reply [of "client_start (sample_board [''1/bob/hi'']) ()" "''READ''" "''1''" test_env]
    sample_inv [OF sample_line] word_ok_READ(1) sample_line_view lower_words(1)
  by (simp add: client_start_def word_ok_def del: list.map)

section \<open>Writing\<close>

lemma new_line_fits: "fits_line n u m \<Longrightarrow> new_line n u m = Inr \<lparr>msg_nmbr = n, poster = u, message = m\<rparr>"
  by (simp add: new_line_def fits_line_def wf_line_def line_entry_def MAX_LEN_def)

lemma client_write_message:
  assumes "words_ok ws" "cstr junk = []"
  shows "(if length (cmd # ws) > 2 then append_args (cstr junk) (tl (cmd # ws)) else (cmd # ws) ! 1) = words_text ws"
    and "length (cmd # ws) \<ge> 2"
  using assms by (cases ws; cases "tl ws"; auto simp: words_ok_def words_text_args)+

text \<open>
  Property C5: on a server without peers a \<open>WRITE\<close> is answered with the new number, the message is
  shown under it to every later reader, and no other message changes.
\<close>

theorem client_write_posts:
  assumes "board_inv (c_board c)" and "Suc (open_fds (c_board c)) < fd_limit (c_board c)"
    and "e_addrs env = []" and "cstr (e_msg_junk env) = []"
    and "word_ok cmd" and "map to_lower cmd = ''write''" and "words_ok ws"
    and gen: "generate_number (c_board c) = Inr (k, st1)" "k < 2 ^ 31"
    and fits: "fits_line (show_ld k) (c_user c) (words_text ws)"
  shows "\<exists>st'. client_request env (typed_line cmd ws) c = Inr (wrote (show_ld k), True, c\<lparr>c_board := st'\<rparr>) \<and>
    board_inv st' \<and> (\<forall>n. ok_num n \<longrightarrow> read_view st' n =
      (if n = show_ld k then Some (shown_as (c_user c) (words_text ws)) else read_view (c_board c) n))"
proof -
  have low: "map to_lower ''write'' = ''write''" by (simp add: to_lower_def)
  have req: "client_request env (typed_line cmd ws) c = client_write env (cmd # ws) c"
    using assms(5,6,7) low by (subst client_typed) (auto simp: assms(6) words_ok_def)
  have st1: "board_inv st1" "\<forall>n. read_view st1 n = read_view (c_board c) n"
    using generate_number_keeps [OF assms(1,2) gen(1)] by auto
  have k: "0 < k" "read_view st1 (show_ld k) = None"
    using generate_number_unused [OF assms(1) gen] st1(2) by auto
  have num: "ok_num (show_ld k)" using k(1) by (intro show_ld_word) simp
  let ?l = "\<lparr>msg_nmbr = show_ld k, poster = c_user c, message = words_text ws\<rparr>"
  let ?st' = "post_line (show_ld k) (c_user c) (words_text ws) st1"
  have line: "new_line (show_ld k) (c_user c) (words_text ws) = Inr ?l"
    using fits by (simp add: new_line_fits)
  have len: "\<not> MAX_LEN \<le> length (words_text ws)" using fits_line_lengths(2) [OF fits] by simp
  have sync: "sync_write (e_wire env) (e_sched env) (e_reply_junk env) (e_addrs env) ?l st1 (c_net c) =
      Inr (0, ?st', c_net c)"
    unfolding assms(3) write_alone local_write_posts [OF st1(1) k(2) num fits] by simp
  have "client_write env (cmd # ws) c = Inr (wrote (show_ld k), True, c\<lparr>c_board := ?st', c_net := c_net c\<rparr>)"
    unfolding client_write_def Let_def client_write_message(1) [OF assms(7,4)]
    using client_write_message(2) [OF assms(7,4), of cmd] len gen(1) line sync k(1) by simp
  moreover have "c\<lparr>c_board := ?st', c_net := c_net c\<rparr> = c\<lparr>c_board := ?st'\<rparr>" by (cases c) simp
  moreover have "board_inv ?st'" using bb.inv_post [OF st1(1) num fits k(2)] .
  moreover have "\<forall>n. ok_num n \<longrightarrow> read_view ?st' n =
      (if n = show_ld k then Some (shown_as (c_user c) (words_text ws)) else read_view (c_board c) n)"
    using bb.view_post [OF st1(1) num fits k(2)] st1(2) by simp
  ultimately show ?thesis using req by (intro exI [of _ ?st']) simp
qed

theorem client_write_posts_witness:
  "\<exists>st'. client_request test_env (typed_line ''WRITE'' [''hello'']) (client_start (sample_board []) ()) =
      Inr (wrote ''1'', True, client_start st' ()) \<and> read_view st' ''1'' = Some ''nobody/hello''"
proof -
  let ?c = "client_start (sample_board []) ()"
  have one: "show_ld 1 = ''1''" by code_simp
  have p: "board_inv (c_board ?c)" "Suc (open_fds (c_board ?c)) < fd_limit (c_board ?c)"
    "e_addrs test_env = []" "cstr (e_msg_junk test_env) = []" "words_ok [''hello'']"
    "(1::int) < 2 ^ 31" "fits_line (show_ld 1) (c_user ?c) (words_text [''hello''])"
    using sample_empty(1)
    by (simp_all add: client_start_def test_env_def words_ok_def word_ok_def words_text_def one
        fits_line_def wf_line_def line_entry_def) (simp add: sample_board_def)
  have g: "generate_number (c_board ?c) = Inr (1, (sample_board [])\<lparr>open_fds := 4, temp_list := [0]\<rparr>)"
    using sample_fresh by (simp add: client_start_def)
  obtain st' where "client_request test_env (typed_line ''WRITE'' [''hello'']) ?c =
      Inr (wrote (show_ld 1), True, ?c\<lparr>c_board := st'\<rparr>)"
    "\<forall>n. ok_num n \<longrightarrow> read_view st' n = (if n = show_ld 1
       then Some (shown_as (c_user ?c) (words_text [''hello''])) else read_view (c_board ?c) n)"
    using client_write_posts [OF p(1-4) word_ok_READ(2) lower_words(2) p(5) g p(6,7)] by blast
  moreover have "?c\<lparr>c_board := st'\<rparr> = client_start st' ()" by (simp add: client_start_def)
  moreover have "shown_as (c_user ?c) (words_text [''hello'']) = ''nobody/hello''"
    by (simp add: client_start_def shown_as_def words_text_def)
  ultimately show ?thesis using ok_num_digits(1) unfolding one by auto
qed

section \<open>Replacing\<close>

lemma slash_clean_prefix: "slash_clean (s @ SP # t) \<Longrightarrow> slash_clean s"
proof (induction s)
  case (Cons c s)
  then show ?case by (cases s) auto
qed simp

text \<open>The first argument of \<open>REPLACE\<close> is \<open>n/w\<close>: it is scanned as a whole, what follows is not.\<close>

lemma client_replacement:
  assumes "ok_num n" and "word_ok (n @ ''/'' @ w)" and "w \<noteq> []" and "\<forall>v \<in> set ws. word_ok v"
    and "slash_clean (strcat_args (w # ws))"
  shows "repl_split junk (strcat_args ((n @ ''/'' @ w) # ws)) (length (n @ ''/'' @ w)) ! 0 = n"
    and "repl_message (repl_split junk (strcat_args ((n @ ''/'' @ w) # ws)) (length (n @ ''/'' @ w))) =
      Some (strcat_args (w # ws))"
proof -
  let ?R = "SP # strcat_args ws" and ?s = "n @ SLASH # w"
  have nul: "NUL \<notin> set (n @ w)" using word_slash [OF assms(2,1)] .
  have "NUL \<notin> set ?R"
    using strcat_no_NUL [of "''x''" ws] assms(4) by simp
  then have c: "cstr (?R @ NUL # junk) = ?R" by (rule cstr_append_NUL)
  have eq: "strcat_args ((n @ ''/'' @ w) # ws) @ NUL # junk = ?s @ (?R @ NUL # junk)" by simp
  have "NUL \<notin> set ?s" using nul by simp
  from bbline_tokenize_spec [OF this, of "?R @ NUL # junk"]
  have "repl_split junk (strcat_args ((n @ ''/'' @ w) # ws)) (length (n @ ''/'' @ w)) =
      split_tokens bbline_sep ?R ?s"
    unfolding repl_split_def eq c by simp
  also have "\<dots> = n # split_tokens bbline_sep ?R w"
  proof -
    have "hd w \<noteq> SP" using assms(2,3) by (cases w) (auto simp: word_ok_def)
    then have "drop_blanks w = w" by (cases w) auto
    then show ?thesis
      using split_tokens_sep [of n bbline_sep SLASH ?R w] ok_num_no_slash [OF assms(1)] assms(3)
      by (auto simp: bbline_sep_def)
  qed
  finally have sp: "repl_split junk (strcat_args ((n @ ''/'' @ w) # ws)) (length (n @ ''/'' @ w)) =
      n # split_tokens bbline_sep ?R w" .
  show "repl_split junk (strcat_args ((n @ ''/'' @ w) # ws)) (length (n @ ''/'' @ w)) ! 0 = n"
    unfolding sp by simp
  have "slash_clean w" using assms(5) slash_clean_prefix by simp
  then have j: "join (split_tokens bbline_sep ?R w) = strcat_args (w # ws)" by (simp add: join_split_rest)
  obtain t ts where t: "split_tokens bbline_sep ?R w = t # ts" by (cases "split_tokens bbline_sep ?R w") auto
  show "repl_message (repl_split junk (strcat_args ((n @ ''/'' @ w) # ws)) (length (n @ ''/'' @ w))) =
      Some (strcat_args (w # ws))"
    unfolding sp using j unfolding t by (cases ts) (auto simp: repl_message_def)
qed

lemma client_replace_typed:
  assumes "word_ok cmd" and "map to_lower cmd = ''replace''" and "word_ok a" and "\<forall>v \<in> set ws. word_ok v"
  shows "client_request env (typed_line cmd (a # ws)) c = client_replace env (cmd # a # ws) c"
proof -
  have low: "map to_lower ''replace'' = ''replace''" by (simp add: to_lower_def)
  show ?thesis using assms low by (subst client_typed) (auto simp: assms(2))
qed

text \<open>
  Property C6: on a server without peers \<open>REPLACE n/text\<close> is answered with the number, later readers
  of the number are shown the new text under the name of the client that replaced it, and no other
  message changes.
\<close>

theorem client_replaces:
  assumes "board_inv (c_board c)" and "e_addrs env = []"
    and "word_ok cmd" and "map to_lower cmd = ''replace''"
    and n: "ok_num n" "word_ok (n @ ''/'' @ w)" "w \<noteq> []" "\<forall>v \<in> set ws. word_ok v"
    and there: "read_view (c_board c) n \<noteq> None" and fits: "fits_line n (c_user c) (strcat_args (w # ws))"
  shows "\<exists>st'. client_request env (typed_line cmd ((n @ ''/'' @ w) # ws)) c =
      Inr (wrote n, True, c\<lparr>c_board := st'\<rparr>) \<and> board_inv st' \<and>
    (\<forall>k. ok_num k \<longrightarrow> read_view st' k =
      (if k = n then Some (shown_as (c_user c) (strcat_args (w # ws))) else read_view (c_board c) k))"
proof -
  let ?a = "n @ ''/'' @ w" and ?m = "strcat_args (w # ws)" and ?st = "c_board c"
  let ?toks = "repl_split (e_repl_junk env) (strcat_args (?a # ws)) (length ?a)"
  let ?l = "\<lparr>msg_nmbr = n, poster = c_user c, message = ?m\<rparr>"
  let ?st' = "bb.replace_msg n (c_user c) ?m ?st"
  have clean: "slash_clean ?m" using fits by (simp only: fits_line_def)
  note toks = client_replacement [OF n clean, of "e_repl_junk env"]
  have rd: "\<exists>r x. read_descriptor n ?st = Inr (r, x, ?st) \<and> r \<noteq> - 1"
    using there by (auto simp: read_descriptor_view [OF assms(1)])
  then obtain r x where rd: "read_descriptor n ?st = Inr (r, x, ?st)" "r \<noteq> - 1" by blast
  have sync: "sync_replace (e_wire env) (e_sched env) (e_reply_junk env) (e_len_junk env) (e_addrs env) ?l ?st (c_net c) =
      Inr (0, ?st', c_net c)"
    unfolding assms(2) replace_alone local_replace_posts [OF assms(1) there n(1) fits] by simp
  have args: "tl (cmd # ?a # ws) = ?a # ws" "(cmd # ?a # ws) ! 1 = ?a" "length (cmd # ?a # ws) > 1" by simp_all
  have "client_replace env (cmd # ?a # ws) c = Inr (wrote n, True, c\<lparr>c_board := ?st', c_net := c_net c\<rparr>)"
    unfolding client_replace_def Let_def args toks(2) if_P [OF args(3)] toks(1)
    using rd sync new_line_fits [OF fits] by (simp del: strcat_args_simps)
  moreover have "c\<lparr>c_board := ?st', c_net := c_net c\<rparr> = c\<lparr>c_board := ?st'\<rparr>" by (cases c) simp
  ultimately have "client_request env (typed_line cmd (?a # ws)) c = Inr (wrote n, True, c\<lparr>c_board := ?st'\<rparr>)"
    unfolding client_replace_typed [OF assms(3,4) n(2,4)] by simp
  then show ?thesis
    using bb.inv_replace [OF assms(1) n(1) there fits] bb.view_replace [OF assms(1) n(1) there fits]
    by (intro exI [of _ ?st']) simp
qed

theorem client_replaces_witness:
  "\<exists>st'. client_request test_env (typed_line ''REPLACE'' [''1/hello'', ''all''])
        (client_start (sample_board [''1/bob/hi'']) ()) =
      Inr (wrote ''1'', True, client_start st' ()) \<and> read_view st' ''1'' = Some ''nobody/hello all ''"
proof -
  let ?c = "client_start (sample_board [''1/bob/hi'']) ()"
  have p: "board_inv (c_board ?c)" "e_addrs test_env = []" "word_ok (''1'' @ ''/'' @ ''hello'')" "''hello'' \<noteq> []"
    "\<forall>v \<in> set [''all'']. word_ok v" "read_view (c_board ?c) ''1'' \<noteq> None"
    "fits_line ''1'' (c_user ?c) (strcat_args (''hello'' # [''all'']))"
    using sample_inv [OF sample_line] sample_line_view
    by (simp_all add: client_start_def test_env_def word_ok_def fits_line_def wf_line_def line_entry_def)
  have eq: "?c\<lparr>c_board := st'\<rparr> = client_start st' ()" for st' by (simp add: client_start_def)
  have s: "shown_as (c_user ?c) (strcat_args (''hello'' # [''all''])) = ''nobody/hello all ''"
    by (simp add: client_start_def shown_as_def)
  have line: "(''1'' @ ''/'' @ ''hello'') # [''all''] = [''1/hello'', ''all'']" by simp
  show ?thesis
    using client_replaces [OF p(1,2) word_ok_READ(3) lower_words(3) ok_num_digits(1) p(3-7)] ok_num_digits(1)
    unfolding eq s line by metis
qed

text \<open>
  Property C29: \<open>REPLACE\<close> of a number no message has is answered as unknown, and changes nothing,
  with any peers: the protocol is not started.
\<close>

theorem client_replace_unknown:
  assumes "board_inv (c_board c)" and "word_ok cmd" and "map to_lower cmd = ''replace''"
    and n: "ok_num n" "word_ok (n @ ''/'' @ w)" "w \<noteq> []" "\<forall>v \<in> set ws. word_ok v"
    and clean: "slash_clean (strcat_args (w # ws))" and gone: "read_view (c_board c) n = None"
  shows "client_request env (typed_line cmd ((n @ ''/'' @ w) # ws)) c =
    Inr (respond (lines_text [''3.1 UNKNOWN '' @ n, '''']), True, c)"
proof -
  let ?a = "n @ ''/'' @ w"
  let ?toks = "repl_split (e_repl_junk env) (strcat_args (?a # ws)) (length ?a)"
  note toks = client_replacement [OF n clean, of "e_repl_junk env"]
  have args: "tl (cmd # ?a # ws) = ?a # ws" "(cmd # ?a # ws) ! 1 = ?a" "length (cmd # ?a # ws) > 1" by simp_all
  have "client_replace env (cmd # ?a # ws) c =
      Inr (respond (lines_text [''3.1 UNKNOWN '' @ n, '''']), True, c\<lparr>c_board := c_board c\<rparr>)"
    unfolding client_replace_def Let_def args toks(2) if_P [OF args(3)] toks(1)
    by (simp add: read_descriptor_view [OF assms(1)] gone del: strcat_args_simps)
  moreover have "c\<lparr>c_board := c_board c\<rparr> = c" by (cases c) simp
  ultimately show ?thesis unfolding client_replace_typed [OF assms(2,3) n(2,4)] by simp
qed

theorem client_replace_unknown_witness:
  "client_request test_env (typed_line ''REPLACE'' [''1/hello'']) (client_start (sample_board []) ()) =
    Inr (respond (lines_text [''3.1 UNKNOWN 1'', '''']), True, client_start (sample_board []) ())"
proof -
  let ?c = "client_start (sample_board []) ()"
  have p: "board_inv (c_board ?c)" "word_ok (''1'' @ ''/'' @ ''hello'')" "''hello'' \<noteq> []"
    "\<forall>v \<in> set []. word_ok v" "slash_clean (strcat_args [''hello''])" "read_view (c_board ?c) ''1'' = None"
    using sample_empty by (simp_all add: client_start_def word_ok_def)
  show ?thesis
    using client_replace_unknown [OF p(1) word_ok_READ(3) lower_words(3) ok_num_digits(1) p(2-6), of test_env]
    by simp
qed

section \<open>The name of a client\<close>

text \<open>
  A first name with a slash is answered as an error, but the client has it from then
  on, and later \<open>USER\<close> commands accept any name.
\<close>

theorem slash_name_kept:
  assumes "word_ok cmd" and "map to_lower cmd = ''user''" and "words_ok ws" and "c_uname_avl c = False"
    and "SLASH \<in> set (append_args [] ws)" and "length (append_args [] ws) < MAX_LEN"
  shows "\<exists>err c'. client_request env (typed_line cmd ws) c = Inr (err, True, c') \<and>
    take 3 err = ''ERR'' \<and> c_user c' = append_args [] ws \<and>
    client_request env (typed_line cmd ws) c' = Inr (hello (append_args [] ws), True, c')"
proof -
  have low: "map to_lower ''user'' = ''user''" by (simp add: to_lower_def)
  have len: "length (cmd # ws) > 1" using assms(3) by (cases ws) (auto simp: words_ok_def)
  have req: "client_request env (typed_line cmd ws) d = client_user_cmd (cmd # ws) d" for d
    using assms(1,2,3) low by (subst client_typed) (auto simp: assms(2) words_ok_def)
  let ?c = "c\<lparr>c_uname_avl := True, c_user := append_args [] ws\<rparr>"
  have same: "?c\<lparr>c_uname_avl := True, c_user := append_args [] ws\<rparr> = ?c" by simp
  have "client_user_cmd (cmd # ws) ?c = Inr (hello (append_args [] ws), True, ?c)"
    unfolding client_user_cmd_def if_P [OF len] Let_def list.sel same using assms(6) by simp
  then show ?thesis
    unfolding req using len assms(4,5,6)
    by (simp add: client_user_cmd_def Let_def strstr1_def respond_def lines_text_def snprintf_def MAX_LEN_def)
qed

theorem slash_name_kept_witness:
  "\<exists>err c'. client_request test_env (typed_line ''USER'' [''a/b'']) (client_start (sample_board []) ()) =
      Inr (err, True, c') \<and> take 3 err = ''ERR'' \<and> c_user c' = '' a/b''"
proof -
  have "words_ok [''a/b'']" "c_uname_avl (client_start (sample_board []) ()) = False"
    "SLASH \<in> set (append_args [] [''a/b''])" "length (append_args [] [''a/b'']) < MAX_LEN"
    by (simp_all add: words_ok_def word_ok_def client_start_def append_args_def MAX_LEN_def)
  from slash_name_kept [OF word_ok_READ(4) lower_words(4) this, of test_env]
  show ?thesis by (auto simp: append_args_def)
qed

section \<open>The list of clients\<close>

text \<open>
  Property C27: a session that ends leaves the list of client sockets as it found it, whatever the
  client sent.
\<close>

theorem session_leaves_list:
  assumes "wf_ends clients" and "fresh_addr a clients" and "distinct (items clients)" and "sd \<notin> set (items clients)"
    and "server_operations env a sd client_ip buf fd clients st w = Inr (out, clients', st', w')"
  shows "wf_ends clients' \<and> items clients' = items clients"
proof -
  obtain c1 where c1: "pushVal a sd clients = Inr c1" "wf_ends c1" "items c1 = items clients @ [sd]"
    using client_list.push_law [OF assms(1,2), of sd] by blast
  have "distinct (items c1)" using c1(3) assms(3,4) by simp
  then obtain c2 where c2: "pullSpec sd c1 = Inr c2" "wf_ends c2" "items c2 = remove1 sd (items c1)"
    using pullSpec_ok [OF c1(2)] by blast
  have "clients' = c2"
    using assms(5) c1(1) c2(1) by (auto simp: server_operations_def split: sum.splits prod.splits)
  then show ?thesis using c2(2,3) c1(3) assms(4) by (simp add: remove1_append)
qed

theorem session_leaves_list_witness:
  "\<exists>out clients'. server_operations test_env 40 7 ''10.0.0.1'' [] [] three_sockets (sample_board []) () =
      Inr (out, clients', sample_board [], ()) \<and> items clients' = [4, 5, 6]"
proof -
  have f: "fresh_addr 40 three_sockets" by (simp add: fresh_addr_def three_sockets_def)
  obtain c1 where c1: "pushVal 40 7 three_sockets = Inr c1" "wf_ends c1" "items c1 = [4, 5, 6] @ [7]"
    using client_list.push_law [OF three_sockets_wf(1) f, of 7] three_sockets_wf(2) by auto
  then have "distinct (items c1)" by simp
  then obtain c2 where c2: "pullSpec 7 c1 = Inr c2" using pullSpec_ok [OF c1(2)] by blast
  have "\<exists>out. server_operations test_env 40 7 ''10.0.0.1'' [] [] three_sockets (sample_board []) () =
      Inr (out, c2, sample_board [], ())"
    by (simp add: server_operations_def c1(1) c2 serve_end) (simp add: client_start_def)
  then obtain out where run: "server_operations test_env 40 7 ''10.0.0.1'' [] [] three_sockets (sample_board []) () =
      Inr (out, c2, sample_board [], ())" by blast
  have "items c2 = [4, 5, 6]"
    using session_leaves_list [OF three_sockets_wf(1) f _ _ run] three_sockets_wf(2) by simp
  with run show ?thesis by blast
qed

end
