(* ===== verification/ClusterReplace.thy ===== *)
theory ClusterReplace
  imports Cluster
begin

text \<open>
  The commit protocol of a replacement, \<open>sync_replace\<close>, against peers that run
  \<open>peer_receiver_operations\<close>: the counterpart of theory \<open>Cluster\<close> for \<open>REPLACE\<close>. A peer that has the
  message replaces it and remembers the old text; a peer that has not refuses, and then every other
  peer puts its old text back.
\<close>

section \<open>One peer through the protocol\<close>

text \<open>The texts of a replacement, within the bounds of the peers' scan of seven bytes.\<close>

definition replace_ok :: "string \<Rightarrow> string \<Rightarrow> string list \<Rightarrow> string \<Rightarrow> string list \<Rightarrow> bool" where
  "replace_ok n u us w ws \<longleftrightarrow> name_ok u us \<and> word_ok (n @ ''/'' @ w) \<and> (\<forall>v \<in> set ws. word_ok v) \<and> w \<noteq> [] \<and>
     ok_num n \<and> repl_fits n (strcat_args (w # ws)) \<and> fits_line n u (strcat_args (w # ws)) \<and>
     fits_line n (words_text us) (strcat_args (w # ws)) \<and>
     length (replace_request n (strcat_args (w # ws))) < ALEN"

definition has_message :: "string \<Rightarrow> board_state \<Rightarrow> bool" where
  "has_message n st \<longleftrightarrow> (\<exists>u m. posted st n u m) \<and> Suc (open_fds st) < fd_limit st"

lemma ep_line_dead: "\<not> ep_live e \<Longrightarrow> ep_line pj req e = e"
  by (simp add: ep_line_def ep_feed_def Let_def)

lemma replace_chars:
  assumes "replace_ok n u us w ws"
  shows "NL \<notin> set (replace_request n (strcat_args (w # ws)))" "NUL \<notin> set (replace_request n (strcat_args (w # ws)))"
    "length (replace_request n (strcat_args (w # ws))) < MAX_LEN"
proof -
  have l: "wf_line (line_entry n u (strcat_args (w # ws)))"
    using assms by (simp only: replace_ok_def fits_line_def)
  then show "NL \<notin> set (replace_request n (strcat_args (w # ws)))" "NUL \<notin> set (replace_request n (strcat_args (w # ws)))"
    by (auto simp: wf_line_def line_entry_def replace_request_def)
  show "length (replace_request n (strcat_args (w # ws))) < MAX_LEN"
    using assms unfolding replace_ok_def by (intro ALEN_MAX) blast
qed

text \<open>A peer that has the message: it accepts, shows the new text, and an abort restores it.\<close>

lemma react_replace_there:
  assumes ok: "replace_ok n u us w ws" and inv: "board_inv (ep_board e)" and has: "has_message n (ep_board e)"
  shows "\<exists>e'. ep_react pj (replace_request n (strcat_args (w # ws))) (ep_ready js us e) = Some (''positive'', e') \<and>
    ep_board (ep_part pj quit_request e') =
      bb.replace_msg n (words_text us) (strcat_args (w # ws)) (one_more_fd (ep_board e)) \<and>
    (\<forall>k. ok_num k \<longrightarrow> read_view (ep_board (ep_part pj abort_request e')) k = read_view (ep_board e) k)"
proof -
  let ?m = "strcat_args (w # ws)" and ?se = "ep_session (ep_ready js us e)" and ?st = "one_more_fd (ep_board e)"
  obtain u0 m0 where old: "posted (ep_board e) n u0 m0" and fds: "Suc (open_fds (ep_board e)) < fd_limit (ep_board e)"
    using has by (auto simp: has_message_def)
  have f: "word_ok (n @ ''/'' @ w)" "\<forall>v \<in> set ws. word_ok v" "w \<noteq> []" "repl_fits n ?m" "ok_num n"
    "fits_line n (client_user ?se) ?m" using ok unfolding replace_ok_def by auto
  let ?se1 = "?se\<lparr>undo_command := ''replace'', undo_nmbr := n, undo_user := drop_blanks u0,
    undo_message := drop_blanks m0\<rparr>"
  let ?b = "bb.replace_msg n (words_text us) ?m ?st"
  let ?e = "(ep_ready js us e)\<lparr>ep_session := ?se1, ep_board := ?b\<rparr>"
  have p: "peer_request pj (replace_request n ?m) ?se (ep_board (ep_ready js us e)) =
      answer (''positive'' @ [NL]) True False ?se1 ?b"
    using peer_replace_commits [OF f(1-3) refl f(4) inv f(5) fds old f(6), of pj] by (simp add: positive_def)
  have react: "ep_react pj (replace_request n ?m) (ep_ready js us e) = Some (''positive'', ?e)"
    using ep_react_request [OF _ _ _ replace_chars [OF ok] p] by (simp add: ALEN_def)
  have inv': "board_inv ?st" using board_inv_fd [OF inv fds] .
  have old': "posted ?st n u0 m0" using old by (auto simp: posted_def has_lines_def one_more_fd_def)
  obtain st' where ab: "peer_request pj abort_request ?se1 ?b = answer [] False True ?se1 st'"
      "\<forall>k. ok_num k \<longrightarrow> read_view st' k = read_view ?st k"
    using peer_abort_restores [of ?se1 n u0 m0 ?st "words_text us" ?m pj] inv' f(5,6) old' by auto
  have live: "ep_live ?e" "ep_in ?e = []" "ep_out ?e = []" "ep_board ?e = ?b" by simp_all
  have "ep_board (ep_part pj quit_request ?e) = ?b" using part_quit [OF live(1-3)] live(4) by simp
  moreover have "ep_board (ep_part pj abort_request ?e) = st'"
    using ep_line_request [OF live(1-3), of abort_request pj] ab(1)
    by (simp add: ep_part_def abort_request_def MAX_LEN_def)
  ultimately show ?thesis using react ab(2) read_view_fd [OF inv fds] by (intro exI [of _ ?e]) simp
qed

text \<open>A peer that has not: it refuses, and whatever is sent next changes nothing.\<close>

lemma react_replace_gone:
  assumes ok: "replace_ok n u us w ws" and inv: "board_inv (ep_board e)" and gone: "read_view (ep_board e) n = None"
  shows "ep_react pj (replace_request n (strcat_args (w # ws))) (ep_ready js us e) =
    Some (''negative'', (ep_ready js us e)\<lparr>ep_live := False\<rparr>)"
proof -
  let ?m = "strcat_args (w # ws)" and ?se = "ep_session (ep_ready js us e)"
  have f: "word_ok (n @ ''/'' @ w)" "\<forall>v \<in> set ws. word_ok v" "w \<noteq> []" "repl_fits n ?m" "ok_num n"
    using ok unfolding replace_ok_def by auto
  have nul: "NUL \<notin> set (n @ ?m)" using word_slash [OF f(1,5)] strcat_no_NUL [of w ws] f(2) by auto
  have "word_ok w" using f(1,3) by (auto simp: word_ok_def)
  then have hd: "?m \<noteq> []" "hd ?m \<noteq> SP" by (cases w; auto simp: word_ok_def)+
  have split: "repl_split (j_repl pj) (n @ ''/'' @ ?m) 7 = [n, ?m]"
    using f(4) ok_num_no_slash [OF f(5)] nul hd by (intro repl_split_seven) (auto simp: repl_fits_def)
  have msg: "repl_message [n, ?m] = Some ?m" by (simp add: repl_message_def)
  have p: "peer_request pj (replace_request n ?m) ?se (ep_board (ep_ready js us e)) =
      answer (''negative'' @ [NL]) False False ?se (ep_board (ep_ready js us e))"
    unfolding peer_replace_tokens [OF f(1,2)] split
    by (simp add: msg read_descriptor_view [OF inv] gone negative_def del: strcat_args_simps)
  show ?thesis
    using ep_react_request [OF _ _ _ replace_chars [OF ok] p] by (simp add: ALEN_def)
qed

section \<open>Atomicity of replacing\<close>

text \<open>What a peer answers, and what it then is.\<close>

definition replace_answer :: "string \<Rightarrow> endpoint \<Rightarrow> string" where
  "replace_answer n e = (if read_view (ep_board e) n = None then ''negative'' else ''positive'')"

definition after_replace ::
  "peer_junk \<Rightarrow> peer_session \<Rightarrow> string \<Rightarrow> string list \<Rightarrow> string \<Rightarrow> endpoint \<Rightarrow> endpoint" where
  "after_replace pj js n us m e = snd (the (ep_react pj (replace_request n m) (ep_ready js us e)))"

text \<open>Each peer has the message under this number, with a free descriptor, or no message.\<close>

definition peer_fits :: "string \<Rightarrow> endpoint \<Rightarrow> bool" where
  "peer_fits n e \<longleftrightarrow> board_inv (ep_board e) \<and> (read_view (ep_board e) n = None \<or> has_message n (ep_board e))"

lemma has_message_view: "board_inv st \<Longrightarrow> ok_num n \<Longrightarrow> has_message n st \<Longrightarrow> read_view st n \<noteq> None"
  using posted_view by (fastforce simp: has_message_def)

lemma react_replace:
  assumes "replace_ok n u us w ws" and "peer_fits n e"
  shows "ep_react pj (replace_request n (strcat_args (w # ws))) (ep_ready js us e) =
    Some (replace_answer n e, after_replace pj js n us (strcat_args (w # ws)) e)"
proof (cases "read_view (ep_board e) n = None")
  case True
  with react_replace_gone [OF assms(1), of e pj js] assms(2) show ?thesis
    by (simp add: replace_answer_def after_replace_def peer_fits_def)
next
  case False
  with assms(2) have "board_inv (ep_board e)" "has_message n (ep_board e)" by (auto simp: peer_fits_def)
  from react_replace_there [OF assms(1) this, of pj js] False show ?thesis
    by (auto simp: replace_answer_def after_replace_def simp del: strcat_args_simps)
qed

lemma after_replace_abort:
  assumes "replace_ok n u us w ws" and "peer_fits n e" and "ok_num k"
  shows "read_view (ep_board (ep_part pj abort_request (after_replace pj js n us (strcat_args (w # ws)) e))) k =
    read_view (ep_board e) k"
proof (cases "read_view (ep_board e) n = None")
  case True
  have "ep_part pj abort_request ((ep_ready js us e)\<lparr>ep_live := False\<rparr>) = (ep_ready js us e)\<lparr>ep_live := False\<rparr>"
    by (simp add: ep_part_def ep_line_dead)
  with True react_replace_gone [OF assms(1), of e pj js] assms(2) show ?thesis
    by (simp add: after_replace_def peer_fits_def)
next
  case False
  with assms(2) have "board_inv (ep_board e)" "has_message n (ep_board e)" by (auto simp: peer_fits_def)
  from react_replace_there [OF assms(1) this, of pj js] assms(3) show ?thesis
    by (auto simp: after_replace_def simp del: strcat_args_simps)
qed

lemma after_replace_quit:
  assumes "replace_ok n u us w ws" and "board_inv (ep_board e)" and "has_message n (ep_board e)"
  shows "ep_board (ep_part pj quit_request (after_replace pj js n us (strcat_args (w # ws)) e)) =
    bb.replace_msg n (words_text us) (strcat_args (w # ws)) (one_more_fd (ep_board e))"
  using react_replace_there [OF assms, of pj js] by (auto simp: after_replace_def simp del: strcat_args_simps)

lemma sync_replace_cluster:
  assumes "table_ok addrs" "clean_junk pj" "replace_ok n u us w ws" "length ps = length addrs"
    and fit: "\<forall>e \<in> set ps. peer_fits n e" and m: "m = strcat_args (w # ws)"
  shows "sync_replace (net pj js addrs) calm quiet junk addrs \<lparr>msg_nmbr = n, poster = u, message = m\<rparr> st ps =
    (if \<forall>e \<in> set ps. read_view (ep_board e) n \<noteq> None then
       (case local_replace junk \<lparr>msg_nmbr = n, poster = u, message = m\<rparr> st of
          Inl x \<Rightarrow> Inl x
        | Inr (ok, st') \<Rightarrow>
            if ok then Inr (0, st', map (\<lambda>e. ep_part pj quit_request (after_replace pj js n us m e)) ps)
            else Inr (- 1, st', map (\<lambda>e. ep_part pj abort_request (after_replace pj js n us m e)) ps))
     else Inr (- 1, st, map (\<lambda>e. ep_part pj abort_request (after_replace pj js n us m e)) ps))"
proof -
  let ?l = "\<lparr>msg_nmbr = n, poster = u, message = m\<rparr>"
  have nm: "name_ok u us" using assms(3) by (simp only: replace_ok_def)
  have len: "length (precommit_request (poster ?l)) < ALEN"
    "length (replace_request (msg_nmbr ?l) (message ?l)) < ALEN"
    using assms(3) nm m by (simp_all add: replace_ok_def name_ok_def)
  have dr: "\<forall>i < length addrs. \<not> dont_reissue (addrs ! i)" using assms(1) by (simp add: table_ok_def)
  have pre: "ep_react pj (precommit_request (poster ?l)) (ep_admit js e) = Some (''positive'', ep_ready js us e)" for e
    using react_precommit [OF nm assms(2)] by simp
  have com: "ep_react pj (replace_request (msg_nmbr ?l) (message ?l)) (ep_ready js us e) =
      Some (replace_answer n e, after_replace pj js n us m e)" if "e \<in> set ps" for e
    using react_replace [OF assms(3), of e pj js] fit that m by (simp del: strcat_args_simps)
  have ans: "(replace_answer n e = ''positive'') = (read_view (ep_board e) n \<noteq> None)"
    "(replace_answer n e = ''negative_exists'') = False" for e by (simp_all add: replace_answer_def)
  show ?thesis
    using cn.sync_replace_outcome [of ?l ps addrs pj js, unfolded sound_table_id [OF assms(1)],
        OF len assms(4) dr pre com]
    unfolding ans quiet_def if_False .
qed

lemma replaced_view:
  assumes "replace_ok n u us w ws" and "board_inv (ep_board e)" and "has_message n (ep_board e)" and "ok_num k"
  shows "read_view (ep_board (ep_part pj quit_request (after_replace pj js n us (strcat_args (w # ws)) e))) k =
    (if k = n then Some (shown_as (words_text us) (strcat_args (w # ws))) else read_view (ep_board e) k)"
proof -
  have f: "ok_num n" "fits_line n (words_text us) (strcat_args (w # ws))" using assms(1) unfolding replace_ok_def by auto
  have fds: "Suc (open_fds (ep_board e)) < fd_limit (ep_board e)" using assms(3) by (simp add: has_message_def)
  have v: "read_view (one_more_fd (ep_board e)) j = read_view (ep_board e) j" for j
    using read_view_fd [OF assms(2) fds] .
  have some: "read_view (one_more_fd (ep_board e)) n \<noteq> None" using v has_message_view [OF assms(2) f(1) assms(3)] by simp
  show ?thesis
    unfolding after_replace_quit [OF assms(1-3)]
    using bb.view_replace [OF board_inv_fd [OF assms(2) fds] f(1) some f(2) assms(4)] v by simp
qed

text \<open>
  Property C3: a replacement of a message every peer has is done everywhere: the master reports
  success, and if all boards showed the same messages before, they show the same messages after.
\<close>

theorem replace_commits_everywhere:
  assumes "table_ok addrs" and "clean_junk pj" and "replace_ok n u us w ws"
    and "u = words_text us \<or> u = append_args [] us" and m: "m = strcat_args (w # ws)"
    and "length ps = length addrs" and "board_inv st" and there: "read_view st n \<noteq> None"
    and peers: "\<forall>e \<in> set ps. board_inv (ep_board e) \<and> has_message n (ep_board e)"
    and agree: "\<forall>e \<in> set ps. \<forall>k. ok_num k \<longrightarrow> read_view (ep_board e) k = read_view st k"
  shows "\<exists>st' ps'. sync_replace (net pj js addrs) calm quiet junk addrs \<lparr>msg_nmbr = n, poster = u, message = m\<rparr> st ps =
      Inr (0, st', ps') \<and> read_view st' n = Some (shown_as u m) \<and>
    (\<forall>e \<in> set ps'. \<forall>k. ok_num k \<longrightarrow> read_view (ep_board e) k = read_view st' k)"
proof -
  have f: "ok_num n" "fits_line n u m" using assms(3) m unfolding replace_ok_def by auto
  have fit: "\<forall>e \<in> set ps. peer_fits n e" using peers by (simp add: peer_fits_def)
  have all: "\<forall>e \<in> set ps. read_view (ep_board e) n \<noteq> None" using agree f(1) there by simp
  let ?ps' = "map (\<lambda>e. ep_part pj quit_request (after_replace pj js n us m e)) ps"
  let ?st' = "bb.replace_msg n u m st"
  have "sync_replace (net pj js addrs) calm quiet junk addrs \<lparr>msg_nmbr = n, poster = u, message = m\<rparr> st ps =
      Inr (0, ?st', ?ps')"
    unfolding sync_replace_cluster [OF assms(1,2,3,6) fit m] if_P [OF all]
    by (simp add: local_replace_posts [OF assms(7) there f])
  moreover have v: "read_view ?st' k = (if k = n then Some (shown_as u m) else read_view st k)" if "ok_num k" for k
    using bb.view_replace [OF assms(7) f(1) there f(2) that] .
  moreover have s: "shown_as u m = shown_as (words_text us) m"
    using typed_shown [of u us "words_text [m]" "[m]"] assms(4) by (simp add: typed_def words_text_def)
  have "\<forall>e \<in> set ?ps'. \<forall>k. ok_num k \<longrightarrow> read_view (ep_board e) k = read_view ?st' k"
  proof clarsimp
    fix e k assume e: "e \<in> set ps" "ok_num k"
    then have b: "board_inv (ep_board e)" "has_message n (ep_board e)" using peers by auto
    show "read_view (ep_board (ep_part pj quit_request (after_replace pj js n us m e))) k = read_view ?st' k"
      using replaced_view [OF assms(3) b e(2), of pj js] v [OF e(2)] s agree e unfolding m by simp
  qed
  ultimately show ?thesis using f(1) by (intro exI [of _ ?st'] exI [of _ ?ps']) simp
qed

lemma replace_ok_sample: "replace_ok ''1'' ''eve'' [''eve''] ''hello'' [''all'']"
  using wordy_word [of "''eve''"]
  by (simp add: replace_ok_def name_ok_def word_ok_def ok_num_def repl_fits_def fits_line_def wf_line_def
      line_entry_def words_text_def precommit_request_def replace_request_def ALEN_def MAX_LEN_def)

definition replace_peers :: "endpoint list" where
  "replace_peers = map (ep_board_update (\<lambda>_. sample_board [''1/bob/hi''])) write_peers"

lemma replace_peers_set:
  "set replace_peers = {(write_peers ! 0)\<lparr>ep_board := sample_board [''1/bob/hi'']\<rparr>}"
  by (simp add: replace_peers_def write_peers_def)

lemma sample_has_message: "has_message ''1'' (sample_board [''1/bob/hi''])"
  unfolding has_message_def using sample_posted by (auto simp: sample_board_def)

theorem replace_commits_everywhere_witness:
  "\<exists>st' ps'. sync_replace (net zero_junk blank_session three_peers) calm quiet [] three_peers
      \<lparr>msg_nmbr = ''1'', poster = ''eve'', message = ''hello all ''\<rparr> (sample_board [''1/bob/hi'']) replace_peers =
      Inr (0, st', ps') \<and> read_view st' ''1'' = Some ''eve/hello all ''"
proof -
  have p: "clean_junk zero_junk" "''eve'' = words_text [''eve''] \<or> ''eve'' = append_args [] [''eve'']"
    "''hello all '' = strcat_args (''hello'' # [''all''])" "length replace_peers = length three_peers"
    "read_view (sample_board [''1/bob/hi'']) ''1'' \<noteq> None"
    "\<forall>e \<in> set replace_peers. board_inv (ep_board e) \<and> has_message ''1'' (ep_board e)"
    "\<forall>e \<in> set replace_peers. \<forall>k. ok_num k \<longrightarrow> read_view (ep_board e) k = read_view (sample_board [''1/bob/hi'']) k"
    using sample_line_view sample_inv [OF sample_line] sample_has_message
    by (simp_all add: replace_peers_set clean_junk_def zero_junk_def words_text_def)
      (simp add: replace_peers_def write_peers_def three_peers_def)
  have s: "shown_as ''eve'' ''hello all '' = ''eve/hello all ''" by (simp add: shown_as_def)
  show ?thesis
    using replace_commits_everywhere [OF three_peers_ok p(1) replace_ok_sample p(2,3,4) sample_inv [OF sample_line] p(5,6,7), of blank_session "[]"]
    unfolding s by blast
qed

text \<open>
  Property C4: a replacement that some peer cannot do, because it has no message of that number, is
  done nowhere: the master reports failure and leaves its board alone, and the peers that had already
  replaced the message put the old text back.
\<close>

theorem replace_aborts_everywhere:
  assumes "table_ok addrs" and "clean_junk pj" and ok: "replace_ok n u us w ws" and m: "m = strcat_args (w # ws)"
    and "length ps = length addrs" and fit: "\<forall>e \<in> set ps. peer_fits n e"
    and some: "\<exists>e \<in> set ps. read_view (ep_board e) n = None"
  shows "\<exists>ps'. sync_replace (net pj js addrs) calm quiet junk addrs \<lparr>msg_nmbr = n, poster = u, message = m\<rparr> st ps =
      Inr (- 1, st, ps') \<and>
    (\<forall>i < length ps. \<forall>k. ok_num k \<longrightarrow> read_view (ep_board (ps' ! i)) k = read_view (ep_board (ps ! i)) k)"
proof -
  have no: "\<not> (\<forall>e \<in> set ps. read_view (ep_board e) n \<noteq> None)" using some by auto
  let ?ps' = "map (\<lambda>e. ep_part pj abort_request (after_replace pj js n us m e)) ps"
  have "sync_replace (net pj js addrs) calm quiet junk addrs \<lparr>msg_nmbr = n, poster = u, message = m\<rparr> st ps =
      Inr (- 1, st, ?ps')"
    unfolding sync_replace_cluster [OF assms(1,2,3,5) fit m] if_not_P [OF no] ..
  moreover have "read_view (ep_board (?ps' ! i)) k = read_view (ep_board (ps ! i)) k" if "i < length ps" "ok_num k" for i k
    using after_replace_abort [OF ok _ that(2), of "ps ! i" pj js] fit that(1) m by simp
  ultimately show ?thesis by (intro exI [of _ ?ps']) blast
qed

theorem replace_aborts_everywhere_witness:
  "\<exists>ps'. sync_replace (net zero_junk blank_session three_peers) calm quiet [] three_peers
      \<lparr>msg_nmbr = ''1'', poster = ''eve'', message = ''hello all ''\<rparr> (sample_board [''1/bob/hi'']) mixed_peers =
      Inr (- 1, sample_board [''1/bob/hi''], ps') \<and> read_view (ep_board (ps' ! 1)) ''1'' = Some ''bob/hi''"
proof -
  let ?e = "(write_peers ! 1)\<lparr>ep_board := sample_board [''1/bob/hi'']\<rparr>"
  have eq: "set mixed_peers = {write_peers ! 0, ?e}"
    by (auto simp: mixed_peers_def write_peers_def numeral_3_eq_3)
  have p: "clean_junk zero_junk" "''hello all '' = strcat_args (''hello'' # [''all''])"
    "length mixed_peers = length three_peers"
    by (simp_all add: clean_junk_def zero_junk_def mixed_peers_def write_peers_def three_peers_def)
  have fit: "\<forall>e \<in> set mixed_peers. peer_fits ''1'' e"
    unfolding eq using sample_inv [OF sample_line] sample_empty sample_has_message
    by (simp add: peer_fits_def write_peers_def)
  have some: "\<exists>e \<in> set mixed_peers. read_view (ep_board e) ''1'' = None"
    unfolding eq using sample_empty by (simp add: write_peers_def)
  obtain ps' where ps': "sync_replace (net zero_junk blank_session three_peers) calm quiet [] three_peers
      \<lparr>msg_nmbr = ''1'', poster = ''eve'', message = ''hello all ''\<rparr> (sample_board [''1/bob/hi'']) mixed_peers =
      Inr (- 1, sample_board [''1/bob/hi''], ps')"
    "\<forall>i < length mixed_peers. \<forall>k. ok_num k \<longrightarrow>
       read_view (ep_board (ps' ! i)) k = read_view (ep_board (mixed_peers ! i)) k"
    using replace_aborts_everywhere [OF three_peers_ok p(1) replace_ok_sample p(2,3) fit some, of blank_session "[]"
        "sample_board [''1/bob/hi'']"] by blast
  have "1 < length mixed_peers" "read_view (ep_board (mixed_peers ! 1)) ''1'' = Some ''bob/hi''"
    using sample_line_view by (simp_all add: mixed_peers_def write_peers_def)
  with ps' ok_num_digits(1) show ?thesis by metis
qed

end
