(* ===== verification/Transition.thy ===== *)
theory Transition
  imports Main
begin

text \<open>
  Reachable states of a step relation, and the contract of an inductive invariant: it holds at the
  start and every step keeps it. The concurrent parts of the server (the lock of the board file,
  the worker teams) interpret it.
\<close>

inductive reach :: "('s \<Rightarrow> bool) \<Rightarrow> ('s \<Rightarrow> 's \<Rightarrow> bool) \<Rightarrow> 's \<Rightarrow> bool"
  for init step where
  reach_init: "init s \<Longrightarrow> reach init step s"
| reach_step: "reach init step s \<Longrightarrow> step s t \<Longrightarrow> reach init step t"

fun run_from :: "('s \<Rightarrow> 's \<Rightarrow> bool) \<Rightarrow> 's \<Rightarrow> 's list \<Rightarrow> bool" where
  "run_from step s [] = True"
| "run_from step s (t # ts) \<longleftrightarrow> step s t \<and> run_from step t ts"

lemma run_reach: "reach init step s \<Longrightarrow> run_from step s ts \<Longrightarrow> t \<in> set ts \<Longrightarrow> reach init step t"
proof (induction ts arbitrary: s)
  case Nil
  then show ?case by simp
next
  case (Cons u ts)
  then have u: "reach init step u" by (auto intro: reach_step)
  with Cons show ?case by auto
qed

locale inductive_invariant =
  fixes init :: "'s \<Rightarrow> bool"
    and step :: "'s \<Rightarrow> 's \<Rightarrow> bool"
    and inv :: "'s \<Rightarrow> bool"
  assumes inv_init: "init s \<Longrightarrow> inv s"
    and inv_step: "inv s \<Longrightarrow> step s t \<Longrightarrow> inv t"
begin

lemma reach_inv: "reach init step s \<Longrightarrow> inv s"
  by (induction rule: reach.induct) (auto intro: inv_init inv_step)

end

lemma reach_trans: "reach (\<lambda>x. x = s) step t \<Longrightarrow> reach init step s \<Longrightarrow> reach init step t"
  by (induction rule: reach.induct) (auto intro: reach_step)

end
