(* ===== verification/SyncPhase.thy ===== *)
theory SyncPhase
  imports SyncOps Transition
begin

text \<open>
  One phase of the commit protocol with its jobs running at the same time
  (\<open>src/server_operations.cc\<close>): as many jobs as peers, each of which takes a peer under the mutex of
  the \<open>peer_stat\<close>, talks to it, and counts the reply under the mutex; and the master, which goes to
  wait at some point of this. A step is what one thread does under the mutex, or a whole conversation. What
  a peer answers is the parameter \<open>ans\<close> of the model. The theory shows that the outcome does not depend on
  the interleaving, which is why theory \<open>SyncOps\<close> runs the jobs of a phase one after the other, and that
  the wait of the master does.
\<close>

section \<open>The two critical sections\<close>

text \<open>Taking the first peer not yet marked, and counting its reply.\<close>

definition take_mark :: "peer_stat \<Rightarrow> (nat \<times> peer_stat) option" where
  "take_mark peers = (case first_unmarked 0 (peer_addr peers) of
      None \<Rightarrow> None
    | Some mark \<Rightarrow> Some (mark, upd_addr mark (marked_update (\<lambda>_. True)) peers))"

definition count_reply :: "bool \<Rightarrow> peer_stat \<Rightarrow> bool \<times> peer_stat" where
  "count_reply pos peers =
     (let p = (if pos then peers\<lparr>pos_count := pos_count peers + 1\<rparr>
               else peers\<lparr>neg_count := neg_count peers + 1\<rparr>) in (broadcasts p, p))"

text \<open>They are the critical sections of \<open>send_precommit\<close>, around the conversation.\<close>

lemma send_precommit_sections:
  "send_precommit wr junk peers w = (case take_mark peers of
      None \<Rightarrow> Inr (0, False, peers, w)
    | Some (mark, p1) \<Rightarrow>
        let a = peer_addr p1 ! mark;
            (r, w1) = dial wr (ip a) (show_ld (port a)) w;
            sd = word_of_int r :: 64 word;
            p2 = upd_addr mark (peer_port_update (\<lambda>_. sd)) p1
        in if sync_fail sd then Inr (- 1, False, p2, w1)
           else let req = precommit_request (poster (line_a peers)) in
             if ALEN \<le> length req then Inl Out_of_bounds
             else (case get_reply wr junk sd (send_req wr sd req w1) of
                 Inl e \<Rightarrow> Inl e
               | Inr (n, buff, w2) \<Rightarrow>
                   (case count_reply (buff = ''positive'') p2 of (b, p3) \<Rightarrow> Inr (0, b, p3, w2))))"
  unfolding send_precommit_def take_mark_def count_reply_def Let_def
  by (cases "first_unmarked 0 (peer_addr peers)") (simp_all split: prod.split sum.split)

section \<open>Steps\<close>

text \<open>
  What a peer does with its conversation. \<open>Unresolved\<close> is the failure that is not counted. After \<open>Silent\<close>,
  no reply in time, the job writes before its array (theory \<open>SyncFailures\<close>), and has no step here.
\<close>

datatype answer = Positive | Negative | Unresolved | Silent

datatype job_place = Queued | Talking nat | Replied nat | Finished "nat option"

text \<open>
  The master has not looked at the counters yet, waits, goes on, or has woken up by itself, which the
  \<open>if\<close> around \<open>pthread_cond_wait\<close> takes for the broadcast. A wait is marked with whether some reply was
  still to be counted when it began; no step reads the mark. What the master does next, the next phase
  over the same counters, is not part of the relation.
\<close>

datatype master_place = Adding | Waits bool | Past | Woken

record phase_state =
  shared :: peer_stat
  jobs :: "nat \<Rightarrow> job_place"
  master :: master_place

definition wait_guard :: "peer_stat \<Rightarrow> bool" where
  "wait_guard peers \<longleftrightarrow> pos_count peers \<noteq> NO_OF_PEERS peers \<or> neg_count peers \<noteq> NO_OF_PEERS peers \<or>
     pos_count peers + neg_count peers \<noteq> NO_OF_PEERS peers"

definition complete :: "peer_stat \<Rightarrow> bool" where
  "complete peers \<longleftrightarrow> pos_count peers + neg_count peers = NO_OF_PEERS peers"

definition woken :: "bool \<Rightarrow> master_place \<Rightarrow> master_place" where
  "woken b m = (case m of Waits early \<Rightarrow> if b then Past else m | _ \<Rightarrow> m)"

inductive phase_step :: "(nat \<Rightarrow> answer) \<Rightarrow> nat \<Rightarrow> phase_state \<Rightarrow> phase_state \<Rightarrow> bool"
  for ans n where
  take: "j < n \<Longrightarrow> jobs s j = Queued \<Longrightarrow> take_mark (shared s) = Some (mark, p) \<Longrightarrow>
    phase_step ans n s (s\<lparr>shared := p, jobs := (jobs s)(j := Talking mark)\<rparr>)"
| take_none: "j < n \<Longrightarrow> jobs s j = Queued \<Longrightarrow> take_mark (shared s) = None \<Longrightarrow>
    phase_step ans n s (s\<lparr>jobs := (jobs s)(j := Finished None)\<rparr>)"
| talk: "j < n \<Longrightarrow> jobs s j = Talking mark \<Longrightarrow> ans mark = Positive \<or> ans mark = Negative \<Longrightarrow>
    phase_step ans n s (s\<lparr>jobs := (jobs s)(j := Replied mark)\<rparr>)"
| sync_fails: "j < n \<Longrightarrow> jobs s j = Talking mark \<Longrightarrow> ans mark = Unresolved \<Longrightarrow>
    phase_step ans n s (s\<lparr>jobs := (jobs s)(j := Finished (Some mark))\<rparr>)"
| count: "j < n \<Longrightarrow> jobs s j = Replied mark \<Longrightarrow> count_reply (ans mark = Positive) (shared s) = (b, p) \<Longrightarrow>
    phase_step ans n s (s\<lparr>shared := p, jobs := (jobs s)(j := Finished (Some mark)),
      master := woken b (master s)\<rparr>)"
| await: "master s = Adding \<Longrightarrow> wait_guard (shared s) \<Longrightarrow>
    phase_step ans n s (s\<lparr>master := Waits (\<not> complete (shared s))\<rparr>)"
| go_on: "master s = Adding \<Longrightarrow> \<not> wait_guard (shared s) \<Longrightarrow> phase_step ans n s (s\<lparr>master := Past\<rparr>)"
| wake_up: "master s = Waits e \<Longrightarrow> phase_step ans n s (s\<lparr>master := Woken\<rparr>)"

text \<open>A phase starts with nothing marked and nothing counted.\<close>

definition phase_start :: "nat \<Rightarrow> phase_state \<Rightarrow> bool" where
  "phase_start n s \<longleftrightarrow> length (peer_addr (shared s)) = n \<and> list_all (\<lambda>a. \<not> marked a) (peer_addr (shared s)) \<and>
     pos_count (shared s) = 0 \<and> neg_count (shared s) = 0 \<and> jobs s = (\<lambda>_. Queued) \<and> master s = Adding"

lemma start_stat_phase:
  "phase_start (length addrs) \<lparr>shared = start_stat addrs l, jobs = (\<lambda>_. Queued), master = Adding\<rparr>"
  by (simp add: phase_start_def start_stat_def list_all_iff)

lemma reset_stat_phase:
  "phase_start (length (peer_addr p)) \<lparr>shared = reset_stat p, jobs = (\<lambda>_. Queued), master = Adding\<rparr>"
  by (simp add: phase_start_def reset_stat_def list_all_iff)

section \<open>The invariant\<close>

definition holds :: "nat \<Rightarrow> job_place \<Rightarrow> bool" where
  "holds i x \<longleftrightarrow> x = Talking i \<or> x = Replied i \<or> x = Finished (Some i)"

definition counted :: "(nat \<Rightarrow> answer) \<Rightarrow> answer \<Rightarrow> nat \<Rightarrow> phase_state \<Rightarrow> nat set" where
  "counted ans a n s = {i. ans i = a \<and> (\<exists>j<n. jobs s j = Finished (Some i))}"

definition phase_inv :: "(nat \<Rightarrow> answer) \<Rightarrow> nat \<Rightarrow> phase_state \<Rightarrow> bool" where
  "phase_inv ans n s \<longleftrightarrow> length (peer_addr (shared s)) = n \<and>
     (\<forall>i<n. marked (peer_addr (shared s) ! i) \<longleftrightarrow> (\<exists>j<n. holds i (jobs s j))) \<and>
     (\<forall>j<n. \<forall>i. holds i (jobs s j) \<longrightarrow> i < n) \<and>
     (\<forall>j<n. \<forall>k<n. \<forall>i. holds i (jobs s j) \<longrightarrow> holds i (jobs s k) \<longrightarrow> j = k) \<and>
     (\<forall>j<n. \<forall>i. jobs s j = Replied i \<longrightarrow> ans i = Positive \<or> ans i = Negative) \<and>
     (\<forall>j<n. \<forall>i. jobs s j = Finished (Some i) \<longrightarrow> ans i \<noteq> Silent) \<and>
     (\<forall>j<n. jobs s j \<noteq> Finished None) \<and>
     pos_count (shared s) = int (card (counted ans Positive n s)) \<and>
     neg_count (shared s) = int (card (counted ans Negative n s)) \<and>
     (master s = Waits True \<longrightarrow> \<not> complete (shared s))"

lemma phase_invI:
  assumes "length (peer_addr (shared s)) = n"
    and "\<forall>i<n. marked (peer_addr (shared s) ! i) \<longleftrightarrow> (\<exists>j<n. holds i (jobs s j))"
    and "\<forall>j<n. \<forall>i. holds i (jobs s j) \<longrightarrow> i < n"
    and "\<forall>j<n. \<forall>k<n. \<forall>i. holds i (jobs s j) \<longrightarrow> holds i (jobs s k) \<longrightarrow> j = k"
    and "\<forall>j<n. \<forall>i. jobs s j = Replied i \<longrightarrow> ans i = Positive \<or> ans i = Negative"
    and "\<forall>j<n. \<forall>i. jobs s j = Finished (Some i) \<longrightarrow> ans i \<noteq> Silent"
    and "\<forall>j<n. jobs s j \<noteq> Finished None"
    and "pos_count (shared s) = int (card (counted ans Positive n s))"
    and "neg_count (shared s) = int (card (counted ans Negative n s))"
    and "master s = Waits True \<longrightarrow> \<not> complete (shared s)"
  shows "phase_inv ans n s"
  using assms unfolding phase_inv_def by blast

lemma first_unmarked_at:
  "first_unmarked i as = Some m \<Longrightarrow> i \<le> m \<and> m < i + length as \<and> \<not> marked (as ! (m - i))"
proof (induction i as rule: first_unmarked.induct)
  case (2 i a as)
  then show ?case by (cases "marked a") (auto simp: nth_Cons' split: if_splits)
qed simp

lemma first_unmarked_all: "first_unmarked i as = None \<longleftrightarrow> (\<forall>a\<in>set as. marked a)"
  by (induction i as rule: first_unmarked.induct) auto

lemma take_mark_Some:
  assumes "take_mark p = Some (m, p')"
  shows "m < length (peer_addr p) \<and> \<not> marked (peer_addr p ! m) \<and> length (peer_addr p') = length (peer_addr p) \<and>
    (\<forall>i<length (peer_addr p). marked (peer_addr p' ! i) \<longleftrightarrow> i = m \<or> marked (peer_addr p ! i)) \<and>
    pos_count p' = pos_count p \<and> neg_count p' = neg_count p"
  using assms first_unmarked_at [of 0 "peer_addr p" m]
  by (auto simp: take_mark_def upd_addr_def nth_list_update split: option.splits if_splits)

text \<open>With a job left in the queue, some peer is not taken.\<close>

lemma mark_left:
  assumes inv: "phase_inv ans n s" and j: "j < n" "jobs s j = Queued"
  shows "take_mark (shared s) \<noteq> None"
proof
  assume "take_mark (shared s) = None"
  then have "\<forall>a\<in>set (peer_addr (shared s)). marked a"
    by (auto simp: take_mark_def first_unmarked_all split: option.splits)
  then have "\<forall>i<n. \<exists>k<n. holds i (jobs s k)"
    using inv by (auto simp: phase_inv_def)
  then obtain f where f: "\<forall>i<n. f i < n \<and> holds i (jobs s (f i))" by metis
  have "inj_on f {..<n}"
  proof (rule inj_onI)
    fix a b assume "a \<in> {..<n}" "b \<in> {..<n}" "f a = f b"
    then have "a < n" "b < n" "f a = f b" by simp_all
    then have "holds a (jobs s (f a))" "holds b (jobs s (f a))" using f by metis+
    then show "a = b" by (auto simp: holds_def)
  qed
  moreover have "f ` {..<n} \<subseteq> {..<n}" using f by auto
  ultimately have "f ` {..<n} = {..<n}" by (intro endo_inj_surj) auto
  then have "j \<in> f ` {..<n}" using j(1) by simp
  then obtain i where "i < n" "f i = j" by auto
  with f j(2) show False by (auto simp: holds_def)
qed

lemma counted_fin: "finite (counted ans a n s)"
proof -
  have "counted ans a n s \<subseteq> (\<lambda>j. case jobs s j of Finished (Some i) \<Rightarrow> i | _ \<Rightarrow> 0) ` {..<n}"
    by (force simp: counted_def split: job_place.splits option.splits)
  then show ?thesis by (rule finite_subset) simp
qed

text \<open>Moving a job that is not finished, and finishing one.\<close>

lemma counted_move:
  assumes "\<And>i. jobs s j \<noteq> Finished (Some i)" "\<And>i. y \<noteq> Finished (Some i)"
    and "jobs t = (jobs s)(j := y)"
  shows "counted ans a n t = counted ans a n s"
proof -
  have "jobs t k = Finished (Some i) \<longleftrightarrow> jobs s k = Finished (Some i)" for k i
    using assms by (cases "k = j") auto
  then show ?thesis by (simp add: counted_def)
qed

lemma counted_finish:
  assumes "j < n" "\<And>i. jobs s j \<noteq> Finished (Some i)" "jobs t = (jobs s)(j := Finished (Some m))"
  shows "counted ans a n t = (if ans m = a then insert m (counted ans a n s) else counted ans a n s)"
proof -
  have "(\<exists>k<n. jobs t k = Finished (Some i)) \<longleftrightarrow> i = m \<or> (\<exists>k<n. jobs s k = Finished (Some i))" for i
    using assms by (metis fun_upd_apply job_place.inject(3) option.inject)
  then show ?thesis by (auto simp: counted_def)
qed

text \<open>A job that holds a peer keeps it.\<close>

lemma holds_same:
  assumes "holds m x" "holds m y" "f j = x"
  shows "holds i ((f(j := y)) k) \<longleftrightarrow> holds i (f k)"
  using assms by (auto simp: holds_def)

lemma not_counted:
  assumes "phase_inv ans n s" "j < n" "jobs s j = Replied m"
  shows "m \<notin> counted ans a n s"
proof
  assume "m \<in> counted ans a n s"
  then obtain k where "k < n" "jobs s k = Finished (Some m)" by (auto simp: counted_def)
  then have "holds m (jobs s k)" "holds m (jobs s j)" using assms(3) by (simp_all add: holds_def)
  then have "k = j" using assms(1,2) \<open>k < n\<close> unfolding phase_inv_def by blast
  with assms(3) \<open>jobs s k = Finished (Some m)\<close> show False by simp
qed

lemma complete_broadcasts: "complete p \<Longrightarrow> broadcasts p"
  by (simp add: complete_def broadcasts_def)

lemma complete_upd [simp]: "complete (p\<lparr>peer_addr := l\<rparr>) = (pos_count p + neg_count p = int (length l))"
  by (simp add: complete_def NO_OF_PEERS_def)

lemma take_inv:
  assumes inv: "phase_inv ans n s" and j: "j < n" "jobs s j = Queued" and t: "take_mark (shared s) = Some (m, p)"
  shows "phase_inv ans n (s\<lparr>shared := p, jobs := (jobs s)(j := Talking m)\<rparr>)"
proof -
  let ?t = "s\<lparr>shared := p, jobs := (jobs s)(j := Talking m)\<rparr>"
  have c: "counted ans a n ?t = counted ans a n s" for a
    by (rule counted_move [where j = j and y = "Talking m"]) (simp_all add: j(2))
  have m: "m < n" "\<not> marked (peer_addr (shared s) ! m)" "length (peer_addr p) = n"
    "\<forall>i<n. marked (peer_addr p ! i) \<longleftrightarrow> i = m \<or> marked (peer_addr (shared s) ! i)"
    "pos_count p = pos_count (shared s)" "neg_count p = neg_count (shared s)"
    using take_mark_Some [OF t] inv by (auto simp: phase_inv_def)
  have free: "\<forall>k<n. \<not> holds m (jobs s k)" using m(1,2) inv by (auto simp: phase_inv_def)
  have h: "holds i (jobs ?t k) \<longleftrightarrow> (if k = j then i = m else holds i (jobs s k))" for i k
    by (auto simp: holds_def)
  have q: "\<not> holds i (jobs s j)" for i using j(2) by (simp add: holds_def)
  have old: "\<forall>i<n. marked (peer_addr (shared s) ! i) \<longleftrightarrow> (\<exists>k<n. holds i (jobs s k))"
    using inv by (simp add: phase_inv_def)
  have ex: "(\<exists>k<n. holds i (jobs ?t k)) \<longleftrightarrow> i = m \<or> (\<exists>k<n. holds i (jobs s k))" for i
    unfolding h using j(1) q by metis
  have "\<forall>i<n. marked (peer_addr p ! i) \<longleftrightarrow> (\<exists>k<n. holds i (jobs ?t k))"
    unfolding ex using old m(4) by simp
  moreover have "\<forall>k<n. \<forall>i. holds i (jobs ?t k) \<longrightarrow> i < n"
    using inv m(1) unfolding phase_inv_def h by simp
  moreover have "\<forall>k<n. \<forall>l<n. \<forall>i. holds i (jobs ?t k) \<longrightarrow> holds i (jobs ?t l) \<longrightarrow> k = l"
  proof (intro allI impI)
    fix k l i
    assume kl: "k < n" "l < n" "holds i (jobs ?t k)" "holds i (jobs ?t l)"
    have old: "holds i (jobs s k) \<Longrightarrow> holds i (jobs s l) \<Longrightarrow> k = l"
      using inv kl(1,2) unfolding phase_inv_def by blast
    show "k = l"
    proof (rule ccontr)
      assume "k \<noteq> l"
      with kl(3,4) old have "i = m \<and> (holds i (jobs s k) \<or> holds i (jobs s l))"
        unfolding h by (auto split: if_splits)
      with free kl(1,2) show False by blast
    qed
  qed
  moreover have "complete p = complete (shared s)"
    using m(3,5,6) inv by (simp add: complete_def NO_OF_PEERS_def phase_inv_def)
  moreover have "\<forall>k<n. \<forall>i. jobs ?t k = Replied i \<longrightarrow> ans i = Positive \<or> ans i = Negative"
    "\<forall>k<n. \<forall>i. jobs ?t k = Finished (Some i) \<longrightarrow> ans i \<noteq> Silent" "\<forall>k<n. jobs ?t k \<noteq> Finished None"
    using inv unfolding phase_inv_def by auto
  moreover have "pos_count (shared s) = int (card (counted ans Positive n s))"
    "neg_count (shared s) = int (card (counted ans Negative n s))" "master s = Waits True \<longrightarrow> \<not> complete (shared s)"
    using inv unfolding phase_inv_def by blast+
  moreover have "shared ?t = p" "master ?t = master s" by simp_all
  ultimately show ?thesis
    by (intro phase_invI) (simp_all only: m(3,5,6) c simp_thms)
qed

lemma move_inv:
  assumes inv: "phase_inv ans n s" and j: "j < n" and h: "holds m (jobs s j)" "holds m y"
    and y: "jobs s j \<noteq> Finished (Some m)" "\<forall>i. y = Replied i \<longrightarrow> ans i = Positive \<or> ans i = Negative"
    and c: "y \<noteq> Finished (Some m) \<or> ans m = Unresolved"
  shows "phase_inv ans n (s\<lparr>jobs := (jobs s)(j := y)\<rparr>)"
proof -
  let ?t = "s\<lparr>jobs := (jobs s)(j := y)\<rparr>"
  have hs: "holds i (jobs ?t k) \<longleftrightarrow> holds i (jobs s k)" for i k
    using holds_same [OF h, of "jobs s" j] by simp
  have nf: "jobs s j \<noteq> Finished (Some i)" for i using h(1) y(1) by (auto simp: holds_def)
  have cs: "counted ans a n ?t = counted ans a n s" if "a \<noteq> Unresolved" for a
  proof (cases "y = Finished (Some m)")
    case True
    with c that show ?thesis using counted_finish [OF j nf, of ?t m ans a] by simp
  next
    case False
    then have "y \<noteq> Finished (Some i)" for i using h(2) by (auto simp: holds_def)
    then show ?thesis using counted_move [OF nf, of y ?t] by simp
  qed
  have "y \<noteq> Finished None" "\<forall>i. y = Finished (Some i) \<longrightarrow> ans i \<noteq> Silent"
    using h(2) c by (auto simp: holds_def)
  then show ?thesis
    using inv y(2) unfolding phase_inv_def hs by (simp add: cs [simplified])
qed

lemma count_inv:
  assumes inv: "phase_inv ans n s" and j: "j < n" "jobs s j = Replied m"
    and c: "count_reply (ans m = Positive) (shared s) = (b, p)"
  shows "phase_inv ans n (s\<lparr>shared := p, jobs := (jobs s)(j := Finished (Some m)), master := woken b (master s)\<rparr>)"
proof -
  let ?t = "s\<lparr>shared := p, jobs := (jobs s)(j := Finished (Some m)), master := woken b (master s)\<rparr>"
  have hold: "holds m (jobs s j)" "holds m (Finished (Some m))" using j(2) by (simp_all add: holds_def)
  have hs: "holds i (jobs ?t k) \<longleftrightarrow> holds i (jobs s k)" for i k
    using holds_same [OF hold, of "jobs s" j] by simp
  have cnt: "counted ans a n ?t = (if ans m = a then insert m (counted ans a n s) else counted ans a n s)" for a
    by (rule counted_finish [OF j(1)]) (simp_all add: j(2))
  have new: "m \<notin> counted ans a n s" for a using not_counted [OF inv j] .
  have r: "ans m = Positive \<or> ans m = Negative"
    using inv j unfolding phase_inv_def by blast
  have p: "peer_addr p = peer_addr (shared s)" "b = broadcasts p"
    "pos_count p = pos_count (shared s) + of_bool (ans m = Positive)"
    "neg_count p = neg_count (shared s) + of_bool (ans m = Negative)"
    using c r by (auto simp: count_reply_def Let_def)
  have "int (card (counted ans a n ?t)) = int (card (counted ans a n s)) + of_bool (ans m = a)" for a
    using new counted_fin by (simp add: cnt)
  then have "pos_count p = int (card (counted ans Positive n ?t))" "neg_count p = int (card (counted ans Negative n ?t))"
    using inv p by (simp_all add: phase_inv_def)
  moreover have "ans m \<noteq> Silent" using r by auto
  moreover have "woken b (master s) = Waits True \<longrightarrow> \<not> complete p"
    using p(2) complete_broadcasts by (auto simp: woken_def split: master_place.splits if_splits)
  ultimately show ?thesis
    using inv unfolding phase_inv_def hs by (simp add: p(1))
qed

lemma phase_start_inv: "phase_start n s \<Longrightarrow> phase_inv ans n s"
  by (auto simp: phase_start_def phase_inv_def holds_def counted_def list_all_iff)

lemma phase_step_inv:
  assumes "phase_inv ans n s" and "phase_step ans n s t"
  shows "phase_inv ans n t"
  using assms(2)
proof cases
  case (take j m p)
  then show ?thesis using take_inv [OF assms(1)] by blast
next
  case (take_none j)
  then show ?thesis using mark_left [OF assms(1)] by blast
next
  case (talk j m)
  then show ?thesis using move_inv [OF assms(1) talk(2), of m "Replied m"] by (simp add: holds_def)
next
  case (sync_fails j m)
  then show ?thesis using move_inv [OF assms(1) sync_fails(2), of m "Finished (Some m)"] by (simp add: holds_def)
next
  case (count j m b p)
  then show ?thesis using count_inv [OF assms(1)] by blast
qed (use assms(1) in \<open>auto simp: phase_inv_def counted_def\<close>)

interpretation ph: inductive_invariant "phase_start n" "phase_step ans n" "phase_inv ans n"
  for n :: nat and ans :: "nat \<Rightarrow> answer"
  by unfold_locales (auto intro: phase_start_inv phase_step_inv)

section \<open>What a phase does\<close>

definition all_finished :: "nat \<Rightarrow> phase_state \<Rightarrow> bool" where
  "all_finished n s \<longleftrightarrow> (\<forall>j<n. \<exists>x. jobs s j = Finished x)"

lemma finished_all_peers:
  assumes inv: "phase_inv ans n s" and fin: "all_finished n s"
  shows "(\<exists>j<n. jobs s j = Finished (Some i)) \<longleftrightarrow> i < n"
proof -
  have "\<forall>j<n. \<exists>i. jobs s j = Finished (Some i)"
    using fin inv unfolding all_finished_def phase_inv_def by (metis not_Some_eq)
  then obtain f where f: "\<forall>j<n. jobs s j = Finished (Some (f j))" by metis
  have "inj_on f {..<n}"
  proof (rule inj_onI)
    fix j k assume "j \<in> {..<n}" "k \<in> {..<n}" "f j = f k"
    then have "j < n" "k < n" "holds (f j) (jobs s j)" "holds (f j) (jobs s k)"
      using f by (simp_all add: holds_def)
    then show "j = k" using inv unfolding phase_inv_def by blast
  qed
  moreover have "f ` {..<n} \<subseteq> {..<n}"
  proof
    fix i assume "i \<in> f ` {..<n}"
    then obtain j where "j < n" "i = f j" by auto
    then have "holds i (jobs s j)" using f by (simp add: holds_def)
    then show "i \<in> {..<n}" using inv \<open>j < n\<close> unfolding phase_inv_def by blast
  qed
  ultimately have surj: "f ` {..<n} = {..<n}" by (intro endo_inj_surj) auto
  show ?thesis
  proof
    assume "i < n"
    then have "i \<in> f ` {..<n}" using surj by simp
    then show "\<exists>j<n. jobs s j = Finished (Some i)" using f by auto
  next
    assume "\<exists>j<n. jobs s j = Finished (Some i)"
    then obtain j where "j < n" "i = f j" using f by auto
    then show "i < n" using surj by auto
  qed
qed

text \<open>
  Property C14: the outcome of a phase does not depend on how its jobs interleave: no two jobs ever hold
  the same peer, and when all jobs have ended, every peer was taken by exactly one, and the counters are
  the numbers of peers with a positive and a negative answer.
\<close>

theorem phase_outcome:
  assumes "reach (phase_start n) (phase_step ans n) s"
  shows "(\<forall>j<n. \<forall>k<n. \<forall>i. holds i (jobs s j) \<and> holds i (jobs s k) \<longrightarrow> j = k) \<and>
    (all_finished n s \<longrightarrow> (\<forall>i<n. \<exists>!j. j < n \<and> jobs s j = Finished (Some i)) \<and>
       pos_count (shared s) = int (card {i. i < n \<and> ans i = Positive}) \<and>
       neg_count (shared s) = int (card {i. i < n \<and> ans i = Negative}))"
proof -
  have inv: "phase_inv ans n s" by (rule ph.reach_inv [OF assms])
  then have own: "\<forall>j<n. \<forall>k<n. \<forall>i. holds i (jobs s j) \<longrightarrow> holds i (jobs s k) \<longrightarrow> j = k"
    unfolding phase_inv_def by blast
  have "(\<forall>i<n. \<exists>!j. j < n \<and> jobs s j = Finished (Some i)) \<and>
       pos_count (shared s) = int (card {i. i < n \<and> ans i = Positive}) \<and>
       neg_count (shared s) = int (card {i. i < n \<and> ans i = Negative})" if fin: "all_finished n s"
  proof -
    note all = finished_all_peers [OF inv fin]
    have "counted ans a n s = {i. i < n \<and> ans i = a}" for a
      unfolding counted_def all by auto
    then have "pos_count (shared s) = int (card {i. i < n \<and> ans i = Positive})"
      "neg_count (shared s) = int (card {i. i < n \<and> ans i = Negative})"
      using inv by (simp_all add: phase_inv_def)
    moreover have "\<exists>!j. j < n \<and> jobs s j = Finished (Some i)" if i: "i < n" for i
    proof -
      obtain j where j: "j < n" "jobs s j = Finished (Some i)" using all [of i] i by auto
      moreover have "k = j" if "k < n" "jobs s k = Finished (Some i)" for k
        using own j that by (simp add: holds_def)
      ultimately show ?thesis by blast
    qed
    ultimately show ?thesis by blast
  qed
  with own show ?thesis by blast
qed

text \<open>
  Property C17: when the jobs of a phase have all ended, a master that still waits was missed by the
  broadcasts: it went to wait after the last reply was counted, or some peer could not be resolved and was
  not counted. Nothing will wake it then: the only step left is that the wait returns by itself.
\<close>

theorem phase_wait:
  assumes "reach (phase_start n) (phase_step ans n) s" and "all_finished n s"
  shows "((\<forall>i<n. ans i \<noteq> Unresolved) \<longrightarrow> master s \<noteq> Waits True) \<and>
    (\<forall>e t. master s = Waits e \<longrightarrow> phase_step ans n s t \<longrightarrow> t = s\<lparr>master := Woken\<rparr>)"
proof -
  have inv: "phase_inv ans n s" by (rule ph.reach_inv [OF assms(1)])
  have "complete (shared s)" if r: "\<forall>i<n. ans i \<noteq> Unresolved"
  proof -
    have c: "counted ans a n s = {i. i < n \<and> ans i = a}" for a
      unfolding counted_def finished_all_peers [OF inv assms(2)] by auto
    have "ans i \<noteq> Silent" if "i < n" for i
      using inv finished_all_peers [OF inv assms(2), of i] that unfolding phase_inv_def by blast
    then have "ans i = Positive \<or> ans i = Negative" if "i < n" for i
      using r that by (cases "ans i") auto
    then have "{i. i < n \<and> ans i = Positive} \<union> {i. i < n \<and> ans i = Negative} = {..<n}"
      by auto
    moreover have "{i. i < n \<and> ans i = Positive} \<inter> {i. i < n \<and> ans i = Negative} = {}" by auto
    ultimately have "card {i. i < n \<and> ans i = Positive} + card {i. i < n \<and> ans i = Negative} = n"
      by (metis card_Un_disjoint card_lessThan finite_Un finite_lessThan)
    then show ?thesis
      using inv by (simp add: complete_def NO_OF_PEERS_def phase_inv_def c flip: of_nat_add)
  qed
  then have "(\<forall>i<n. ans i \<noteq> Unresolved) \<longrightarrow> master s \<noteq> Waits True"
    using inv by (auto simp: phase_inv_def)
  moreover have "t = s\<lparr>master := Woken\<rparr>" if m: "master s = Waits e" and step: "phase_step ans n s t" for e t
    using step m assms(2) by cases (auto simp: all_finished_def)
  ultimately show ?thesis by blast
qed

text \<open>One peer that agrees, and a master that goes to wait when the reply has been counted.\<close>

definition lone_addr :: "bool \<Rightarrow> peer_stat_address" where
  "lone_addr m = \<lparr>port = 1, ip = [], marked = m, peer_port = 0, dont_reissue = False\<rparr>"

definition lone_stat :: "bool \<Rightarrow> int \<Rightarrow> peer_stat" where
  "lone_stat m k = \<lparr>pos_count = k, neg_count = 0, line_a = \<lparr>msg_nmbr = [], poster = [], message = []\<rparr>,
     peer_addr = [lone_addr m], writer = False, replacer = False\<rparr>"

definition late_wait :: phase_state where
  "late_wait = \<lparr>shared = lone_stat True 1, jobs = (\<lambda>_. Queued)(0 := Finished (Some 0)), master = Waits False\<rparr>"

lemma late_wait_reach: "reach (phase_start 1) (phase_step (\<lambda>_. Positive) 1) late_wait"
proof -
  let ?st = "\<lambda>p x m. \<lparr>shared = p, jobs = (\<lambda>_. Queued)(0 := x), master = m\<rparr>"
  have "phase_start 1 (?st (lone_stat False 0) Queued Adding)"
    by (simp add: phase_start_def lone_stat_def lone_addr_def fun_upd_idem)
  then have r0: "reach (phase_start 1) (phase_step (\<lambda>_. Positive) 1) (?st (lone_stat False 0) Queued Adding)"
    by (rule reach_init)
  have "take_mark (lone_stat False 0) = Some (0, lone_stat True 0)"
    by (simp add: take_mark_def lone_stat_def lone_addr_def upd_addr_def)
  then have "phase_step (\<lambda>_. Positive) 1 (?st (lone_stat False 0) Queued Adding) (?st (lone_stat True 0) (Talking 0) Adding)"
    using take [of 0 1 "?st (lone_stat False 0) Queued Adding" 0 "lone_stat True 0"] by simp
  from reach_step [OF r0 this]
  have r1: "reach (phase_start 1) (phase_step (\<lambda>_. Positive) 1) (?st (lone_stat True 0) (Talking 0) Adding)" .
  have "phase_step (\<lambda>_. Positive) 1 (?st (lone_stat True 0) (Talking 0) Adding) (?st (lone_stat True 0) (Replied 0) Adding)"
    using talk [of 0 1 "?st (lone_stat True 0) (Talking 0) Adding" 0] by simp
  from reach_step [OF r1 this]
  have r2: "reach (phase_start 1) (phase_step (\<lambda>_. Positive) 1) (?st (lone_stat True 0) (Replied 0) Adding)" .
  have "count_reply True (lone_stat True 0) = (True, lone_stat True 1)"
    by (simp add: count_reply_def lone_stat_def broadcasts_def NO_OF_PEERS_def Let_def)
  then have "phase_step (\<lambda>_. Positive) 1 (?st (lone_stat True 0) (Replied 0) Adding)
      (?st (lone_stat True 1) (Finished (Some 0)) Adding)"
    using count [of 0 1 "?st (lone_stat True 0) (Replied 0) Adding" 0 "\<lambda>_. Positive" True "lone_stat True 1"]
    by (simp add: woken_def)
  from reach_step [OF r2 this]
  have r3: "reach (phase_start 1) (phase_step (\<lambda>_. Positive) 1) (?st (lone_stat True 1) (Finished (Some 0)) Adding)" .
  have "phase_step (\<lambda>_. Positive) 1 (?st (lone_stat True 1) (Finished (Some 0)) Adding) late_wait"
    using await [of "?st (lone_stat True 1) (Finished (Some 0)) Adding" "\<lambda>_. Positive" 1]
    by (simp add: late_wait_def wait_guard_def complete_def NO_OF_PEERS_def lone_stat_def)
  from reach_step [OF r3 this] show ?thesis .
qed

lemma late_wait_finished: "all_finished 1 late_wait"
  by (simp add: all_finished_def late_wait_def)

theorem phase_outcome_witness: "pos_count (shared late_wait) = int (card {i::nat. i < 1})"
  using phase_outcome [OF late_wait_reach] late_wait_finished by simp

theorem phase_wait_witness:
  "master late_wait = Waits False \<and> \<not> phase_step (\<lambda>_. Positive) 1 late_wait (late_wait\<lparr>master := Past\<rparr>)"
proof -
  have w: "master late_wait = Waits False" by (simp add: late_wait_def)
  have "late_wait\<lparr>master := Past\<rparr> \<noteq> late_wait\<lparr>master := Woken\<rparr>" by (simp add: late_wait_def)
  with w phase_wait [OF late_wait_reach late_wait_finished] show ?thesis by blast
qed

end
