(* ===== verification/FileLock.thy ===== *)
theory FileLock
  imports Transition
begin

text \<open>
  The concurrent access to the board file (\<open>file_queue_a\<close> of \<open>src/descriptor.cc\<close>): the mutex
  \<open>access_file_queue\<close>, the counter \<open>reads\<close> and the condition \<open>can_write\<close>, used by
  \<open>read_descriptor\<close> and \<open>write_descriptor\<close>. The other functions that open the board file take no lock:
  \<open>delete_descriptor\<close> (which is also the first half of \<open>replace_descriptor\<close>), \<open>read_tokenized_descriptor\<close>,
  \<open>generate_number\<close> and \<open>housekeep_descriptor\<close>. Threads are numbered by \<open>nat\<close>; any thread may run any of
  the functions at any time.

  A step is what a thread does between two points where others can interfere. The condition may
  wake its waiters without a broadcast.
\<close>

section \<open>State and steps\<close>

datatype unlocked = Delete | Read_tokenized | Generate | Housekeeping

datatype pc =
    Idle
  | R_lock | R_locked | Reading | R_unlock | R_unlocked
  | W_lock | W_locked | W_wait | W_woken | Writing
  | Unlocked unlocked

record flock =
  pcs :: "nat \<Rightarrow> pc"
  owner :: "nat option"
  reads :: nat

definition flock_init :: "flock \<Rightarrow> bool" where
  "flock_init s \<longleftrightarrow> s = \<lparr>pcs = (\<lambda>_. Idle), owner = None, reads = 0\<rparr>"

definition broadcast :: "(nat \<Rightarrow> pc) \<Rightarrow> nat \<Rightarrow> pc" where
  "broadcast p = (\<lambda>j. if p j = W_wait then W_woken else p j)"

text \<open>\<open>read_descriptor\<close>, \<open>write_descriptor\<close>, and the functions without a lock.\<close>

inductive read_step :: "flock \<Rightarrow> flock \<Rightarrow> bool" where
  call_read: "pcs s i = Idle \<Longrightarrow> read_step s (s\<lparr>pcs := (pcs s)(i := R_lock)\<rparr>)"
| read_lock: "pcs s i = R_lock \<Longrightarrow> owner s = None \<Longrightarrow>
    read_step s (s\<lparr>pcs := (pcs s)(i := R_locked), owner := Some i\<rparr>)"
| read_inc: "pcs s i = R_locked \<Longrightarrow>
    read_step s (s\<lparr>pcs := (pcs s)(i := Reading), owner := None, reads := reads s + 1\<rparr>)"
| read_done: "pcs s i = Reading \<Longrightarrow> read_step s (s\<lparr>pcs := (pcs s)(i := R_unlock)\<rparr>)"
| read_relock: "pcs s i = R_unlock \<Longrightarrow> owner s = None \<Longrightarrow>
    read_step s (s\<lparr>pcs := (pcs s)(i := R_unlocked), owner := Some i\<rparr>)"
| read_dec: "pcs s i = R_unlocked \<Longrightarrow>
    read_step s (s\<lparr>pcs := (if reads s - 1 = 0 then broadcast else id) ((pcs s)(i := Idle)),
      owner := None, reads := reads s - 1\<rparr>)"

inductive write_step :: "flock \<Rightarrow> flock \<Rightarrow> bool" where
  call_write: "pcs s i = Idle \<Longrightarrow> write_step s (s\<lparr>pcs := (pcs s)(i := W_lock)\<rparr>)"
| write_lock: "pcs s i \<in> {W_lock, W_woken} \<Longrightarrow> owner s = None \<Longrightarrow>
    write_step s (s\<lparr>pcs := (pcs s)(i := W_locked), owner := Some i\<rparr>)"
| write_wait: "pcs s i = W_locked \<Longrightarrow> reads s \<noteq> 0 \<Longrightarrow>
    write_step s (s\<lparr>pcs := (pcs s)(i := W_wait), owner := None\<rparr>)"
| wake_up: "pcs s i = W_wait \<Longrightarrow> write_step s (s\<lparr>pcs := (pcs s)(i := W_woken)\<rparr>)"
| write_go: "pcs s i = W_locked \<Longrightarrow> reads s = 0 \<Longrightarrow>
    write_step s (s\<lparr>pcs := (pcs s)(i := Writing)\<rparr>)"
| write_done: "pcs s i = Writing \<Longrightarrow>
    write_step s (s\<lparr>pcs := broadcast ((pcs s)(i := Idle)), owner := None\<rparr>)"

inductive unlocked_step :: "flock \<Rightarrow> flock \<Rightarrow> bool" where
  call_unlocked: "pcs s i = Idle \<Longrightarrow> unlocked_step s (s\<lparr>pcs := (pcs s)(i := Unlocked u)\<rparr>)"
| unlocked_done: "pcs s i = Unlocked u \<Longrightarrow> unlocked_step s (s\<lparr>pcs := (pcs s)(i := Idle)\<rparr>)"

inductive file_step :: "flock \<Rightarrow> flock \<Rightarrow> bool" where
  reading: "read_step s t \<Longrightarrow> file_step s t"
| writing: "write_step s t \<Longrightarrow> file_step s t"
| outside: "unlocked_step s t \<Longrightarrow> file_step s t"

section \<open>The invariant\<close>

definition counted :: "pc \<Rightarrow> bool" where
  "counted p \<longleftrightarrow> p \<in> {Reading, R_unlock, R_unlocked}"

definition holding :: "pc \<Rightarrow> bool" where
  "holding p \<longleftrightarrow> p \<in> {R_locked, R_unlocked, W_locked, Writing}"

definition readers :: "flock \<Rightarrow> nat set" where
  "readers s = {i. counted (pcs s i)}"

definition flock_inv :: "flock \<Rightarrow> bool" where
  "flock_inv s \<longleftrightarrow> finite (readers s) \<and> reads s = card (readers s) \<and>
     (\<forall>i. owner s = Some i \<longleftrightarrow> holding (pcs s i)) \<and>
     (\<forall>i. pcs s i = Writing \<longrightarrow> reads s = 0) \<and>
     (\<forall>i. pcs s i = W_wait \<longrightarrow> reads s \<noteq> 0)"

lemmas pc_defs = counted_def holding_def

lemma broadcast_facts [simp]:
  "counted (broadcast p j) = counted (p j)"
  "holding (broadcast p j) = holding (p j)"
  "broadcast p j = Writing \<longleftrightarrow> p j = Writing"
  "broadcast p j \<noteq> W_wait"
  by (simp_all add: broadcast_def pc_defs)

lemma readers_frame:
  "counted (pcs s i) = counted p \<Longrightarrow> readers (s\<lparr>pcs := (pcs s)(i := p)\<rparr>) = readers s"
  by (auto simp: readers_def)

lemma readers_more [simp]:
  "readers (s\<lparr>owner := o1\<rparr>) = readers s" "readers (s\<lparr>reads := r\<rparr>) = readers s"
  "readers (s\<lparr>pcs := p, owner := o1\<rparr>) = readers (s\<lparr>pcs := p\<rparr>)"
  "readers (s\<lparr>pcs := p, owner := o1, reads := r\<rparr>) = readers (s\<lparr>pcs := p\<rparr>)"
  by (simp_all add: readers_def)

lemma readers_broadcast [simp]: "readers (s\<lparr>pcs := broadcast p\<rparr>) = readers (s\<lparr>pcs := p\<rparr>)"
  by (simp add: readers_def)

lemma readers_enter:
  "\<not> counted (pcs s i) \<Longrightarrow> counted p \<Longrightarrow> readers (s\<lparr>pcs := (pcs s)(i := p)\<rparr>) = insert i (readers s)"
  by (auto simp: readers_def)

lemma readers_leave:
  "\<not> counted p \<Longrightarrow> readers (s\<lparr>pcs := (pcs s)(i := p)\<rparr>) = readers s - {i}"
  by (auto simp: readers_def)

lemma flock_init_inv: "flock_init s \<Longrightarrow> flock_inv s"
  by (simp add: flock_init_def flock_inv_def readers_def pc_defs)

text \<open>A move of one thread between program points that are counted alike.\<close>

lemma inv_move:
  assumes inv: "flock_inv s" and c: "counted (pcs s i) = counted p"
    and own: "\<forall>j. own' = Some j \<longleftrightarrow> holding (((pcs s)(i := p)) j)"
    and w: "p = Writing \<longrightarrow> reads s = 0" "p = W_wait \<longrightarrow> reads s \<noteq> 0"
  shows "flock_inv (s\<lparr>pcs := (pcs s)(i := p), owner := own'\<rparr>)"
  using assms by (auto simp: flock_inv_def readers_frame [OF c])

lemma inv_holder: "flock_inv s \<Longrightarrow> holding (pcs s i) \<Longrightarrow> owner s = Some i"
  by (simp add: flock_inv_def)

lemma inv_holder_eq: "flock_inv s \<Longrightarrow> holding (pcs s i) \<Longrightarrow> holding (pcs s j) \<Longrightarrow> i = j"
  by (metis inv_holder option.inject)

lemma inv_free: "flock_inv s \<Longrightarrow> owner s = None \<Longrightarrow> \<not> holding (pcs s j)"
  by (metis inv_holder option.distinct(1))

text \<open>Taking the mutex, keeping it, giving it up, or never having it.\<close>

lemma own_take: "flock_inv s \<Longrightarrow> owner s = None \<Longrightarrow> holding p \<Longrightarrow>
    \<forall>j. Some i = Some j \<longleftrightarrow> holding (((pcs s)(i := p)) j)"
  by (auto dest: inv_free)

lemma own_give: "flock_inv s \<Longrightarrow> holding (pcs s i) \<Longrightarrow> \<not> holding p \<Longrightarrow>
    \<forall>j. None = Some j \<longleftrightarrow> holding (((pcs s)(i := p)) j)"
  by (auto dest: inv_holder_eq)

lemma own_keep: "flock_inv s \<Longrightarrow> holding (pcs s i) = holding p \<Longrightarrow>
    \<forall>j. owner s = Some j \<longleftrightarrow> holding (((pcs s)(i := p)) j)"
  by (auto simp: flock_inv_def)

lemma inv_move_keep:
  assumes "flock_inv s" "counted (pcs s i) = counted p" "holding (pcs s i) = holding p"
    and "p = Writing \<longrightarrow> reads s = 0" "p = W_wait \<longrightarrow> reads s \<noteq> 0"
  shows "flock_inv (s\<lparr>pcs := (pcs s)(i := p)\<rparr>)"
  using inv_move [OF assms(1,2) own_keep [OF assms(1,3)] assms(4,5)] by simp

lemma inv_broadcast:
  "flock_inv (s\<lparr>pcs := p, owner := o1\<rparr>) \<Longrightarrow> flock_inv (s\<lparr>pcs := broadcast p, owner := o1\<rparr>)"
  by (auto simp: flock_inv_def)

lemma inv_read_inc:
  assumes inv: "flock_inv s" and i: "pcs s i = R_locked"
  shows "flock_inv (s\<lparr>pcs := (pcs s)(i := Reading), owner := None, reads := reads s + 1\<rparr>)"
proof -
  have "readers (s\<lparr>pcs := (pcs s)(i := Reading)\<rparr>) = insert i (readers s)" "i \<notin> readers s"
    using i by (auto simp: readers_def counted_def)
  moreover have "pcs s j \<noteq> Writing" for j
  proof
    assume w: "pcs s j = Writing"
    then have "i = j" using i by (intro inv_holder_eq [OF inv]) (auto simp: holding_def)
    with w i show False by simp
  qed
  ultimately show ?thesis
    using inv own_give [OF inv, of i Reading] i by (auto simp: flock_inv_def holding_def)
qed

lemma inv_read_dec:
  assumes inv: "flock_inv s" and i: "pcs s i = R_unlocked"
  shows "flock_inv (s\<lparr>pcs := (if reads s - 1 = 0 then broadcast else id) ((pcs s)(i := Idle)),
    owner := None, reads := reads s - 1\<rparr>)"
proof -
  let ?r = "readers (s\<lparr>pcs := (pcs s)(i := Idle)\<rparr>)"
  have r: "?r = readers s - {i}" "i \<in> readers s" by (auto simp: readers_def counted_def i)
  then have c: "reads s - 1 = card ?r" "finite ?r" using inv by (auto simp: flock_inv_def)
  have own: "\<not> holding (((pcs s)(i := Idle)) j)" for j
    using own_give [OF inv, of i Idle] i by (auto simp: holding_def)
  have nw: "pcs s j \<noteq> Writing" for j
    using own [of j] i by (cases "j = i") (auto simp: holding_def)
  show ?thesis
  proof (cases "reads s - 1 = 0")
    case True
    then show ?thesis using c own nw by (simp add: flock_inv_def fun_upd_def [symmetric] split: if_splits)
  next
    case False
    then show ?thesis using c own nw inv by (simp add: flock_inv_def split: if_splits)
  qed
qed

lemma flock_inv_read:
  assumes inv: "flock_inv s" and step: "read_step s t"
  shows "flock_inv t"
  using step
proof cases
  case (read_lock i)
  show ?thesis unfolding read_lock(1)
    by (rule inv_move [OF inv _ own_take [OF inv read_lock(3)]]) (simp_all add: pc_defs read_lock)
next
  case (read_inc i)
  with inv inv_read_inc show ?thesis by blast
next
  case (read_relock i)
  show ?thesis unfolding read_relock(1)
    by (rule inv_move [OF inv _ own_take [OF inv read_relock(3)]]) (simp_all add: pc_defs read_relock)
next
  case (read_dec i)
  with inv show ?thesis using inv_read_dec by blast
qed (use inv in \<open>simp; rule inv_move_keep; simp add: pc_defs\<close>)+

lemma flock_inv_write:
  assumes inv: "flock_inv s" and step: "write_step s t"
  shows "flock_inv t"
  using step
proof cases
  case (write_lock i)
  show ?thesis unfolding write_lock(1)
    by (rule inv_move [OF inv _ own_take [OF inv write_lock(3)]])
      (use write_lock in \<open>auto simp: pc_defs\<close>)
next
  case (write_wait i)
  show ?thesis unfolding write_wait(1)
    by (rule inv_move [OF inv _ own_give [OF inv]]) (use write_wait in \<open>auto simp: pc_defs\<close>)
next
  case (write_done i)
  have "flock_inv (s\<lparr>pcs := (pcs s)(i := Idle), owner := None\<rparr>)"
    by (rule inv_move [OF inv _ own_give [OF inv]]) (simp_all add: pc_defs write_done)
  from inv_broadcast [OF this] write_done show ?thesis by simp
qed (use inv in \<open>simp; rule inv_move_keep; simp add: pc_defs\<close>)+

lemma flock_inv_unlocked:
  assumes inv: "flock_inv s" and step: "unlocked_step s t"
  shows "flock_inv t"
  using step by cases (use inv in \<open>simp; rule inv_move_keep; simp add: pc_defs\<close>)+

lemma flock_inv_step: "flock_inv s \<Longrightarrow> file_step s t \<Longrightarrow> flock_inv t"
  by (erule file_step.cases) (auto intro: flock_inv_read flock_inv_write flock_inv_unlocked)

interpretation fl: inductive_invariant flock_init file_step flock_inv
  by unfold_locales (auto intro: flock_init_inv flock_inv_step)

section \<open>What the lock guarantees\<close>



text \<open>A run of one writer, and of two readers, for the witnesses.\<close>

definition start :: flock where
  "start = \<lparr>pcs = (\<lambda>_. Idle), owner = None, reads = 0\<rparr>"

lemma start_reach: "reach flock_init file_step start"
  by (rule reach_init) (simp add: flock_init_def start_def)

lemma reach_writing: "reach flock_init file_step (start\<lparr>pcs := (\<lambda>_. Idle)(0 := Writing), owner := Some 0\<rparr>)"
proof -
  have "reach flock_init file_step (start\<lparr>pcs := (\<lambda>_. Idle)(0 := W_lock)\<rparr>)"
    using reach_step [OF start_reach writing [OF call_write [of start 0]]] by (simp add: start_def)
  from reach_step [OF this writing [OF write_lock [of _ 0]]]
  have "reach flock_init file_step (start\<lparr>pcs := (\<lambda>_. Idle)(0 := W_locked), owner := Some 0\<rparr>)"
    by (simp add: start_def)
  from reach_step [OF this writing [OF write_go [of _ 0]]] show ?thesis by (simp add: start_def)
qed


lemma reach_reading: "reach flock_init file_step (start\<lparr>pcs := (\<lambda>_. Idle)(0 := Reading), reads := 1\<rparr>)"
proof -
  have "reach flock_init file_step (start\<lparr>pcs := (\<lambda>_. Idle)(0 := R_lock)\<rparr>)"
    using reach_step [OF start_reach reading [OF call_read [of start 0]]] by (simp add: start_def)
  from reach_step [OF this reading [OF read_lock [of _ 0]]]
  have "reach flock_init file_step (start\<lparr>pcs := (\<lambda>_. Idle)(0 := R_locked), owner := Some 0\<rparr>)"
    by (simp add: start_def)
  from reach_step [OF this reading [OF read_inc [of _ 0]]] show ?thesis by (simp add: start_def)
qed

text \<open>
  The functions without a lock also meet readers: the erasing part of a \<open>REPLACE\<close> can write to the file
  while another thread is reading it.
\<close>

lemma unlocked_races_with_read:
  "\<exists>s. reach flock_init file_step s \<and> pcs s 0 = Reading \<and> pcs s 1 = Unlocked u"
proof -
  from reach_step [OF reach_reading outside [OF call_unlocked [of _ 1 u]]] show ?thesis
    by (force simp: start_def)
qed

definition starts_call :: "flock \<Rightarrow> flock \<Rightarrow> bool" where
  "starts_call s t \<longleftrightarrow> (\<exists>i. pcs s i = Idle \<and> pcs t i \<noteq> Idle)"

definition enabled :: "flock \<Rightarrow> nat \<Rightarrow> bool" where
  "enabled s i \<longleftrightarrow> (\<exists>t. file_step s t \<and> \<not> starts_call s t \<and> pcs t i \<noteq> pcs s i \<and> pcs s i \<noteq> W_wait)"

lemma enabled_holding: "holding (pcs s i) \<Longrightarrow> enabled s i"
proof -
  assume "holding (pcs s i)"
  then consider "pcs s i = R_locked" | "pcs s i = R_unlocked" | "pcs s i = W_locked" "reads s = 0"
    | "pcs s i = W_locked" "reads s \<noteq> 0" | "pcs s i = Writing" by (auto simp: holding_def)
  then show ?thesis
  proof cases
    case 1
    then show ?thesis unfolding enabled_def starts_call_def
      by (intro exI conjI, rule reading [OF read_inc [of s i]]) auto
  next
    case 2
    then show ?thesis unfolding enabled_def starts_call_def
      by (intro exI conjI, rule reading [OF read_dec [of s i]]) (auto simp: broadcast_def)
  next
    case 3
    then show ?thesis unfolding enabled_def starts_call_def
      by (intro exI conjI, rule writing [OF write_go [of s i]]) auto
  next
    case 4
    then show ?thesis unfolding enabled_def starts_call_def
      by (intro exI conjI, rule writing [OF write_wait [of s i]]) auto
  next
    case 5
    then show ?thesis unfolding enabled_def starts_call_def
      by (intro exI conjI, rule writing [OF write_done [of s i]]) (auto simp: broadcast_def)
  qed
qed

lemma enabled_free:
  assumes "owner s = None" and "pcs s i \<noteq> Idle" and "pcs s i \<noteq> W_wait" and "\<not> holding (pcs s i)"
  shows "enabled s i"
proof -
  from assms consider "pcs s i = R_lock" | "pcs s i = Reading" | "pcs s i = R_unlock"
    | "pcs s i = W_lock" | "pcs s i = W_woken" | u where "pcs s i = Unlocked u"
    by (cases "pcs s i") (auto simp: holding_def)
  then show ?thesis
  proof cases
    case 1
    then show ?thesis unfolding enabled_def starts_call_def
      by (intro exI conjI, rule reading [OF read_lock [of s i]]) (use assms in auto)
  next
    case 2
    then show ?thesis unfolding enabled_def starts_call_def
      by (intro exI conjI, rule reading [OF read_done [of s i]]) auto
  next
    case 3
    then show ?thesis unfolding enabled_def starts_call_def
      by (intro exI conjI, rule reading [OF read_relock [of s i]]) (use assms in auto)
  next
    case 4
    then have "pcs s i \<in> {W_lock, W_woken}" by simp
    then show ?thesis unfolding enabled_def starts_call_def
      by (intro exI conjI, rule writing [OF write_lock [of s i]]) (use assms in auto)
  next
    case 5
    then have "pcs s i \<in> {W_lock, W_woken}" by simp
    then show ?thesis unfolding enabled_def starts_call_def
      by (intro exI conjI, rule writing [OF write_lock [of s i]]) (use assms in auto)
  next
    case 6
    then show ?thesis unfolding enabled_def starts_call_def
      by (intro exI conjI, rule outside [OF unlocked_done [of s i]]) auto
  qed
qed

text \<open>
  Property C16: no wake-up is lost. Whenever some thread is inside a call, some step is possible
  that is not the start of a new call and not a spurious wake-up: a waiting writer always has a
  reader that will wake it.
\<close>

theorem lock_progress:
  assumes "reach flock_init file_step s" and "pcs s i \<noteq> Idle"
  shows "\<exists>j. enabled s j"
proof (cases "owner s")
  case (Some j)
  then have "holding (pcs s j)" using fl.reach_inv [OF assms(1)] unfolding flock_inv_def by blast
  then show ?thesis using enabled_holding by blast
next
  case None
  have inv: "flock_inv s" using assms(1) by (rule fl.reach_inv)
  show ?thesis
  proof (cases "pcs s i = W_wait")
    case False
    then show ?thesis using enabled_free [OF None assms(2) False inv_free [OF inv None]] by blast
  next
    case True
    then have "readers s \<noteq> {}" using inv by (auto simp: flock_inv_def)
    then obtain j where j: "counted (pcs s j)" by (auto simp: readers_def)
    then have "pcs s j \<noteq> Idle" "pcs s j \<noteq> W_wait" by (auto simp: counted_def)
    then show ?thesis using enabled_free [OF None _ _ inv_free [OF inv None]] by blast
  qed
qed

theorem lock_progress_witness:
  "\<exists>j. enabled (start\<lparr>pcs := (\<lambda>_. Idle)(0 := Writing), owner := Some 0\<rparr>) j"
  by (rule lock_progress [OF reach_writing, of 0]) simp

end
