(* ===== verification/Config.thy ===== *)
theory Config
  imports Tokenize TcpUtils
begin

text \<open>
  The configuration of the server: the command line and the configuration file
  (\<open>src/bbserv_utils.cc\<close>), and the defaults of \<open>main\<close> (\<open>src/bbserv.cc\<close>). The globals
  \<open>server_config\<close> and \<open>peer_info\<close> are one record. An entry of \<open>peer_info\<close> that was never written is
  \<open>None\<close>. The array \<open>command\<close> and the table \<open>com_tok\<close> of the readers live as long as the loop, so
  that a line with too few tokens reads what earlier lines left there: both are part of the state.
\<close>

section \<open>State\<close>

record peer_info_s =
  pi_id :: int
  pi_port :: int
  pi_ip :: string

record sconf =
  T_MAX :: int
  T_MAX_IND :: int
  BP :: int
  BP_IND :: int
  SPORT :: int
  SPORT_IND :: int
  NO_PEERS :: int
  PEER_COMMS_IND :: int
  CDETACH :: bool
  FDETACH :: bool
  DETACH :: bool
  DETACH_IND :: int
  DEBUG_DELAY :: bool
  DEBUG_DELAY_IND :: int
  BBFILE :: string
  BBFILE_IND :: int
  CONF_FILE :: string
  CONF_FILE_IND :: int
  peer_info :: "peer_info_s option list"

text \<open>
  The settings \<open>main\<close> starts from. The array \<open>BBFILE\<close> is allocated and not written: \<open>junk\<close> is the
  C string it happens to hold.
\<close>

definition default_config :: "string \<Rightarrow> sconf" where
  "default_config junk = \<lparr>T_MAX = 20, T_MAX_IND = 0, BP = 9000, BP_IND = 0, SPORT = 10000, SPORT_IND = 0,
     NO_PEERS = 0, PEER_COMMS_IND = 0, CDETACH = True, FDETACH = True, DETACH = True, DETACH_IND = 0,
     DEBUG_DELAY = False, DEBUG_DELAY_IND = 0, BBFILE = junk, BBFILE_IND = 0,
     CONF_FILE = ''bbserv.conf'', CONF_FILE_IND = 0, peer_info = []\<rparr>"

text \<open>What a \<open>SIGHUP\<close> resets before the file is read again: not the peers, and not \<open>CONF_FILE\<close>.\<close>

definition hup_reset :: "string \<Rightarrow> sconf \<Rightarrow> sconf" where
  "hup_reset junk sc = sc\<lparr>T_MAX := 20, BP := 9000, SPORT := 10000, BBFILE := junk, DETACH := True,
     DEBUG_DELAY := False, T_MAX_IND := 0, BP_IND := 0, SPORT_IND := 0, DETACH_IND := 0,
     DEBUG_DELAY_IND := 0, PEER_COMMS_IND := 0, BBFILE_IND := 0, CONF_FILE_IND := 0\<rparr>"

section \<open>Addresses and log lines\<close>

text \<open>
  \<open>ip_to_dotted\<close>: \<open>ipc\<close> is a pointer to (signed) \<open>char\<close>, and the address is stored with its first
  byte lowest.
\<close>

definition ip_byte :: "32 word \<Rightarrow> nat \<Rightarrow> int" where
  "ip_byte ip i = sint (ucast (drop_bit (8 * i) ip) :: 8 word)"

definition ip_to_dotted :: "32 word \<Rightarrow> string" where
  "ip_to_dotted ip = show_ld (ip_byte ip 0) @ ''.'' @ show_ld (ip_byte ip 1) @ ''.'' @
     show_ld (ip_byte ip 2) @ ''.'' @ show_ld (ip_byte ip 3)"

text \<open>
  \<open>logger\<close> and \<open>welcome_message\<close>, given what \<open>ctime\<close> returns (a text that ends with a newline):
  the lines they print.
\<close>

definition logger :: "string \<Rightarrow> string \<Rightarrow> string" where
  "logger ts msg = take (length ts - 1) ts @ '' : '' @ msg"

definition welcome_message :: "string \<Rightarrow> string list" where
  "welcome_message ts = ['''', ''   BULLETTIN BOARD SERVER v1.0'', ''    '' @ ts]"

section \<open>Peer addresses\<close>

text \<open>
  \<open>strtok(p, ":")\<close> on the array \<open>buf\<close>, \<open>p\<close> at offset \<open>off\<close>: the offset of the token, the array with
  the colon after it overwritten, and where the next call goes on.
\<close>

definition strtok_at :: "string \<Rightarrow> nat \<Rightarrow> (nat \<times> string \<times> nat) option" where
  "strtok_at buf off =
     (let s = cstr_at buf off; k = length (takeWhile (\<lambda>c. c = CHR '':'') s); s' = drop k s;
          t = length (takeWhile (\<lambda>c. c \<noteq> CHR '':'') s') in
      if s' = [] then None
      else if t < length s' then Some (off + k, buf[off + k + t := NUL], off + k + t + 1)
      else Some (off + k, buf, off + k + t))"

text \<open>
  The address goes into an array of 20 bytes, although \<open>snprintf\<close> is given \<open>MAX_LEN\<close>. A missing
  address or port is a null pointer for \<open>snprintf\<close> or \<open>atoi\<close>.
\<close>

definition parse_peer :: "nat \<Rightarrow> string \<Rightarrow> nat \<Rightarrow> c_error + peer_info_s \<times> string" where
  "parse_peer i buf off = (case strtok_at buf off of
      None \<Rightarrow> Inl Null_pointer
    | Some (a, buf1, nxt) \<Rightarrow>
        if 20 \<le> length (snprintf 1024 (cstr_at buf1 a)) then Inl Out_of_bounds
        else (case strtok_at buf1 nxt of
            None \<Rightarrow> Inl Null_pointer
          | Some (p, buf2, _) \<Rightarrow>
              Inr (\<lparr>pi_id = int i, pi_port = atoi (cstr_at buf2 p), pi_ip = cstr_at buf1 a\<rparr>, buf2)))"

section \<open>The command line\<close>

text \<open>
  \<open>getopt\<close> of the C library with \<open>"c:b:T:p:s:fd"\<close>: the options met, each with its argument, and the
  operands. An unknown option, or a missing argument, is the character \<open>?\<close>. The library moves the
  operands to the end (when \<open>POSIXLY_CORRECT\<close> is not set).
\<close>

fun opts_cluster :: "string \<Rightarrow> string list \<Rightarrow> (char \<times> string) list \<times> string list" where
  "opts_cluster [] rest = ([], rest)"
| "opts_cluster (c # cs) rest =
     (if c \<in> set ''cbTps'' then
        (if cs \<noteq> [] then ([(c, cs)], rest)
         else (case rest of [] \<Rightarrow> ([(CHR ''?'', [])], []) | a # as \<Rightarrow> ([(c, a)], as)))
      else (case opts_cluster cs rest of (evs, rest') \<Rightarrow>
         (((if c \<in> set ''fd'' then c else CHR ''?''), []) # evs, rest')))"

lemma opts_cluster_rest: "opts_cluster cs rest = (evs, rest') \<Longrightarrow> length rest' \<le> length rest"
  by (induction cs rest arbitrary: evs rest' rule: opts_cluster.induct)
    (auto split: if_splits list.splits prod.splits)

function getopt_all :: "string list \<Rightarrow> (char \<times> string) list \<times> string list" where
  "getopt_all [] = ([], [])"
| "getopt_all (a # as) =
     (if a = ''--'' then ([], as)
      else if 1 < length a \<and> hd a = CHR ''-'' then
        (case opts_cluster (tl a) as of (evs, as') \<Rightarrow>
           (case getopt_all as' of (evs', ops) \<Rightarrow> (evs @ evs', ops)))
      else (case getopt_all as of (evs, ops) \<Rightarrow> (evs, a # ops)))"
  by pat_completeness auto
termination
  by (relation "measure length") (auto simp: less_Suc_eq_le dest: opts_cluster_rest [OF sym])

definition set_option :: "char \<times> string \<Rightarrow> sconf \<Rightarrow> c_error + sconf" where
  "set_option ev sc = (case ev of (copt, optarg) \<Rightarrow>
     if copt = CHR ''f'' then Inr (sc\<lparr>DETACH_IND := 1, CDETACH := False\<rparr>)
     else if copt = CHR ''d'' then Inr (sc\<lparr>DEBUG_DELAY_IND := 1, DEBUG_DELAY := True\<rparr>)
     else if copt = CHR ''c'' then
       (if 50 \<le> length optarg then Inl Out_of_bounds
        else Inr (sc\<lparr>CONF_FILE := optarg, CONF_FILE_IND := 1\<rparr>))
     else if copt = CHR ''b'' then
       (if MAX_LEN \<le> length optarg then Inl Out_of_bounds
        else Inr (sc\<lparr>BBFILE := optarg, BBFILE_IND := 1\<rparr>))
     else if copt = CHR ''T'' then Inr (sc\<lparr>T_MAX_IND := 1, T_MAX := atoi optarg\<rparr>)
     else if copt = CHR ''p'' then Inr (sc\<lparr>BP_IND := 1, BP := atoi optarg\<rparr>)
     else if copt = CHR ''s'' then Inr (sc\<lparr>SPORT_IND := 1, SPORT := atoi optarg\<rparr>)
     else Inr sc)"

text \<open>
  The default case of the loop leaves the settings alone and logs: the line for each character that is not
  one of the switches, with its code. \<open>getopt\<close> gives \<open>?\<close> for all of these.
\<close>

definition option_log :: "string \<Rightarrow> (char \<times> string) list \<Rightarrow> string list" where
  "option_log ts evs = concat (map (\<lambda>(copt, optarg).
     if copt \<in> set ''fdcbTps'' then []
     else [logger ts (snprintf MAX_LEN (''-> This switch is unidentified : '' @ show_ld (of_char copt) @ [NL]))]) evs)"

fun set_options :: "(char \<times> string) list \<Rightarrow> sconf \<Rightarrow> c_error + sconf" where
  "set_options [] sc = Inr sc"
| "set_options (ev # evs) sc = (case set_option ev sc of Inl e \<Rightarrow> Inl e | Inr sc' \<Rightarrow> set_options evs sc')"

text \<open>The loop over the operands: one without a colon leaves its entry unwritten.\<close>

fun operand_loop :: "nat \<Rightarrow> string list \<Rightarrow> sconf \<Rightarrow> c_error + sconf" where
  "operand_loop i [] sc = Inr sc"
| "operand_loop i (a # as) sc =
     (if strstr1 a (CHR '':'') then
        (case parse_peer i (a @ [NUL]) 0 of
           Inl e \<Rightarrow> Inl e
         | Inr (p, buf) \<Rightarrow> operand_loop (Suc i) as (sc\<lparr>peer_info := (peer_info sc)[i := Some p]\<rparr>))
      else operand_loop (Suc i) as (sc\<lparr>NO_PEERS := NO_PEERS sc - 1\<rparr>))"

definition fetch_cmndLine :: "string list \<Rightarrow> sconf \<Rightarrow> c_error + sconf" where
  "fetch_cmndLine args sc = (case getopt_all args of (evs, ops) \<Rightarrow>
     (case set_options evs sc of
        Inl e \<Rightarrow> Inl e
      | Inr sc1 \<Rightarrow>
          let sc2 = sc1\<lparr>NO_PEERS := int (length ops)\<rparr> in
          if 1 \<le> length ops
          then operand_loop 0 ops (sc2\<lparr>PEER_COMMS_IND := 1, peer_info := replicate (length ops) None\<rparr>)
          else Inr sc2))"

section \<open>Bounds\<close>

lemma ip_byte_range: "- 128 \<le> ip_byte ip i \<and> ip_byte ip i < 128"
  using sint_range_size [of "ucast (drop_bit (8 * i) ip) :: 8 word"]
  by (simp add: ip_byte_def word_size)

lemma ip_byte_length: "length (show_ld (ip_byte ip i)) \<le> 4"
proof -
  have "\<bar>ip_byte ip i\<bar> < 10 ^ Suc 2" using ip_byte_range [of ip i] by (simp add: abs_less_iff)
  then have "length (show_ld (ip_byte ip i)) \<le> Suc (Suc 2)" by (rule show_ld_length)
  then show ?thesis by simp
qed

text \<open>
  A dotted address and its terminator fit the 20 bytes of \<open>client_t\<close>, although the
  bytes are signed: an address with a byte above 127 is written with negative numbers.
\<close>

theorem dotted_fits:
  "length (ip_to_dotted ip) + 1 \<le> 20 \<and>
   (CHR ''-'' \<in> set (ip_to_dotted ip) \<longleftrightarrow> ip_byte ip 0 < 0 \<or> ip_byte ip 1 < 0 \<or> ip_byte ip 2 < 0 \<or> ip_byte ip 3 < 0) \<and>
   ip_to_dotted 0x0100007F = ''127.0.0.1'' \<and> length (ip_to_dotted 0x80808080) = 19"
proof -
  have minus: "CHR ''-'' \<in> set (show_ld n) \<longleftrightarrow> n < 0" for n
    using nat_digits_all [of "nat n"] by (auto simp: show_ld_def is_digit_def)
  have "length (ip_to_dotted ip) + 1 \<le> 20"
    using ip_byte_length [of ip 0] ip_byte_length [of ip 1] ip_byte_length [of ip 2]
      ip_byte_length [of ip 3] by (simp add: ip_to_dotted_def)
  moreover have "ip_to_dotted 0x0100007F = ''127.0.0.1''" by code_simp
  moreover have "length (ip_to_dotted 0x80808080) = 19" by code_simp
  ultimately show ?thesis by (simp add: ip_to_dotted_def minus)
qed

end
