(* ===== verification/ConfigFile.thy ===== *)
theory ConfigFile
  imports Config
begin

text \<open>
  The configuration file (\<open>src/bbserv_utils.cc\<close>): \<open>fetch_config\<close> at the start, which leaves
  alone what the command line has set, \<open>force_fetch_config\<close> after a \<open>SIGHUP\<close>, and \<open>print_config\<close>.
  A file is the list of what its one-byte reads return, or \<open>None\<close> when it cannot be opened (every
  \<open>read\<close> then fails).
\<close>

section \<open>The readers\<close>

text \<open>
  The locals of both readers: the line and its tokens (pointers into the line, \<open>None\<close> where the
  table was not written yet), and a flag for every setting met.
\<close>

record scan =
  command :: string
  com_tok :: "nat \<Rightarrow> nat option"
  tmax_ind :: nat
  bp_ind :: nat
  sp_ind :: nat
  pc_ind :: nat
  detach_ind :: nat
  debug_ind :: nat
  bb_ind :: nat
  peers_ind :: nat

definition scan_start :: "string \<Rightarrow> scan" where
  "scan_start junk = \<lparr>command = take 512 junk @ replicate (512 - length junk) NUL @ [NUL],
     com_tok = (\<lambda>_. None), tmax_ind = 0, bp_ind = 0, sp_ind = 0, pc_ind = 0, detach_ind = 0,
     debug_ind = 0, bb_ind = 0, peers_ind = 0\<rparr>"

definition still_missing :: "scan \<Rightarrow> bool" where
  "still_missing s \<longleftrightarrow> tmax_ind s = 0 \<or> bp_ind s = 0 \<or> sp_ind s = 0 \<or> pc_ind s = 0 \<or>
     detach_ind s = 0 \<or> debug_ind s = 0 \<or> bb_ind s = 0 \<or> peers_ind s = 0"

text \<open>\<open>str_tokenize\<close> writes the entries of the tokens of this line; the others stay.\<close>

definition store_tokens :: "scan \<Rightarrow> string \<Rightarrow> nat list \<Rightarrow> scan" where
  "store_tokens s buf toks = s\<lparr>command := buf,
     com_tok := (\<lambda>i. if i < length toks then Some (toks ! i) else com_tok s i)\<rparr>"

definition com_arg :: "scan \<Rightarrow> nat \<Rightarrow> c_error + string" where
  "com_arg s i = (case com_tok s i of None \<Rightarrow> Inl Uninitialised | Some off \<Rightarrow> Inr (cstr_at (command s) off))"

text \<open>The loop over the peers of a line: \<open>i\<close> is the index in \<open>peer_info\<close>.\<close>

fun conf_peers :: "nat \<Rightarrow> nat list \<Rightarrow> string \<Rightarrow> sconf \<Rightarrow> c_error + string \<times> sconf" where
  "conf_peers i [] buf sc = Inr (buf, sc)"
| "conf_peers i (off # offs) buf sc =
     (if strstr1 (cstr_at buf off) (CHR '':'') then
        (case parse_peer i buf off of
           Inl e \<Rightarrow> Inl e
         | Inr (p, buf') \<Rightarrow> conf_peers (Suc i) offs buf'
             (sc\<lparr>NO_PEERS := NO_PEERS sc + 1, peer_info := (peer_info sc)[i := Some p]\<rparr>))
      else conf_peers (Suc i) offs buf sc)"

text \<open>One line of \<open>fetch_config\<close>; \<open>toks\<close> are its tokens.\<close>

definition fetch_line :: "nat list \<Rightarrow> sconf \<Rightarrow> scan \<Rightarrow> c_error + sconf \<times> scan" where
  "fetch_line toks sc s =
     (let word = cstr_at (command s) 0; arg = com_arg s 1 in
      if word = ''THMAX'' then
        (case arg of Inl e \<Rightarrow> Inl e | Inr v \<Rightarrow>
           if 0 < atol v
           then Inr (if T_MAX_IND sc = 0 then sc\<lparr>T_MAX := to_int32 (atol v), T_MAX_IND := 2\<rparr> else sc,
                     s\<lparr>tmax_ind := 1\<rparr>)
           else Inr (sc, s))
      else if word = ''BBPORT'' then
        (case arg of Inl e \<Rightarrow> Inl e | Inr v \<Rightarrow>
           if 0 < atol v
           then Inr (if BP_IND sc = 0 then sc\<lparr>BP := to_int32 (atol v), BP_IND := 2\<rparr> else sc,
                     s\<lparr>bp_ind := 1\<rparr>)
           else Inr (sc, s))
      else if word = ''SYNCPORT'' then
        (case arg of Inl e \<Rightarrow> Inl e | Inr v \<Rightarrow>
           if 0 < atol v
           then Inr (if SPORT_IND sc = 0 then sc\<lparr>SPORT := to_int32 (atol v), SPORT_IND := 2\<rparr> else sc,
                     s\<lparr>sp_ind := 1\<rparr>)
           else Inr (sc, s))
      else if word = ''BBFILE'' then
        (if 1 < length toks
         then (case arg of Inl e \<Rightarrow> Inl e | Inr v \<Rightarrow>
            Inr (if BBFILE_IND sc = 0 then sc\<lparr>BBFILE := v, BBFILE_IND := 2\<rparr> else sc, s\<lparr>bb_ind := 1\<rparr>))
         else Inr (sc, s\<lparr>bb_ind := 1\<rparr>))
      else if word = ''PEERS'' then
        (if 1 < length toks
         then (if PEER_COMMS_IND sc = 0
           then (case conf_peers 0 (tl toks) (command s)
                   (sc\<lparr>peer_info := replicate (length toks - 1) None\<rparr>) of
                Inl e \<Rightarrow> Inl e
              | Inr (buf, sc') \<Rightarrow> Inr (sc'\<lparr>PEER_COMMS_IND := 2\<rparr>, s\<lparr>command := buf, pc_ind := 1\<rparr>))
           else Inr (sc, s\<lparr>pc_ind := 1\<rparr>))
         else Inr (sc, s\<lparr>peers_ind := 1\<rparr>))
      else if word = ''DAEMON'' then
        (if DETACH_IND sc = 0
         then (case arg of Inl e \<Rightarrow> Inl e | Inr v \<Rightarrow>
            Inr (sc\<lparr>FDETACH := (atol v \<noteq> 0), DETACH_IND := 2\<rparr>, s\<lparr>detach_ind := 1\<rparr>))
         else Inr (sc, s\<lparr>detach_ind := 1\<rparr>))
      else if word = ''DEBUG'' then
        (if DEBUG_DELAY_IND sc = 0
         then (case arg of Inl e \<Rightarrow> Inl e | Inr v \<Rightarrow>
            Inr (sc\<lparr>DEBUG_DELAY := (atol v \<noteq> 0), DEBUG_DELAY_IND := 2\<rparr>, s\<lparr>debug_ind := 1\<rparr>))
         else Inr (sc, s\<lparr>debug_ind := 1\<rparr>))
      else Inr (sc, s))"

text \<open>One line of \<open>force_fetch_config\<close>: no test of who set the value before, and no flags.\<close>

definition force_line :: "nat list \<Rightarrow> sconf \<Rightarrow> scan \<Rightarrow> c_error + sconf \<times> scan" where
  "force_line toks sc s =
     (let word = cstr_at (command s) 0; arg = com_arg s 1 in
      if word = ''THMAX'' then
        (case arg of Inl e \<Rightarrow> Inl e | Inr v \<Rightarrow>
           Inr (if 0 < atol v then sc\<lparr>T_MAX := to_int32 (atol v), T_MAX_IND := 2\<rparr> else sc, s))
      else if word = ''BBPORT'' then
        (case arg of Inl e \<Rightarrow> Inl e | Inr v \<Rightarrow>
           Inr (if 0 < atol v then sc\<lparr>BP := to_int32 (atol v), BP_IND := 2\<rparr> else sc, s))
      else if word = ''SYNCPORT'' then
        (case arg of Inl e \<Rightarrow> Inl e | Inr v \<Rightarrow>
           Inr (if 0 < atol v then sc\<lparr>SPORT := to_int32 (atol v), SPORT_IND := 2\<rparr> else sc, s))
      else if word = ''BBFILE'' then
        (if 1 < length toks
         then (case arg of Inl e \<Rightarrow> Inl e | Inr v \<Rightarrow> Inr (sc\<lparr>BBFILE := v, BBFILE_IND := 2\<rparr>, s))
         else Inr (sc, s))
      else if word = ''PEERS'' then
        (if 1 < length toks
         then (case conf_peers 0 (tl toks) (command s)
                 (sc\<lparr>NO_PEERS := 0, peer_info := replicate (length toks - 1) None\<rparr>) of
              Inl e \<Rightarrow> Inl e
            | Inr (buf, sc') \<Rightarrow> Inr (sc'\<lparr>PEER_COMMS_IND := 2\<rparr>, s\<lparr>command := buf\<rparr>))
         else Inr (sc, s))
      else if word = ''DAEMON'' then
        (case arg of Inl e \<Rightarrow> Inl e | Inr v \<Rightarrow> Inr (sc\<lparr>DETACH := (atol v \<noteq> 0), DETACH_IND := 2\<rparr>, s))
      else if word = ''DEBUG'' then
        (case arg of Inl e \<Rightarrow> Inl e | Inr v \<Rightarrow>
           Inr (sc\<lparr>DEBUG_DELAY := (atol v \<noteq> 0), DEBUG_DELAY_IND := 2\<rparr>, s))
      else Inr (sc, s))"

text \<open>The loop of both readers: the rest of the file, the settings and the locals.\<close>

function config_loop ::
  "(nat list \<Rightarrow> sconf \<Rightarrow> scan \<Rightarrow> c_error + sconf \<times> scan) \<Rightarrow> rd list \<Rightarrow> sconf \<Rightarrow> scan \<Rightarrow> c_error + sconf" where
  "config_loop line fd sc s =
     (if \<not> still_missing s then Inr sc
      else (let r = readline fd (command s) 512; n = fst r; buf = fst (snd r); rest = snd (snd r) in
        if n = recv_nodata then Inr sc
        else if n < 0 then Inr sc
        else (let t = str_tokenize buf (length (cstr buf)) in
          (case line (snd t) sc (store_tokens s (fst t) (snd t)) of
             Inl e \<Rightarrow> Inl e
           | Inr q \<Rightarrow> config_loop line rest (fst q) (snd q)))))"
  by pat_completeness auto
termination
  by (relation "measure (\<lambda>(line, fd, sc, s). length fd)") (auto intro!: readline_consumes)

declare config_loop.simps [simp del]

definition conf_reads :: "rd list option \<Rightarrow> rd list" where
  "conf_reads file = (case file of None \<Rightarrow> [Fail] | Some fd \<Rightarrow> fd)"

definition fetch_config :: "string \<Rightarrow> rd list option \<Rightarrow> sconf \<Rightarrow> c_error + sconf" where
  "fetch_config junk file sc = config_loop fetch_line (conf_reads file) sc (scan_start junk)"

definition force_fetch_config :: "string \<Rightarrow> rd list option \<Rightarrow> sconf \<Rightarrow> c_error + sconf" where
  "force_fetch_config junk file sc = config_loop force_line (conf_reads file) sc (scan_start junk)"

section \<open>Start and reload\<close>

text \<open>
  What \<open>main\<close> does with the settings: at the start (\<open>files\<close> opens a name), and after each \<open>SIGHUP\<close>.
\<close>

definition start_config ::
  "string list \<Rightarrow> string \<Rightarrow> string \<Rightarrow> (string \<Rightarrow> rd list option) \<Rightarrow> c_error + sconf" where
  "start_config args bb junk files = (case fetch_cmndLine args (default_config bb) of
      Inl e \<Rightarrow> Inl e
    | Inr sc \<Rightarrow> (case fetch_config junk (files (CONF_FILE sc)) sc of
        Inl e \<Rightarrow> Inl e
      | Inr sc' \<Rightarrow> Inr (sc'\<lparr>DETACH := (CDETACH sc' \<and> FDETACH sc')\<rparr>)))"

definition reload_config ::
  "string \<Rightarrow> string \<Rightarrow> (string \<Rightarrow> rd list option) \<Rightarrow> sconf \<Rightarrow> c_error + sconf" where
  "reload_config bb junk files sc = force_fetch_config junk (files (CONF_FILE sc)) (hup_reset bb sc)"

fun reload_configs ::
  "(string \<times> string \<times> (string \<Rightarrow> rd list option)) list \<Rightarrow> sconf \<Rightarrow> c_error + sconf" where
  "reload_configs [] sc = Inr sc"
| "reload_configs ((bb, junk, files) # hups) sc =
     (case reload_config bb junk files sc of Inl e \<Rightarrow> Inl e | Inr sc' \<Rightarrow> reload_configs hups sc')"

section \<open>The summary printed\<close>

definition set_by :: "int \<Rightarrow> string" where
  "set_by ind = (if ind = 1 then ''Command Line Override''
     else if ind = 2 then ''Config File Setting  '' else ''System Default       '')"

definition detach_text :: "bool \<Rightarrow> bool \<Rightarrow> string" where
  "detach_text cd fd =
     (if cd \<and> fd then ''Command Line/Conf. File agree on Detach''
      else if cd \<and> \<not> fd then ''Config File Disagree on Detach''
      else if \<not> cd \<and> fd then ''Command Line Disagree on Detach''
      else ''Command Line/Conf. File Disagree on Detach'')"

text \<open>The loop over \<open>peer_info\<close>, from index \<open>x\<close>, for \<open>k\<close> rounds.\<close>

fun print_peers :: "nat \<Rightarrow> nat \<Rightarrow> peer_info_s option list \<Rightarrow> c_error + string list" where
  "print_peers 0 x ps = Inr []"
| "print_peers (Suc k) x ps =
     (if length ps \<le> x then Inl Out_of_bounds
      else (case ps ! x of
          None \<Rightarrow> Inl Uninitialised
        | Some p \<Rightarrow> (case print_peers k (Suc x) ps of
            Inl e \<Rightarrow> Inl e
          | Inr ls \<Rightarrow> Inr ((''   Peer '' @ show_ld (pi_id p) @ '' '' @ pi_ip p @ '' '' @ show_ld (pi_port p)) # ls))))"

text \<open>\<open>5 * T_MAX + 3\<close> is computed as an \<open>int\<close> (wrapping, where C++ leaves the overflow open).\<close>

definition print_config :: "sconf \<Rightarrow> c_error + string list" where
  "print_config sc = (case print_peers (nat (NO_PEERS sc)) 0 (peer_info sc) of
      Inl e \<Rightarrow> Inl e
    | Inr peers \<Rightarrow> Inr (
        ['''', replicate 52 (CHR ''*''),
         ''-> '' @ set_by (T_MAX_IND sc) @ ''-> Maximum Threads : '' @ show_ld (T_MAX sc) @ '' '',
         ''-> '' @ set_by (BP_IND sc) @ ''-> Client listening port : '' @ show_ld (BP sc) @ '' '',
         ''-> '' @ set_by (BBFILE_IND sc) @ ''-> Bullettin Board File : '' @ BBFILE sc @ '' '',
         ''-> '' @ set_by (SPORT_IND sc) @ ''-> Peer listening port : '' @ show_ld (SPORT sc) @ '' '',
         ''-> '' @ detach_text (CDETACH sc) (FDETACH sc) @
           (if \<not> DETACH sc then ''-> Server will run on Foreground.'' else ''-> Server will run on Background.''),
         ''-> '' @ set_by (DEBUG_DELAY_IND sc) @
           (if \<not> DEBUG_DELAY sc then ''-> Server will not delay file operations.''
            else ''-> Server will delay file operations.''),
         ''-> '' @ (if CONF_FILE_IND sc = 1 then ''Command Line Override'' else ''System Default       '') @
           ''-> Configuration file : '' @ CONF_FILE sc,
         ''-> '' @ set_by (PEER_COMMS_IND sc) @ ''-> Peer servers : ''] @ peers @
        [''-> Atleast '' @ show_ld (to_int32 (5 * T_MAX sc + 3)) @
           '' threads will be created based on configuration.'',
         replicate 52 (CHR ''*'')]))"

section \<open>One line of a file\<close>

text \<open>
  \<open>conf_step\<close>: under the reader \<open>line\<close>, the line \<open>l\<close> takes the settings \<open>sc\<close> to \<open>sc'\<close> and the
  reader goes on (no line without a value after \<open>PEERS\<close> was met).
\<close>

definition conf_step ::
  "(nat list \<Rightarrow> sconf \<Rightarrow> scan \<Rightarrow> c_error + sconf \<times> scan) \<Rightarrow> string \<Rightarrow> sconf \<Rightarrow> sconf \<Rightarrow> bool" where
  "conf_step line l sc sc' \<longleftrightarrow> (\<forall>fd s. peers_ind s = 0 \<longrightarrow> (\<exists>s'. peers_ind s' = 0 \<and>
     config_loop line (map Byte l @ Byte NL # fd) sc s = config_loop line fd sc' s'))"

definition conf_text :: "string list \<Rightarrow> rd list" where
  "conf_text ls = concat (map (\<lambda>l. map Byte l @ [Byte NL]) ls)"

lemma conf_text_Cons [simp]: "conf_text (l # ls) = map Byte l @ Byte NL # conf_text ls"
  by (simp add: conf_text_def)

lemma conf_text_Nil [simp]: "conf_text [] = []"
  by (simp add: conf_text_def)

lemma config_loop_end: "config_loop line [] sc s = Inr sc"
  by (subst config_loop.simps) (simp add: readline_eof)

lemma conf_step_then:
  assumes "conf_step line l sc sc1" and "peers_ind s = 0"
    and "\<And>s. peers_ind s = 0 \<Longrightarrow> config_loop line (conf_text ls) sc1 s = r"
  shows "config_loop line (conf_text (l # ls)) sc s = r"
  using assms by (auto simp: conf_step_def)

text \<open>The line as the readers see it: the first word and the words after it, each ended by a NUL.\<close>

lemma config_loop_words:
  assumes "l = w @ sep_words ps" and "still_missing s" and "NL \<notin> set l" "NUL \<notin> set l" "length l < 512"
    and "list_all (\<lambda>c. \<not> str_sep c) w" "list_all (\<lambda>(c, w). str_sep c \<and> plain_word str_sep w) ps"
    and "toks = 0 # offsets (Suc (length w)) (map snd ps)"
    and "buf = w @ nul_words (map snd ps) @ NUL # drop (Suc (length l)) (command s)"
  shows "config_loop line (map Byte l @ Byte NL # fd) sc s =
    (case line toks sc (store_tokens s buf toks) of Inl e \<Rightarrow> Inl e
     | Inr q \<Rightarrow> config_loop line fd (fst q) (snd q))"
proof -
  have r: "readline (map Byte l @ Byte NL # fd) (command s) 512 =
      (int (length l), l @ NUL # drop (Suc (length l)) (command s), fd)"
    using assms(3,5) by (rule readline_line)
  have "str_tokenize (l @ NUL # drop (Suc (length l)) (command s)) (length l) = (buf, toks)"
    using str_tokenize_words [OF assms(6,7), of "length l" "NUL # drop (Suc (length l)) (command s)"]
      assms(1,8,9) by simp
  then show ?thesis
    using assms(2,4) by (subst config_loop.simps) (simp add: r recv_nodata_def split: sum.split)
qed

lemma store_tokens_sel [simp]:
  "command (store_tokens s buf toks) = buf" "tmax_ind (store_tokens s buf toks) = tmax_ind s"
  "peers_ind (store_tokens s buf toks) = peers_ind s"
  by (simp_all add: store_tokens_def)

lemma com_arg_stored:
  "i < length toks \<Longrightarrow> com_arg (store_tokens s buf toks) i = Inr (cstr_at buf (toks ! i))"
  "\<not> i < length toks \<Longrightarrow> com_arg (store_tokens s buf toks) i =
     (case com_tok s i of None \<Rightarrow> Inl Uninitialised | Some off \<Rightarrow> Inr (cstr_at buf off))"
  by (simp_all add: com_arg_def store_tokens_def split: option.split)

lemma missing_peers: "peers_ind s = 0 \<Longrightarrow> still_missing s"
  by (simp add: still_missing_def)

text \<open>A line \<open>key=value\<close>.\<close>

lemma conf_step_key:
  assumes l: "l = key @ CHR ''='' # v" and "NL \<notin> set l" "NUL \<notin> set l" "length l < 512"
    and "list_all (\<lambda>c. \<not> str_sep c) key" "plain_word str_sep v"
    and line: "\<And>s. cstr_at (command s) 0 = key \<Longrightarrow> com_arg s 1 = Inr v \<Longrightarrow> peers_ind s = 0 \<Longrightarrow>
      \<exists>s'. line [0, Suc (length key)] sc s = Inr (sc', s') \<and> peers_ind s' = 0"
  shows "conf_step line l sc sc'"
proof -
  have "\<exists>s'. peers_ind s' = 0 \<and>
      config_loop line (map Byte l @ Byte NL # fd) sc s = config_loop line fd sc' s'"
    if p: "peers_ind s = 0" for fd s
  proof -
    define t where "t = store_tokens s (key @ NUL # v @ NUL # drop (Suc (length l)) (command s))
      [0, Suc (length key)]"
    have nul: "NUL \<notin> set key" "NUL \<notin> set v" using assms(1,3) by auto
    then have a: "cstr_at (command t) 0 = key" "peers_ind t = 0" using p by (simp_all add: t_def)
    have arg: "com_arg t 1 = Inr v" using nul
      cstr_at_drop [of "key @ [NUL]" "Suc (length key)" "v @ NUL # drop (Suc (length l)) (command s)"]
      by (simp add: t_def com_arg_stored)
    obtain s' where s': "line [0, Suc (length key)] sc t = Inr (sc', s')" "peers_ind s' = 0"
      using line [OF a(1) arg a(2)] by auto
    have "config_loop line (map Byte l @ Byte NL # fd) sc s =
        (case line [0, Suc (length key)] sc t of Inl e \<Rightarrow> Inl e | Inr q \<Rightarrow> config_loop line fd (fst q) (snd q))"
      unfolding t_def
      by (rule config_loop_words [where w = key and ps = "[(CHR ''='', v)]"])
        (use assms missing_peers [OF p] in \<open>auto simp: str_sep_def\<close>)
    then show ?thesis using s' by auto
  qed
  then show ?thesis by (simp add: conf_step_def)
qed

section \<open>What a setting in the file does\<close>

lemma show_ld_plain: "plain_word str_sep (show_ld n)"
proof -
  have "c \<notin> set (show_ld n)" if "c = SP \<or> c = CHR ''=''" for c
    by (rule show_ld_no) (use that in \<open>auto simp: is_digit_def\<close>)
  then have no: "SP \<notin> set (show_ld n)" "CHR ''='' \<notin> set (show_ld n)" by auto
  then have "hd (show_ld n) \<noteq> SP" by (metis list.set_sel(1) show_ld_nonempty)
  with no show ?thesis by (auto simp: plain_word_def list_all_iff str_sep_def)
qed

lemma show_ld_bytes: "NUL \<notin> set (show_ld n)" "NL \<notin> set (show_ld n)"
  by (rule show_ld_no; simp add: is_digit_def)+

lemma key_plain: "list_all (\<lambda>c. \<not> str_sep c) key \<longleftrightarrow> CHR ''='' \<notin> set key \<and> SP \<notin> set key"
  by (auto simp: list_all_iff str_sep_def)

lemma step_thmax:
  assumes "0 < n" "n < 2 ^ 31" "T_MAX_IND sc = 0"
  shows "conf_step fetch_line (''THMAX='' @ show_ld n) sc (sc\<lparr>T_MAX := n, T_MAX_IND := 2\<rparr>)"
  by (rule conf_step_key [where key = "''THMAX''" and v = "show_ld n"])
    (use assms int_show_length [of n] in
      \<open>auto simp: show_ld_plain show_ld_bytes key_plain fetch_line_def atol_show_ld to_int32_id\<close>)

lemma step_bbport:
  assumes "0 < n" "n < 2 ^ 31" "BP_IND sc = 0"
  shows "conf_step fetch_line (''BBPORT='' @ show_ld n) sc (sc\<lparr>BP := n, BP_IND := 2\<rparr>)"
  by (rule conf_step_key [where key = "''BBPORT''" and v = "show_ld n"])
    (use assms int_show_length [of n] in
      \<open>auto simp: show_ld_plain show_ld_bytes key_plain fetch_line_def atol_show_ld to_int32_id\<close>)

lemma step_syncport:
  assumes "0 < n" "n < 2 ^ 31" "SPORT_IND sc = 0"
  shows "conf_step fetch_line (''SYNCPORT='' @ show_ld n) sc (sc\<lparr>SPORT := n, SPORT_IND := 2\<rparr>)"
  by (rule conf_step_key [where key = "''SYNCPORT''" and v = "show_ld n"])
    (use assms int_show_length [of n] in
      \<open>auto simp: show_ld_plain show_ld_bytes key_plain fetch_line_def atol_show_ld to_int32_id\<close>)

definition file_name :: "string \<Rightarrow> bool" where
  "file_name f \<longleftrightarrow> f \<noteq> [] \<and> length f < 500 \<and> (\<forall>c\<in>set [NUL, NL, SP, CHR ''='']. c \<notin> set f)"

lemma file_name_plain: "file_name f \<Longrightarrow> plain_word str_sep f"
  by (cases f) (auto simp: file_name_def plain_word_def list_all_iff str_sep_def)

lemma step_bbfile:
  assumes "file_name f" "BBFILE_IND sc = 0"
  shows "conf_step fetch_line (''BBFILE='' @ f) sc (sc\<lparr>BBFILE := f, BBFILE_IND := 2\<rparr>)"
  by (rule conf_step_key [where key = "''BBFILE''" and v = f])
    (use assms file_name_plain [OF assms(1)] in \<open>auto simp: file_name_def key_plain fetch_line_def\<close>)

abbreviation flag :: "bool \<Rightarrow> string" where
  "flag b \<equiv> show_ld (of_bool b)"

lemma step_daemon:
  assumes "DETACH_IND sc = 0"
  shows "conf_step fetch_line (''DAEMON='' @ flag b) sc (sc\<lparr>FDETACH := b, DETACH_IND := 2\<rparr>)"
  by (rule conf_step_key [where key = "''DAEMON''" and v = "flag b"])
    (use assms int_show_length [of "of_bool b"] in
      \<open>auto simp: show_ld_plain show_ld_bytes key_plain fetch_line_def atol_show_ld\<close>)

lemma step_debug:
  assumes "DEBUG_DELAY_IND sc = 0"
  shows "conf_step fetch_line (''DEBUG='' @ flag b) sc (sc\<lparr>DEBUG_DELAY := b, DEBUG_DELAY_IND := 2\<rparr>)"
  by (rule conf_step_key [where key = "''DEBUG''" and v = "flag b"])
    (use assms int_show_length [of "of_bool b"] in
      \<open>auto simp: show_ld_plain show_ld_bytes key_plain fetch_line_def atol_show_ld\<close>)

section \<open>The peers of a line\<close>

lemma takeWhile_drop_none: "c \<notin> set w \<Longrightarrow> takeWhile (\<lambda>d. d \<noteq> c) w = w"
  by (induction w) auto

lemma strtok_at_colon:
  assumes "w \<noteq> []" "CHR '':'' \<notin> set w" "NUL \<notin> set w" "NUL \<notin> set q"
  shows "strtok_at (pre @ w @ CHR '':'' # q @ NUL # r) (length pre) =
    Some (length pre, pre @ w @ NUL # q @ NUL # r, length pre + length w + 1)"
proof -
  have s: "cstr_at (pre @ w @ CHR '':'' # q @ NUL # r) (length pre) = w @ CHR '':'' # q"
    using assms(3,4) cstr_append [of "w @ CHR '':'' # q" "NUL # r"] by (simp add: cstr_at_def)
  have k: "takeWhile (\<lambda>c. c = CHR '':'') (w @ CHR '':'' # q) = []"
    using assms(1,2) by (cases w) auto
  have t: "takeWhile (\<lambda>c. c \<noteq> CHR '':'') (w @ CHR '':'' # q) = w"
    using takeWhile_drop_none [OF assms(2)] by (simp add: takeWhile_append)
  show ?thesis using assms(1)
    by (simp add: strtok_at_def s k t Let_def list_update_append)
qed

lemma strtok_at_last:
  assumes "w \<noteq> []" "CHR '':'' \<notin> set w" "NUL \<notin> set w"
  shows "strtok_at (pre @ w @ NUL # r) (length pre) =
    Some (length pre, pre @ w @ NUL # r, length pre + length w)"
proof -
  have s: "cstr_at (pre @ w @ NUL # r) (length pre) = w"
    using assms(3) by (simp add: cstr_at_def)
  have k: "takeWhile (\<lambda>c. c = CHR '':'') w = []"
    using assms(1,2) by (cases w) auto
  show ?thesis using assms(1)
    by (simp add: strtok_at_def s k takeWhile_drop_none [OF assms(2)] Let_def)
qed

text \<open>An address as it is written, and as it is stored at index \<open>i\<close>.\<close>

definition peer_text :: "string \<times> int \<Rightarrow> string" where
  "peer_text p = fst p @ CHR '':'' # show_ld (snd p)"

definition peer_entry :: "nat \<Rightarrow> string \<times> int \<Rightarrow> peer_info_s" where
  "peer_entry i p = \<lparr>pi_id = int i, pi_port = snd p, pi_ip = fst p\<rparr>"

definition peer_ok :: "string \<times> int \<Rightarrow> bool" where
  "peer_ok p \<longleftrightarrow> fst p \<noteq> [] \<and> length (fst p) < 20 \<and> - (2 ^ 31) \<le> snd p \<and> snd p < 2 ^ 31 \<and>
     (\<forall>c\<in>set [NUL, NL, SP, CHR ''='', CHR '':'']. c \<notin> set (fst p))"

lemma show_ld_colon: "CHR '':'' \<notin> set (show_ld n)"
  by (rule show_ld_no) (auto simp: is_digit_def)

lemma parse_peer_text:
  assumes "peer_ok p"
  shows "parse_peer i (pre @ peer_text p @ NUL # r) (length pre) =
    Inr (peer_entry i p, pre @ fst p @ NUL # show_ld (snd p) @ NUL # r)"
proof -
  obtain ip n where p: "p = (ip, n)" by (cases p)
  have ip: "ip \<noteq> []" "CHR '':'' \<notin> set ip" "NUL \<notin> set ip" "length ip < 20"
    using assms p by (auto simp: peer_ok_def)
  have a: "strtok_at (pre @ ip @ CHR '':'' # show_ld n @ NUL # r) (length pre) =
      Some (length pre, pre @ ip @ NUL # show_ld n @ NUL # r, length pre + length ip + 1)"
    using strtok_at_colon [OF ip(1-3) show_ld_bytes(1)] .
  have b: "strtok_at (pre @ ip @ NUL # show_ld n @ NUL # r) (length pre + length ip + 1) =
      Some (length pre + length ip + 1, pre @ ip @ NUL # show_ld n @ NUL # r,
        length pre + length ip + 1 + length (show_ld n))"
    using strtok_at_last [of "show_ld n" "pre @ ip @ [NUL]" r] show_ld_colon show_ld_bytes by simp
  have c: "cstr_at (pre @ ip @ NUL # show_ld n @ NUL # r) (length pre) = ip"
    using ip(3) cstr_at_drop [of pre "length pre" "ip @ NUL # show_ld n @ NUL # r"] by simp
  have d: "cstr_at (pre @ ip @ NUL # show_ld n @ NUL # r) (length pre + length ip + 1) = show_ld n"
    using show_ld_bytes(1) [of n]
      cstr_at_drop [of "pre @ ip @ [NUL]" "length pre + length ip + 1" "show_ld n @ NUL # r"] by simp
  show ?thesis
    using ip(4) assms
    by (simp add: p parse_peer_def peer_text_def peer_entry_def peer_ok_def a b c d snprintf_def
        atoi_show_ld del: One_nat_def add_Suc_right)
qed

lemma peer_text_plain: "peer_ok p \<Longrightarrow> plain_word str_sep (peer_text p)"
  using show_ld_plain [of "snd p"]
  by (cases "fst p") (auto simp: peer_ok_def peer_text_def plain_word_def list_all_iff str_sep_def)

lemma peer_text_bytes: "peer_ok p \<Longrightarrow> NUL \<notin> set (peer_text p) \<and> NL \<notin> set (peer_text p)"
  by (simp add: peer_ok_def peer_text_def show_ld_bytes)

lemma peer_text_colon: "strstr1 (peer_text p) (CHR '':'')"
  by (simp add: strstr1_def peer_text_def)

fun peer_entries :: "nat \<Rightarrow> (string \<times> int) list \<Rightarrow> peer_info_s option list" where
  "peer_entries i [] = []"
| "peer_entries i (p # ps) = Some (peer_entry i p) # peer_entries (Suc i) ps"

lemma conf_peers_texts:
  assumes "list_all peer_ok ps" and "length d = i" and "peer_info sc = d @ replicate (length ps) None"
  shows "\<exists>buf. conf_peers i (offsets (Suc (length pre)) (map peer_text ps))
      (pre @ nul_words (map peer_text ps) @ NUL # r) sc =
    Inr (buf, sc\<lparr>NO_PEERS := NO_PEERS sc + int (length ps), peer_info := d @ peer_entries i ps\<rparr>)"
  using assms
proof (induction ps arbitrary: i pre sc d)
  case Nil
  then show ?case by simp
next
  case (Cons p ps)
  define rest where "rest = nul_words (map peer_text ps) @ NUL # r"
  obtain x where x: "rest = NUL # x" by (cases ps) (auto simp: rest_def)
  have p: "peer_ok p" using Cons.prems(1) by simp
  have t: "cstr_at (pre @ NUL # peer_text p @ rest) (Suc (length pre)) = peer_text p"
    using x peer_text_bytes [OF p]
      cstr_at_drop [of "pre @ [NUL]" "Suc (length pre)" "peer_text p @ NUL # x"] by simp
  have parse: "parse_peer i (pre @ NUL # peer_text p @ rest) (Suc (length pre)) =
      Inr (peer_entry i p, pre @ NUL # fst p @ NUL # show_ld (snd p) @ rest)"
    using parse_peer_text [OF p, of i "pre @ [NUL]" x] x by simp
  let ?pre = "pre @ NUL # fst p @ NUL # show_ld (snd p)"
  define sc1 where "sc1 = sc\<lparr>NO_PEERS := NO_PEERS sc + 1, peer_info := (peer_info sc)[i := Some (peer_entry i p)]\<rparr>"
  have sc1: "peer_info sc1 = (d @ [Some (peer_entry i p)]) @ replicate (length ps) None"
    using Cons.prems(2,3) by (simp add: sc1_def list_update_append)
  have len: "Suc (Suc (length pre) + length (peer_text p)) = Suc (length ?pre)"
    by (simp add: peer_text_def)
  obtain buf where "conf_peers (Suc i) (offsets (Suc (length ?pre)) (map peer_text ps)) (?pre @ rest) sc1 =
      Inr (buf, sc1\<lparr>NO_PEERS := NO_PEERS sc1 + int (length ps),
        peer_info := (d @ [Some (peer_entry i p)]) @ peer_entries (Suc i) ps\<rparr>)"
    unfolding rest_def using Cons.IH [OF _ _ sc1, of "Suc i" ?pre] Cons.prems(1,2) by auto
  moreover have "conf_peers i (offsets (Suc (length pre)) (map peer_text (p # ps)))
      (pre @ NUL # peer_text p @ rest) sc =
      conf_peers (Suc i) (offsets (Suc (length ?pre)) (map peer_text ps)) (?pre @ rest) sc1"
    unfolding list.map offsets.simps conf_peers.simps t parse len sc1_def
    by (simp add: peer_text_colon)
  moreover have "pre @ nul_words (map peer_text (p # ps)) @ NUL # r = pre @ NUL # peer_text p @ rest"
    by (simp add: rest_def)
  ultimately show ?case by (simp add: sc1_def)
qed

text \<open>The line \<open>PEERS=ip:port ip:port ...\<close>\<close>

definition peers_line :: "(string \<times> int) list \<Rightarrow> string" where
  "peers_line ps = (case ps of [] \<Rightarrow> ''PEERS=''
     | p # r \<Rightarrow> ''PEERS='' @ peer_text p @ concat (map (\<lambda>q. SP # peer_text q) r))"

lemma peers_line_words:
  "ps \<noteq> [] \<Longrightarrow> peers_line ps = ''PEERS'' @ sep_words (zip (CHR ''='' # replicate (length ps - 1) SP) (map peer_text ps))"
proof -
  have "concat (map (\<lambda>q. SP # peer_text q) r) = sep_words (zip (replicate (length r) SP) (map peer_text r))" for r
    by (induction r) auto
  then show "ps \<noteq> [] \<Longrightarrow> ?thesis" by (cases ps) (auto simp: peers_line_def)
qed

lemma step_peers:
  assumes ps: "ps \<noteq> []" "list_all peer_ok ps" "length (peers_line ps) < 512" and "PEER_COMMS_IND sc = 0"
  shows "conf_step fetch_line (peers_line ps) sc
    (sc\<lparr>NO_PEERS := NO_PEERS sc + int (length ps), peer_info := peer_entries 0 ps, PEER_COMMS_IND := 2\<rparr>)"
proof -
  let ?ws = "zip (CHR ''='' # replicate (length ps - 1) SP) (map peer_text ps)"
  have snd: "map snd ?ws = map peer_text ps" using ps(1) by (simp add: map_snd_zip)
  have plain: "list_all (\<lambda>(c, w). str_sep c \<and> plain_word str_sep w) ?ws"
  proof (unfold list_all_iff, clarify)
    fix c w
    assume "(c, w) \<in> set ?ws"
    then have "c \<in> set (CHR ''='' # replicate (length ps - 1) SP)" "w \<in> peer_text ` set ps"
      by (auto dest: set_zip_leftD set_zip_rightD)
    with ps(2) show "str_sep c \<and> plain_word str_sep w"
      by (auto simp: str_sep_def list_all_iff peer_text_plain split: if_splits)
  qed
  have bytes: "NL \<notin> set (peers_line ps)" "NUL \<notin> set (peers_line ps)"
    using ps(1,2) by (cases ps; auto simp: peers_line_def list_all_iff dest: peer_text_bytes)+
  define toks where "toks = 0 # offsets (Suc (length ''PEERS'')) (map peer_text ps)"
  have "\<exists>s'. peers_ind s' = 0 \<and> config_loop fetch_line (map Byte (peers_line ps) @ Byte NL # fd) sc s =
      config_loop fetch_line fd (sc\<lparr>NO_PEERS := NO_PEERS sc + int (length ps),
        peer_info := peer_entries 0 ps, PEER_COMMS_IND := 2\<rparr>) s'" if p: "peers_ind s = 0" for fd s
  proof -
    define r where "r = drop (Suc (length (peers_line ps))) (command s)"
    define t where "t = store_tokens s (''PEERS'' @ nul_words (map peer_text ps) @ NUL # r) toks"
    have word: "cstr_at (command t) 0 = ''PEERS''"
      using ps(1) by (cases ps) (auto simp: t_def cstr_simps cstr_append [of "''PEERS''", simplified])
    obtain k where len: "length toks = Suc (Suc k)" "Suc k = length ps"
      using ps(1) by (cases ps) (auto simp: toks_def length_offsets)
    obtain buf where peers: "conf_peers 0 (tl toks) (command t) (sc\<lparr>peer_info := replicate (length toks - 1) None\<rparr>) =
        Inr (buf, sc\<lparr>NO_PEERS := NO_PEERS sc + int (length ps), peer_info := peer_entries 0 ps\<rparr>)"
      using conf_peers_texts [OF ps(2), of "[]" 0 "sc\<lparr>peer_info := replicate (length ps) None\<rparr>" "''PEERS''" r]
        len by (auto simp: t_def toks_def)
    have line: "fetch_line toks sc t = Inr (sc\<lparr>NO_PEERS := NO_PEERS sc + int (length ps),
        peer_info := peer_entries 0 ps, PEER_COMMS_IND := 2\<rparr>, t\<lparr>command := buf, pc_ind := 1\<rparr>)"
      using len(1) assms(4) unfolding fetch_line_def Let_def word peers by simp
    have "config_loop fetch_line (map Byte (peers_line ps) @ Byte NL # fd) sc s =
        (case fetch_line toks sc t of Inl e \<Rightarrow> Inl e | Inr q \<Rightarrow> config_loop fetch_line fd (fst q) (snd q))"
      unfolding t_def
      by (rule config_loop_words [OF peers_line_words [OF ps(1)] missing_peers [OF p] bytes ps(3) _ plain])
        (unfold toks_def snd r_def, simp_all add: str_sep_def)
    moreover have "peers_ind t = 0" using p by (simp add: t_def)
    ultimately show ?thesis using line
      by (intro exI [of _ "t\<lparr>command := buf, pc_ind := 1\<rparr>"]) simp
  qed
  then show ?thesis by (simp add: conf_step_def)
qed

section \<open>Properties of the readers\<close>

text \<open>
  Property C18: the settings of a configuration file reach the server. A file that gives every
  setting (in the order of \<open>bbserv.conf\<close>, with at least one peer) is read into exactly these settings,
  and the command line sets them when it is empty.
\<close>

theorem config_roundtrip:
  assumes "0 < t" "t < 2 ^ 31" "0 < p" "p < 2 ^ 31" "0 < s" "s < 2 ^ 31" and "file_name f"
    and "ps \<noteq> []" "list_all peer_ok ps" "length (peers_line ps) < 512"
  shows "(case fetch_cmndLine [] (default_config bb) of Inl e \<Rightarrow> Inl e | Inr sc \<Rightarrow>
      fetch_config junk (Some (conf_text [''THMAX='' @ show_ld t, ''BBPORT='' @ show_ld p,
        ''SYNCPORT='' @ show_ld s, ''BBFILE='' @ f, peers_line ps, ''DAEMON='' @ flag d,
        ''DEBUG='' @ flag g])) sc) =
    Inr \<lparr>T_MAX = t, T_MAX_IND = 2, BP = p, BP_IND = 2, SPORT = s, SPORT_IND = 2,
      NO_PEERS = int (length ps), PEER_COMMS_IND = 2, CDETACH = True, FDETACH = d, DETACH = True,
      DETACH_IND = 2, DEBUG_DELAY = g, DEBUG_DELAY_IND = 2, BBFILE = f, BBFILE_IND = 2,
      CONF_FILE = ''bbserv.conf'', CONF_FILE_IND = 0, peer_info = peer_entries 0 ps\<rparr>"
proof -
  have cmd: "fetch_cmndLine [] (default_config bb) = Inr (default_config bb)"
    by (simp add: fetch_cmndLine_def default_config_def Let_def)
  show ?thesis
    unfolding cmd sum.case fetch_config_def conf_reads_def option.case
    apply (rule conf_step_then [OF step_thmax [OF assms(1,2)]], simp add: default_config_def)
     apply (simp add: scan_start_def)
    apply (rule conf_step_then [OF step_bbport [OF assms(3,4)]], simp add: default_config_def, assumption)
    apply (rule conf_step_then [OF step_syncport [OF assms(5,6)]], simp add: default_config_def, assumption)
    apply (rule conf_step_then [OF step_bbfile [OF assms(7)]], simp add: default_config_def, assumption)
    apply (rule conf_step_then [OF step_peers [OF assms(8-10)]], simp add: default_config_def, assumption)
    apply (rule conf_step_then [OF step_daemon], simp add: default_config_def, assumption)
    apply (rule conf_step_then [OF step_debug], simp add: default_config_def, assumption)
    apply (simp add: config_loop_end default_config_def)
    done
qed

theorem config_roundtrip_witness:
  "\<exists>sc. (case fetch_cmndLine [] (default_config ''bbfile'') of Inl e \<Rightarrow> Inl e | Inr sc \<Rightarrow>
      fetch_config [] (Some (conf_text [''THMAX='' @ show_ld 5, ''BBPORT='' @ show_ld 9001,
        ''SYNCPORT='' @ show_ld 10001, ''BBFILE='' @ ''bbfile.txt'', peers_line [(''localhost'', 10002)],
        ''DAEMON='' @ flag True, ''DEBUG='' @ flag False])) sc) = Inr sc \<and> T_MAX sc = 5 \<and> NO_PEERS sc = 1 \<and>
    peer_info sc = [Some \<lparr>pi_id = 0, pi_port = 10002, pi_ip = ''localhost''\<rparr>]"
proof -
  have "file_name ''bbfile.txt''" "list_all peer_ok [(''localhost'', 10002)]"
    by (simp_all add: file_name_def peer_ok_def)
  moreover have "length (peers_line [(''localhost'', 10002)]) < 512"
    using int_show_length [of 10002] by (simp add: peers_line_def peer_text_def)
  moreover have "[(''localhost'', 10002 :: int)] \<noteq> []" by simp
  ultimately have r: "(case fetch_cmndLine [] (default_config ''bbfile'') of Inl e \<Rightarrow> Inl e | Inr sc \<Rightarrow>
      fetch_config [] (Some (conf_text [''THMAX='' @ show_ld 5, ''BBPORT='' @ show_ld 9001,
        ''SYNCPORT='' @ show_ld 10001, ''BBFILE='' @ ''bbfile.txt'', peers_line [(''localhost'', 10002)],
        ''DAEMON='' @ flag True, ''DEBUG='' @ flag False])) sc) =
    Inr \<lparr>T_MAX = 5, T_MAX_IND = 2, BP = 9001, BP_IND = 2, SPORT = 10001, SPORT_IND = 2,
      NO_PEERS = int (length [(''localhost'', 10002 :: int)]), PEER_COMMS_IND = 2, CDETACH = True, FDETACH = True,
      DETACH = True, DETACH_IND = 2, DEBUG_DELAY = False, DEBUG_DELAY_IND = 2, BBFILE = ''bbfile.txt'',
      BBFILE_IND = 2, CONF_FILE = ''bbserv.conf'', CONF_FILE_IND = 0,
      peer_info = peer_entries 0 [(''localhost'', 10002)]\<rparr>"
    by (intro config_roundtrip) simp_all
  show ?thesis unfolding r by (simp add: peer_entry_def)
qed

end
