(* ===== verification/ConfigProps.thy ===== *)
theory ConfigProps
  imports ConfigFile
begin

text \<open>
  What the configuration guarantees: the range of every setting that the server ever runs with, the
  precedence of the command line, what a reload keeps, the peers given as operands, and lines without
  a value.
\<close>

section \<open>Well-typed settings\<close>

definition int_ok :: "int \<Rightarrow> bool" where
  "int_ok n \<longleftrightarrow> - (2 ^ 31) \<le> n \<and> n < 2 ^ 31"

text \<open>
  The values fit the C types: integers of 32 bits, arrays of 1024, 50 and 20 bytes, and exactly
  \<open>NO_PEERS\<close> entries of \<open>peer_info\<close> are written, each with its index as \<open>id\<close>.
\<close>

definition entry_ok :: "nat \<Rightarrow> peer_info_s option \<Rightarrow> bool" where
  "entry_ok i e = (case e of None \<Rightarrow> True
     | Some p \<Rightarrow> pi_id p = int i \<and> int_ok (pi_port p) \<and> length (pi_ip p) < 20)"

definition written :: "peer_info_s option list \<Rightarrow> int" where
  "written ps = int (length (filter (\<lambda>e. e \<noteq> None) ps))"

definition peers_ok :: "peer_info_s option list \<Rightarrow> bool" where
  "peers_ok ps \<longleftrightarrow> list_all (\<lambda>i. entry_ok i (ps ! i)) [0..<length ps]"

definition typed :: "sconf \<Rightarrow> bool" where
  "typed sc \<longleftrightarrow> int_ok (T_MAX sc) \<and> int_ok (BP sc) \<and> int_ok (SPORT sc) \<and> length (BBFILE sc) < MAX_LEN \<and>
     length (CONF_FILE sc) < 50 \<and> NO_PEERS sc = written (peer_info sc) \<and> peers_ok (peer_info sc)"

lemma int_ok_atoi [simp]: "int_ok (atoi s)"
  using atoi_range by (simp add: int_ok_def)

lemma int_ok_int32 [simp]: "int_ok (to_int32 n)"
  using to_int32_range by (simp add: int_ok_def)

lemma strtok_at_length: "strtok_at buf off = Some (a, buf', nxt) \<Longrightarrow> length buf' = length buf"
  by (auto simp: strtok_at_def Let_def split: if_splits)

lemma parse_peer_ok:
  assumes "parse_peer i buf off = Inr (p, buf')"
  shows "entry_ok i (Some p) \<and> length buf' = length buf"
proof -
  obtain a buf1 nxt where a: "strtok_at buf off = Some (a, buf1, nxt)"
    and short: "length (snprintf 1024 (cstr_at buf1 a)) < 20"
    using assms by (auto simp: parse_peer_def split: option.splits if_splits)
  obtain q r where b: "strtok_at buf1 nxt = Some (q, buf', r)"
    and p: "p = \<lparr>pi_id = int i, pi_port = atoi (cstr_at buf' q), pi_ip = cstr_at buf1 a\<rparr>"
    using assms a short by (auto simp: parse_peer_def split: option.splits)
  have "length (cstr_at buf1 a) < 20" using short by (simp add: snprintf_def)
  then show ?thesis using strtok_at_length [OF a] strtok_at_length [OF b] p by (simp add: entry_ok_def)
qed

lemma peers_ok_upd: "peers_ok ps \<Longrightarrow> entry_ok i e \<Longrightarrow> peers_ok (ps[i := e])"
  unfolding peers_ok_def list_all_iff by (metis length_list_update nth_list_update_eq nth_list_update_neq
      atLeastLessThan_iff set_upt)

lemma peers_ok_none: "peers_ok (replicate n None)"
  by (auto simp: peers_ok_def list_all_iff entry_ok_def)

lemma written_none: "written (replicate n None) = 0"
  by (simp add: written_def)

lemma written_split: "written (a @ e # b) = written (a @ None # b) + of_bool (e \<noteq> None)"
  by (simp add: written_def)

lemma written_upd:
  assumes "i < length ps" and "ps ! i = None"
  shows "written (ps[i := Some p]) = written ps + 1"
proof -
  have "ps = take i ps @ None # drop (Suc i) ps" using assms by (metis id_take_nth_drop)
  then have "written ps = written (take i ps @ None # drop (Suc i) ps)" by simp
  then show ?thesis
    using assms(1) written_split [of "take i ps" "Some p"] by (simp add: upd_conv_take_nth_drop)
qed

text \<open>The loops over peers fill the entries from index \<open>i\<close> on, which are not written yet.\<close>

lemma conf_peers_ok:
  assumes "conf_peers i offs buf sc = Inr (buf', sc')" and "peers_ok (peer_info sc)"
    and "length (peer_info sc) = i + length offs" and "\<And>j. i \<le> j \<Longrightarrow> j < i + length offs \<Longrightarrow> peer_info sc ! j = None"
    and "NO_PEERS sc = written (peer_info sc)"
  shows "\<exists>n ps. sc' = sc\<lparr>NO_PEERS := n, peer_info := ps\<rparr> \<and> peers_ok ps \<and> n = written ps \<and>
    length buf' = length buf"
  using assms
proof (induction i offs buf sc rule: conf_peers.induct)
  case (1 i buf sc)
  then have "sc' = sc\<lparr>NO_PEERS := NO_PEERS sc, peer_info := peer_info sc\<rparr>" "buf' = buf" by simp_all
  with 1 show ?case by blast
next
  case (2 i off offs buf sc)
  show ?case
  proof (cases "strstr1 (cstr_at buf off) (CHR '':'')")
    case True
    with 2(3) obtain p buf1 where p: "parse_peer i buf off = Inr (p, buf1)"
      and r: "conf_peers (Suc i) offs buf1
        (sc\<lparr>NO_PEERS := NO_PEERS sc + 1, peer_info := (peer_info sc)[i := Some p]\<rparr>) = Inr (buf', sc')"
      by (auto split: sum.splits prod.splits)
    have i: "i < length (peer_info sc)" "peer_info sc ! i = None" using 2(5,6) by auto
    show ?thesis
      using 2(1) [OF True p refl r] parse_peer_ok [OF p] 2(4-7) i
      by (auto simp: peers_ok_upd written_upd)
  next
    case False
    then show ?thesis using 2(2) [OF False] 2(3-7) by simp
  qed
qed

text \<open>What a reader keeps, line by line, holds of what it returns.\<close>

lemma str_tokenize_length: "length (fst (str_tokenize buf n)) = length buf"
  using tok_loop_fits [of str_sep n buf "[0]" 0] by (cases "str_tokenize buf n") (auto simp: str_tokenize_def)

lemma config_loop_inv:
  assumes "config_loop line fd sc s = Inr sc'" and "I sc" and "length (command s) = 513"
    and line: "\<And>toks sc s sc' s'. line toks sc s = Inr (sc', s') \<Longrightarrow> I sc \<Longrightarrow> length (command s) = 513 \<Longrightarrow>
      I sc' \<and> length (command s') = 513"
  shows "I sc'"
  using assms(1-3)
proof (induction "length fd" arbitrary: fd sc s rule: less_induct)
  case less
  define r where "r = readline fd (command s) 512"
  define t where "t = str_tokenize (fst (snd r)) (length (cstr (fst (snd r))))"
  define s1 where "s1 = store_tokens s (fst t) (snd t)"
  show ?case
  proof (cases "\<not> still_missing s \<or> fst r = recv_nodata \<or> fst r < 0")
    case True
    then show ?thesis
      using less.prems(1,2) by (subst (asm) config_loop.simps) (auto simp: Let_def r_def split: if_splits)
  next
    case False
    have "config_loop line fd sc s = (case line (snd t) sc s1 of Inl e \<Rightarrow> Inl e
        | Inr q \<Rightarrow> config_loop line (snd (snd r)) (fst q) (snd q))"
      using False unfolding s1_def t_def r_def by (subst config_loop.simps) (simp add: Let_def)
    with less.prems(1) obtain sc1 s2 where l: "line (snd t) sc s1 = Inr (sc1, s2)"
      and c: "config_loop line (snd (snd r)) sc1 s2 = Inr sc'"
      by (cases "line (snd t) sc s1") auto
    have "length (command s1) = 513"
      using less.prems(3) readline_length [of "command s" 512 fd]
      by (simp add: s1_def t_def r_def str_tokenize_length)
    then have "I sc1" "length (command s2) = 513" using line [OF l less.prems(2)] by auto
    moreover have "length (snd (snd r)) < length fd"
      using False readline_consumes [of fd "command s" 512] by (auto simp: r_def)
    ultimately show ?thesis using less.hyps c by blast
  qed
qed

lemma com_arg_length: "com_arg s i = Inr v \<Longrightarrow> length v \<le> length (command s)"
  by (auto simp: com_arg_def cstr_at_def cstr_def split: option.splits)
    (metis diff_le_self dual_order.trans length_drop length_takeWhile_le)

definition fresh_peers :: "sconf \<Rightarrow> bool" where
  "fresh_peers sc \<longleftrightarrow> (PEER_COMMS_IND sc = 0 \<longrightarrow> NO_PEERS sc = 0)"

lemma conf_peers_typed:
  assumes "conf_peers 0 offs buf (sc\<lparr>NO_PEERS := 0, peer_info := replicate (length offs) None\<rparr>) = Inr (buf', sc')"
    and "typed sc"
  shows "typed (sc'\<lparr>PEER_COMMS_IND := 2\<rparr>) \<and> length buf' = length buf"
proof -
  obtain n ps where "sc' = sc\<lparr>NO_PEERS := n, peer_info := ps\<rparr>" "peers_ok ps" "n = written ps"
    "length buf' = length buf"
    using conf_peers_ok [OF assms(1)] by (auto simp: peers_ok_none written_none)
  with assms(2) show ?thesis by (simp add: typed_def)
qed

lemma no_peers_id: "NO_PEERS sc = 0 \<Longrightarrow> sc\<lparr>peer_info := ps\<rparr> = sc\<lparr>NO_PEERS := 0, peer_info := ps\<rparr>"
  by simp

lemma force_line_typed:
  assumes "force_line toks sc s = Inr (sc', s')" and "typed sc" and "length (command s) = 513"
  shows "typed sc' \<and> length (command s') = 513"
proof (cases "cstr_at (command s) 0 = ''PEERS'' \<and> 1 < length toks")
  case True
  then obtain buf sc1 where "conf_peers 0 (tl toks) (command s)
      (sc\<lparr>NO_PEERS := 0, peer_info := replicate (length (tl toks)) None\<rparr>) = Inr (buf, sc1)"
    "sc' = sc1\<lparr>PEER_COMMS_IND := 2\<rparr>" "s' = s\<lparr>command := buf\<rparr>"
    using assms(1) unfolding force_line_def Let_def by (simp split: sum.splits prod.splits)
  with conf_peers_typed [of "tl toks" "command s" sc buf sc1] assms(2,3) show ?thesis by simp
next
  case False
  have v: "com_arg s 1 = Inr v \<Longrightarrow> length v < MAX_LEN" for v
    using com_arg_length assms(3) by (fastforce simp: MAX_LEN_def)
  show ?thesis
    using assms False unfolding force_line_def Let_def
    by (auto simp: typed_def v split: if_splits sum.splits)
qed

lemma fetch_line_typed:
  assumes "fetch_line toks sc s = Inr (sc', s')" and "typed sc \<and> fresh_peers sc" and "length (command s) = 513"
  shows "(typed sc' \<and> fresh_peers sc') \<and> length (command s') = 513"
proof (cases "cstr_at (command s) 0 = ''PEERS'' \<and> 1 < length toks \<and> PEER_COMMS_IND sc = 0")
  case True
  then obtain buf sc1 where "conf_peers 0 (tl toks) (command s)
      (sc\<lparr>NO_PEERS := 0, peer_info := replicate (length (tl toks)) None\<rparr>) = Inr (buf, sc1)"
    "sc' = sc1\<lparr>PEER_COMMS_IND := 2\<rparr>" "s' = s\<lparr>command := buf, pc_ind := 1\<rparr>"
    using assms(1,2) no_peers_id [of sc] unfolding fetch_line_def Let_def fresh_peers_def
    by (simp split: sum.splits prod.splits)
  with conf_peers_typed [of "tl toks" "command s" sc buf sc1] assms(2,3) show ?thesis
    by (simp add: fresh_peers_def)
next
  case False
  have v: "com_arg s 1 = Inr v \<Longrightarrow> length v < MAX_LEN" for v
    using com_arg_length assms(3) by (fastforce simp: MAX_LEN_def)
  show ?thesis
    using assms False unfolding fetch_line_def Let_def
    by (auto simp: typed_def fresh_peers_def v split: if_splits sum.splits)
qed

lemma operand_loop_ok:
  assumes "operand_loop i ops sc = Inr sc'" and "peers_ok (peer_info sc)"
    and "length (peer_info sc) = i + length ops" and "\<And>j. i \<le> j \<Longrightarrow> j < i + length ops \<Longrightarrow> peer_info sc ! j = None"
    and "NO_PEERS sc = written (peer_info sc) + int (length ops)"
  shows "\<exists>n ps. sc' = sc\<lparr>NO_PEERS := n, peer_info := ps\<rparr> \<and> peers_ok ps \<and> n = written ps"
  using assms
proof (induction i ops sc rule: operand_loop.induct)
  case (1 i sc)
  then show ?case by (intro exI [of _ "NO_PEERS sc"] exI [of _ "peer_info sc"]) simp
next
  case (2 i a as sc)
  show ?case
  proof (cases "strstr1 a (CHR '':'')")
    case True
    with 2(3) obtain p buf where p: "parse_peer i (a @ [NUL]) 0 = Inr (p, buf)"
      and r: "operand_loop (Suc i) as (sc\<lparr>peer_info := (peer_info sc)[i := Some p]\<rparr>) = Inr sc'"
      by (auto split: sum.splits prod.splits)
    have i: "i < length (peer_info sc)" "peer_info sc ! i = None" using 2(5,6) by auto
    show ?thesis
      using 2(1) [OF True p refl r] parse_peer_ok [OF p] 2(4-7) i
      by (auto simp: peers_ok_upd written_upd)
  next
    case False
    then show ?thesis using 2(2) [OF False] 2(3-7) by simp
  qed
qed

lemma set_options_typed: "set_options evs sc = Inr sc' \<Longrightarrow> typed sc \<Longrightarrow> typed sc'"
proof (induction evs sc rule: set_options.induct)
  case (2 ev evs sc)
  obtain sc1 where sc1: "set_option ev sc = Inr sc1" "set_options evs sc1 = Inr sc'"
    using 2(2) by (auto split: sum.splits)
  have "typed sc1"
    using sc1(1) 2(3) by (auto simp: set_option_def typed_def MAX_LEN_def split: prod.splits if_splits)
  with 2(1) sc1 show ?case by blast
qed simp

lemma set_options_peers: "set_options evs sc = Inr sc' \<Longrightarrow> peer_info sc' = peer_info sc"
proof (induction evs sc rule: set_options.induct)
  case (2 ev evs sc)
  obtain sc1 where sc1: "set_option ev sc = Inr sc1" "set_options evs sc1 = Inr sc'"
    using 2(2) by (auto split: sum.splits)
  have "peer_info sc1 = peer_info sc"
    using sc1(1) by (auto simp: set_option_def split: prod.splits if_splits)
  with 2(1) [OF sc1] show ?case by simp
qed simp

lemma fetch_cmndLine_typed:
  assumes "fetch_cmndLine args sc = Inr sc'" and "typed sc"
  shows "typed sc' \<and> (PEER_COMMS_IND sc' = 0 \<longrightarrow> NO_PEERS sc' = 0) \<or> peer_info sc \<noteq> []"
proof (cases "peer_info sc = []")
  case True
  obtain evs ops where go: "getopt_all args = (evs, ops)" by (cases "getopt_all args")
  obtain sc1 where sc1: "set_options evs sc = Inr sc1"
    using assms(1) go by (cases "set_options evs sc") (auto simp: fetch_cmndLine_def)
  have t: "typed sc1" using set_options_typed [OF sc1 assms(2)] .
  have e: "peer_info sc1 = []" using set_options_peers [OF sc1] True by simp
  show ?thesis
  proof (cases "ops = []")
    case True
    then have "sc' = sc1\<lparr>NO_PEERS := 0\<rparr>"
      using assms(1) go sc1 by (simp add: fetch_cmndLine_def)
    with t e show ?thesis by (simp add: typed_def written_def)
  next
    case False
    let ?sc2 = "sc1\<lparr>NO_PEERS := int (length ops), PEER_COMMS_IND := 1, peer_info := replicate (length ops) None\<rparr>"
    have "1 \<le> length ops" using False by (cases ops) auto
    then have r: "operand_loop 0 ops ?sc2 = Inr sc'"
      using assms(1) unfolding fetch_cmndLine_def go prod.case sc1 sum.case Let_def by simp
    obtain n ps where "sc' = ?sc2\<lparr>NO_PEERS := n, peer_info := ps\<rparr>" "peers_ok ps" "n = written ps"
      using operand_loop_ok [OF r] by (auto simp: peers_ok_none written_none)
    with t show ?thesis by (simp add: typed_def)
  qed
qed simp

lemma start_typed:
  assumes "start_config args bb junk files = Inr sc" and "length bb < MAX_LEN"
  shows "typed sc"
proof -
  obtain sc1 where sc1: "fetch_cmndLine args (default_config bb) = Inr sc1"
    using assms(1) by (cases "fetch_cmndLine args (default_config bb)") (auto simp: start_config_def)
  obtain sc2 where sc2: "fetch_config junk (files (CONF_FILE sc1)) sc1 = Inr sc2"
    using assms(1) sc1 by (cases "fetch_config junk (files (CONF_FILE sc1)) sc1") (auto simp: start_config_def)
  have "typed (default_config bb)" using assms(2)
    by (simp add: typed_def default_config_def int_ok_def written_def peers_ok_def)
  from fetch_cmndLine_typed [OF sc1 this] have t: "typed sc1 \<and> fresh_peers sc1"
    by (auto simp: fresh_peers_def default_config_def)
  have start: "length (command (scan_start junk)) = 513"
    by (simp add: scan_start_def min_def)
  have "typed sc2 \<and> fresh_peers sc2"
    using config_loop_inv [OF sc2 [unfolded fetch_config_def], of "\<lambda>sc. typed sc \<and> fresh_peers sc"]
      t start fetch_line_typed by blast
  then show ?thesis using assms(1) sc1 sc2 by (auto simp: start_config_def typed_def)
qed

lemma reload_typed:
  assumes "reload_config bb junk files sc = Inr sc'" and "length bb < MAX_LEN" and "typed sc"
  shows "typed sc'"
proof -
  have "typed (hup_reset bb sc)" using assms(2,3) by (simp add: typed_def hup_reset_def int_ok_def)
  moreover have "length (command (scan_start junk)) = 513"
    by (simp add: scan_start_def min_def)
  ultimately show ?thesis
    using config_loop_inv [OF assms(1) [unfolded reload_config_def force_fetch_config_def], of typed]
      force_line_typed by blast
qed

text \<open>
  Property C9: every configuration the server runs with is well typed, from the start and through any
  number of reloads, whatever the arguments and the files: numbers fit an \<open>int\<close>, names fit their
  arrays, \<open>NO_PEERS\<close> is the number of entries of \<open>peer_info\<close> that were written, and every written
  entry has its index as \<open>id\<close>.
\<close>

theorem config_typed:
  assumes "start_config args bb junk files = Inr sc" and "length bb < MAX_LEN"
    and "list_all (\<lambda>(b, _). length b < MAX_LEN) hups" and "reload_configs hups sc = Inr sc'"
  shows "int_ok (T_MAX sc') \<and> int_ok (BP sc') \<and> int_ok (SPORT sc') \<and> length (BBFILE sc') < MAX_LEN \<and>
    length (CONF_FILE sc') < 50 \<and> NO_PEERS sc' = written (peer_info sc') \<and>
    (\<forall>i p. i < length (peer_info sc') \<and> peer_info sc' ! i = Some p \<longrightarrow>
       pi_id p = int i \<and> int_ok (pi_port p) \<and> length (pi_ip p) < 20)"
proof -
  have "typed sc" using start_typed [OF assms(1,2)] .
  then have "typed sc'" using assms(3,4)
  proof (induction hups sc rule: reload_configs.induct)
    case (2 b junk files hups sc)
    then obtain sc1 where r: "reload_config b junk files sc = Inr sc1" and "reload_configs hups sc1 = Inr sc'"
      by (auto split: sum.splits)
    with 2 reload_typed [OF r] show ?case by auto
  qed simp
  then show ?thesis
    by (force simp: typed_def peers_ok_def list_all_iff entry_ok_def split: option.splits)
qed

theorem config_typed_witness:
  "length (BBFILE (default_config ''b'')) < MAX_LEN \<and>
   NO_PEERS (default_config ''b'') = written (peer_info (default_config ''b''))"
proof -
  have r: "config_loop line [Fail] sc (scan_start []) = Inr sc" for line sc
    by (subst config_loop.simps) (simp add: scan_start_def still_missing_def readline_def recv_nodata_def numeral_eq_Suc Let_def)
  have s: "start_config [] ''b'' [] (\<lambda>_. None) = Inr (default_config ''b'')"
    by (simp add: start_config_def fetch_cmndLine_def fetch_config_def conf_reads_def r Let_def)
      (simp add: default_config_def r)
  show ?thesis
    using config_typed [OF s, of "[]" "default_config ''b''"] by (simp add: default_config_def MAX_LEN_def)
qed

section \<open>Precedence of the command line\<close>

definition settings_kept :: "sconf \<Rightarrow> sconf \<Rightarrow> bool" where
  "settings_kept sc sc' \<longleftrightarrow> (T_MAX_IND sc \<noteq> 0 \<longrightarrow> T_MAX sc' = T_MAX sc \<and> T_MAX_IND sc' = T_MAX_IND sc) \<and>
     (BP_IND sc \<noteq> 0 \<longrightarrow> BP sc' = BP sc \<and> BP_IND sc' = BP_IND sc) \<and>
     (SPORT_IND sc \<noteq> 0 \<longrightarrow> SPORT sc' = SPORT sc \<and> SPORT_IND sc' = SPORT_IND sc) \<and>
     (BBFILE_IND sc \<noteq> 0 \<longrightarrow> BBFILE sc' = BBFILE sc \<and> BBFILE_IND sc' = BBFILE_IND sc) \<and>
     (DETACH_IND sc \<noteq> 0 \<longrightarrow> FDETACH sc' = FDETACH sc \<and> DETACH_IND sc' = DETACH_IND sc) \<and>
     (DEBUG_DELAY_IND sc \<noteq> 0 \<longrightarrow> DEBUG_DELAY sc' = DEBUG_DELAY sc \<and> DEBUG_DELAY_IND sc' = DEBUG_DELAY_IND sc) \<and>
     (PEER_COMMS_IND sc \<noteq> 0 \<longrightarrow> peer_info sc' = peer_info sc \<and> NO_PEERS sc' = NO_PEERS sc \<and>
        PEER_COMMS_IND sc' = PEER_COMMS_IND sc) \<and>
     CDETACH sc' = CDETACH sc \<and> CONF_FILE sc' = CONF_FILE sc"

lemma settings_kept_refl: "settings_kept sc sc"
  by (simp add: settings_kept_def)

lemma settings_kept_trans: "settings_kept a b \<Longrightarrow> settings_kept b c \<Longrightarrow> settings_kept a c"
  unfolding settings_kept_def by metis

lemma conf_peers_frame:
  "conf_peers i offs buf sc = Inr (buf', sc') \<Longrightarrow> \<exists>n ps. sc' = sc\<lparr>NO_PEERS := n, peer_info := ps\<rparr>"
proof (induction i offs buf sc rule: conf_peers.induct)
  case (1 i buf sc)
  then show ?case by (intro exI [of _ "NO_PEERS sc"] exI [of _ "peer_info sc"]) simp
next
  case (2 i off offs buf sc)
  show ?case
  proof (cases "strstr1 (cstr_at buf off) (CHR '':'')")
    case True
    with 2(3) obtain p buf1 where p: "parse_peer i buf off = Inr (p, buf1)"
      and r: "conf_peers (Suc i) offs buf1
        (sc\<lparr>NO_PEERS := NO_PEERS sc + 1, peer_info := (peer_info sc)[i := Some p]\<rparr>) = Inr (buf', sc')"
      by (auto split: sum.splits prod.splits)
    show ?thesis using 2(1) [OF True p refl r] by auto
  next
    case False
    then show ?thesis using 2(2) [OF False] 2(3) by simp
  qed
qed

lemma fetch_line_kept:
  assumes "fetch_line toks sc s = Inr (sc', s')"
  shows "settings_kept sc sc'"
proof (cases "cstr_at (command s) 0 = ''PEERS''")
  case True
  show ?thesis
  proof (cases "1 < length toks \<and> PEER_COMMS_IND sc = 0")
    case True
    with \<open>cstr_at (command s) 0 = ''PEERS''\<close> obtain buf sc1 where
      c: "conf_peers 0 (tl toks) (command s) (sc\<lparr>peer_info := replicate (length toks - 1) None\<rparr>) = Inr (buf, sc1)"
      and sc': "sc' = sc1\<lparr>PEER_COMMS_IND := 2\<rparr>"
      using assms unfolding fetch_line_def Let_def by (simp split: sum.splits prod.splits)
    show ?thesis using conf_peers_frame [OF c] sc' True by (auto simp: settings_kept_def)
  next
    case False
    with \<open>cstr_at (command s) 0 = ''PEERS''\<close> show ?thesis
      using assms unfolding fetch_line_def Let_def by (simp add: settings_kept_refl split: if_splits)
  qed
next
  case False
  then show ?thesis
    using assms unfolding fetch_line_def Let_def by (auto simp: settings_kept_def split: if_splits sum.splits)
qed

text \<open>The reader never shortens the array, so the invariant rule applies.\<close>

lemma conf_peers_length: "conf_peers i offs buf sc = Inr (buf', sc') \<Longrightarrow> length buf' = length buf"
proof (induction i offs buf sc rule: conf_peers.induct)
  case (2 i off offs buf sc)
  then show ?case using parse_peer_ok by (fastforce split: if_splits sum.splits prod.splits)
qed simp

lemma fetch_line_length:
  assumes "fetch_line toks sc s = Inr (sc', s')"
  shows "length (command s') = length (command s)"
proof (cases "cstr_at (command s) 0 = ''PEERS''")
  case True
  then show ?thesis
    using assms unfolding fetch_line_def Let_def
    by (auto dest: conf_peers_length split: if_splits sum.splits prod.splits)
next
  case False
  then show ?thesis
    using assms unfolding fetch_line_def Let_def by (auto split: if_splits sum.splits)
qed

lemma fetch_config_kept:
  assumes "fetch_config junk file sc = Inr sc'"
  shows "settings_kept sc sc'"
proof -
  have "length (command (scan_start junk)) = 513" by (simp add: scan_start_def min_def)
  then show ?thesis
    using config_loop_inv [OF assms [unfolded fetch_config_def], of "settings_kept sc"] settings_kept_refl
      fetch_line_kept fetch_line_length settings_kept_trans by metis
qed

text \<open>
  The argument of the last switch \<open>c\<close> among those \<open>getopt\<close> met, and what the switches leave: the last
  one of a letter decides, and its indicator is set.
\<close>

definition last_arg :: "char \<Rightarrow> (char \<times> string) list \<Rightarrow> string option" where
  "last_arg c evs = map_option snd (find (\<lambda>e. fst e = c) (rev evs))"

lemma last_arg_snoc: "last_arg c (evs @ [e]) = (if fst e = c then Some (snd e) else last_arg c evs)"
  by (simp add: last_arg_def)

lemma last_arg_Nil: "last_arg c [] = None"
  by (simp add: last_arg_def)

definition as_given :: "(char \<times> string) list \<Rightarrow> sconf \<Rightarrow> bool" where
  "as_given evs sc \<longleftrightarrow>
     (\<forall>v. last_arg (CHR ''T'') evs = Some v \<longrightarrow> T_MAX sc = atoi v \<and> T_MAX_IND sc = 1) \<and>
     (\<forall>v. last_arg (CHR ''p'') evs = Some v \<longrightarrow> BP sc = atoi v \<and> BP_IND sc = 1) \<and>
     (\<forall>v. last_arg (CHR ''s'') evs = Some v \<longrightarrow> SPORT sc = atoi v \<and> SPORT_IND sc = 1) \<and>
     (\<forall>v. last_arg (CHR ''b'') evs = Some v \<longrightarrow> BBFILE sc = v \<and> BBFILE_IND sc = 1) \<and>
     (\<forall>v. last_arg (CHR ''c'') evs = Some v \<longrightarrow> CONF_FILE sc = v) \<and>
     (last_arg (CHR ''d'') evs \<noteq> None \<longrightarrow> DEBUG_DELAY sc \<and> DEBUG_DELAY_IND sc = 1) \<and>
     (last_arg (CHR ''f'') evs \<noteq> None \<longrightarrow> \<not> CDETACH sc)"

lemma set_options_snoc:
  "set_options (evs @ [e]) sc = (case set_options evs sc of Inl x \<Rightarrow> Inl x | Inr sc' \<Rightarrow> set_option e sc')"
  by (induction evs sc rule: set_options.induct) (auto split: sum.splits)

lemma set_option_given: "set_option e sc = Inr sc' \<Longrightarrow> as_given evs sc \<Longrightarrow> as_given (evs @ [e]) sc'"
  unfolding as_given_def last_arg_snoc by (auto simp: set_option_def split: prod.splits if_splits)

lemma set_options_given: "set_options evs sc = Inr sc' \<Longrightarrow> as_given evs sc'"
proof (induction evs arbitrary: sc' rule: rev_induct)
  case Nil
  then show ?case by (simp add: as_given_def last_arg_Nil)
next
  case (snoc e evs)
  then obtain sc1 where "set_options evs sc = Inr sc1" "set_option e sc1 = Inr sc'"
    by (auto simp: set_options_snoc split: sum.splits)
  with snoc.IH set_option_given show ?case by blast
qed

section \<open>Peers given as operands\<close>

lemma operand_loop_entries:
  assumes "operand_loop i ops sc = Inr sc'" and "length (peer_info sc) = i + length ops"
    and "\<And>j. i \<le> j \<Longrightarrow> j < i + length ops \<Longrightarrow> peer_info sc ! j = None"
  shows "NO_PEERS sc' = NO_PEERS sc - int (length (filter (\<lambda>a. \<not> strstr1 a (CHR '':'')) ops)) \<and>
    length (peer_info sc') = length (peer_info sc) \<and>
    (\<forall>j<i. peer_info sc' ! j = peer_info sc ! j) \<and>
    (\<forall>j<length ops. peer_info sc' ! (i + j) \<noteq> None \<longleftrightarrow> strstr1 (ops ! j) (CHR '':''))"
  using assms
proof (induction i ops sc rule: operand_loop.induct)
  case (2 i a as sc)
  show ?case
  proof (cases "strstr1 a (CHR '':'')")
    case True
    with 2(3) obtain p buf where p: "parse_peer i (a @ [NUL]) 0 = Inr (p, buf)"
      and r: "operand_loop (Suc i) as (sc\<lparr>peer_info := (peer_info sc)[i := Some p]\<rparr>) = Inr sc'"
      by (auto split: sum.splits prod.splits)
    have i: "i < length (peer_info sc)" using 2(4) by simp
    have ih: "NO_PEERS sc' = NO_PEERS sc - int (length (filter (\<lambda>a. \<not> strstr1 a (CHR '':'')) as))"
      "length (peer_info sc') = length (peer_info sc)"
      "\<forall>j<Suc i. peer_info sc' ! j = (peer_info sc)[i := Some p] ! j"
      "\<forall>j<length as. peer_info sc' ! (Suc i + j) \<noteq> None \<longleftrightarrow> strstr1 (as ! j) (CHR '':'')"
      using 2(1) [OF True p refl r] 2(4,5) by simp_all
    have "\<forall>j<i. peer_info sc' ! j = peer_info sc ! j" using ih(3) by simp
    moreover have "peer_info sc' ! (i + j) \<noteq> None \<longleftrightarrow> strstr1 ((a # as) ! j) (CHR '':'')"
      if "j < length (a # as)" for j
      using that ih(3,4) i True by (cases j) auto
    ultimately show ?thesis using ih(1,2) True by simp
  next
    case False
    have r: "operand_loop (Suc i) as (sc\<lparr>NO_PEERS := NO_PEERS sc - 1\<rparr>) = Inr sc'" using 2(3) False by simp
    have ih: "NO_PEERS sc' = NO_PEERS sc - 1 - int (length (filter (\<lambda>a. \<not> strstr1 a (CHR '':'')) as))"
      "length (peer_info sc') = length (peer_info sc)"
      "\<forall>j<Suc i. peer_info sc' ! j = peer_info sc ! j"
      "\<forall>j<length as. peer_info sc' ! (Suc i + j) \<noteq> None \<longleftrightarrow> strstr1 (as ! j) (CHR '':'')"
      using 2(2) [OF False r] 2(4,5) by simp_all
    have "\<forall>j<i. peer_info sc' ! j = peer_info sc ! j" using ih(3) by simp
    moreover have "peer_info sc' ! (i + j) \<noteq> None \<longleftrightarrow> strstr1 ((a # as) ! j) (CHR '':'')"
      if "j < length (a # as)" for j
      using that ih(3,4) 2(5) [of i] False by (cases j) auto
    ultimately show ?thesis using ih(1,2) False by simp
  qed
qed simp

lemma fetch_cmndLine_operands:
  assumes "fetch_cmndLine args sc = Inr sc'" and "getopt_all args = (evs, ops)" and "ops \<noteq> []"
  shows "NO_PEERS sc' = int (length (filter (\<lambda>a. strstr1 a (CHR '':'')) ops)) \<and>
    length (peer_info sc') = length ops \<and>
    (\<forall>j<length ops. peer_info sc' ! j \<noteq> None \<longleftrightarrow> strstr1 (ops ! j) (CHR '':''))"
proof -
  obtain sc1 where sc1: "set_options evs sc = Inr sc1"
    using assms(1,2) by (cases "set_options evs sc") (auto simp: fetch_cmndLine_def)
  have "1 \<le> length ops" using assms(3) by (cases ops) auto
  then have "operand_loop 0 ops (sc1\<lparr>NO_PEERS := int (length ops), PEER_COMMS_IND := 1,
      peer_info := replicate (length ops) None\<rparr>) = Inr sc'"
    using assms(1) unfolding fetch_cmndLine_def assms(2) prod.case sc1 sum.case Let_def by simp
  from operand_loop_entries [OF this] sum_length_filter_compl [of "\<lambda>a. strstr1 a (CHR '':'')" ops]
  show ?thesis by (simp; linarith)
qed

lemma operand_loop_frame:
  "operand_loop i ops sc = Inr sc' \<Longrightarrow> \<exists>n ps. sc' = sc\<lparr>NO_PEERS := n, peer_info := ps\<rparr>"
proof (induction i ops sc rule: operand_loop.induct)
  case (1 i sc)
  then show ?case by (intro exI [of _ "NO_PEERS sc"] exI [of _ "peer_info sc"]) simp
next
  case (2 i a as sc)
  show ?case
  proof (cases "strstr1 a (CHR '':'')")
    case True
    with 2(3) obtain p buf where p: "parse_peer i (a @ [NUL]) 0 = Inr (p, buf)"
      and r: "operand_loop (Suc i) as (sc\<lparr>peer_info := (peer_info sc)[i := Some p]\<rparr>) = Inr sc'"
      by (auto split: sum.splits prod.splits)
    show ?thesis using 2(1) [OF True p refl r] by auto
  next
    case False
    then show ?thesis using 2(2) [OF False] 2(3) by simp
  qed
qed

lemma fetch_cmndLine_given:
  assumes "fetch_cmndLine args sc = Inr sc'" and "getopt_all args = (evs, ops)"
  shows "as_given evs sc' \<and> (ops \<noteq> [] \<longrightarrow> PEER_COMMS_IND sc' = 1)"
proof -
  obtain sc1 where sc1: "set_options evs sc = Inr sc1"
    using assms by (cases "set_options evs sc") (auto simp: fetch_cmndLine_def)
  have g: "as_given evs sc1" by (rule set_options_given [OF sc1])
  show ?thesis
  proof (cases "ops = []")
    case True
    then have "sc' = sc1\<lparr>NO_PEERS := 0\<rparr>" using assms sc1 by (simp add: fetch_cmndLine_def)
    with g True show ?thesis by (simp add: as_given_def)
  next
    case False
    then have "1 \<le> length ops" by (cases ops) auto
    then have "operand_loop 0 ops (sc1\<lparr>NO_PEERS := int (length ops), PEER_COMMS_IND := 1,
        peer_info := replicate (length ops) None\<rparr>) = Inr sc'"
      using assms(1) unfolding fetch_cmndLine_def assms(2) prod.case sc1 sum.case Let_def by simp
    from operand_loop_frame [OF this] g show ?thesis by (auto simp: as_given_def)
  qed
qed

text \<open>The peers of the operands: \<open>host:port\<close> at the index of its operand.\<close>

fun operand_peers :: "nat \<Rightarrow> string list \<Rightarrow> peer_info_s option list" where
  "operand_peers i [] = []"
| "operand_peers i (a # as) = (if strstr1 a (CHR '':'')
     then (case parse_peer i (a @ [NUL]) 0 of Inl _ \<Rightarrow> None | Inr (p, _) \<Rightarrow> Some p) else None) # operand_peers (Suc i) as"

lemma operand_loop_peers:
  assumes "operand_loop i ops sc = Inr sc'" and "peer_info sc = qs @ replicate (length ops) None" and "length qs = i"
  shows "peer_info sc' = qs @ operand_peers i ops"
  using assms
proof (induction i ops sc arbitrary: qs rule: operand_loop.induct)
  case (2 i a as sc)
  show ?case
  proof (cases "strstr1 a (CHR '':'')")
    case True
    with 2(3) obtain p buf where p: "parse_peer i (a @ [NUL]) 0 = Inr (p, buf)"
      and r: "operand_loop (Suc i) as (sc\<lparr>peer_info := (peer_info sc)[i := Some p]\<rparr>) = Inr sc'"
      by (auto split: sum.splits prod.splits)
    have "(peer_info sc)[i := Some p] = (qs @ [Some p]) @ replicate (length as) None"
      using 2(4,5) by (simp add: list_update_append)
    then show ?thesis using 2(1) [OF True p refl r, of "qs @ [Some p]"] 2(5) True p by simp
  next
    case False
    have "peer_info sc = (qs @ [None]) @ replicate (length as) None" using 2(4) by simp
    then show ?thesis using 2(2) [OF False, of "qs @ [None]"] 2(3,5) False by simp
  qed
qed simp

lemma fetch_cmndLine_peers:
  assumes "fetch_cmndLine args sc = Inr sc'" and "getopt_all args = (evs, ops)" and "ops \<noteq> []"
  shows "peer_info sc' = operand_peers 0 ops"
proof -
  obtain sc1 where sc1: "set_options evs sc = Inr sc1"
    using assms(1,2) by (cases "set_options evs sc") (auto simp: fetch_cmndLine_def)
  have "1 \<le> length ops" using assms(3) by (cases ops) auto
  then have "operand_loop 0 ops (sc1\<lparr>NO_PEERS := int (length ops), PEER_COMMS_IND := 1,
      peer_info := replicate (length ops) None\<rparr>) = Inr sc'"
    using assms(1) unfolding fetch_cmndLine_def assms(2) prod.case sc1 sum.case Let_def by simp
  from operand_loop_peers [OF this, of "[]"] show ?thesis by simp
qed

text \<open>
  Property C19: the command line has precedence over the file. Whatever the configuration file holds, after
  the start the threads, the ports, the board file and the name of the configuration file are what the last
  switch of their letter on the command line says, \<open>-d\<close> turns the delay on, \<open>-f\<close> keeps the server in the
  foreground, and with operands the peers are those of the operands, each at the index of its operand.
\<close>

theorem command_line_wins:
  assumes "start_config args bb junk files = Inr sc" and "getopt_all args = (evs, ops)"
  shows "(\<forall>v. last_arg (CHR ''T'') evs = Some v \<longrightarrow> T_MAX sc = atoi v) \<and>
    (\<forall>v. last_arg (CHR ''p'') evs = Some v \<longrightarrow> BP sc = atoi v) \<and>
    (\<forall>v. last_arg (CHR ''s'') evs = Some v \<longrightarrow> SPORT sc = atoi v) \<and>
    (\<forall>v. last_arg (CHR ''b'') evs = Some v \<longrightarrow> BBFILE sc = v) \<and>
    (\<forall>v. last_arg (CHR ''c'') evs = Some v \<longrightarrow> CONF_FILE sc = v) \<and>
    (last_arg (CHR ''d'') evs \<noteq> None \<longrightarrow> DEBUG_DELAY sc) \<and>
    (last_arg (CHR ''f'') evs \<noteq> None \<longrightarrow> \<not> DETACH sc) \<and>
    (ops \<noteq> [] \<longrightarrow> NO_PEERS sc = int (length (filter (\<lambda>a. strstr1 a (CHR '':'')) ops)) \<and>
       peer_info sc = operand_peers 0 ops)"
proof -
  obtain sc1 where sc1: "fetch_cmndLine args (default_config bb) = Inr sc1"
    using assms(1) by (cases "fetch_cmndLine args (default_config bb)") (auto simp: start_config_def)
  obtain sc2 where sc2: "fetch_config junk (files (CONF_FILE sc1)) sc1 = Inr sc2"
    using assms(1) sc1 by (cases "fetch_config junk (files (CONF_FILE sc1)) sc1") (auto simp: start_config_def)
  have sc: "sc = sc2\<lparr>DETACH := (CDETACH sc2 \<and> FDETACH sc2)\<rparr>" using assms(1) sc1 sc2 by (simp add: start_config_def)
  have kept: "settings_kept sc1 sc2" by (rule fetch_config_kept [OF sc2])
  have given: "as_given evs sc1" "ops \<noteq> [] \<longrightarrow> PEER_COMMS_IND sc1 = 1"
    using fetch_cmndLine_given [OF sc1 assms(2)] by simp_all
  have peers: "ops \<noteq> [] \<longrightarrow> peer_info sc2 = peer_info sc1 \<and> NO_PEERS sc2 = NO_PEERS sc1"
    using given(2) kept by (simp add: settings_kept_def)
  show ?thesis
    using given(1) kept peers fetch_cmndLine_operands [OF sc1 assms(2)] fetch_cmndLine_peers [OF sc1 assms(2)]
    unfolding as_given_def settings_kept_def sc
    by simp
qed

text \<open>Here the file says 5 threads and the command line 7, and 8 before it.\<close>

theorem command_line_wins_witness:
  "\<exists>sc. start_config [''-T8'', ''-fT'', ''7''] [] [] (\<lambda>_. Some (conf_text [''THMAX=5''])) = Inr sc \<and> T_MAX sc = 7 \<and>
     \<not> DETACH sc"
proof -
  let ?sc = "(default_config [])\<lparr>T_MAX_IND := 1, T_MAX := 7, DETACH_IND := 1, CDETACH := False\<rparr>"
  have g: "getopt_all [''-T8'', ''-fT'', ''7''] = ([(CHR ''T'', ''8''), (CHR ''f'', []), (CHR ''T'', ''7'')], [])"
    by simp
  have seven: "atoi ''7'' = 7" by code_simp
  have "conf_step fetch_line (''THMAX='' @ show_ld 5) ?sc ?sc"
    by (rule conf_step_key [where key = "''THMAX''" and v = "show_ld 5"])
      (use int_show_length [of 5] in \<open>auto simp: show_ld_plain show_ld_bytes key_plain fetch_line_def atol_show_ld\<close>)
  moreover have "show_ld 5 = ''5''" by code_simp
  ultimately have step: "conf_step fetch_line ''THMAX=5'' ?sc ?sc" by simp
  have f: "fetch_config [] (Some (conf_text [''THMAX=5''])) ?sc = Inr ?sc"
    unfolding fetch_config_def conf_reads_def option.case
    by (rule conf_step_then [OF step]) (simp_all add: config_loop_end scan_start_def)
  have "fetch_cmndLine [''-T8'', ''-fT'', ''7''] (default_config []) = Inr ?sc"
    unfolding fetch_cmndLine_def g by (simp add: set_option_def seven default_config_def)
  then obtain sc where sc: "start_config [''-T8'', ''-fT'', ''7''] [] [] (\<lambda>_. Some (conf_text [''THMAX=5''])) = Inr sc"
    using f unfolding start_config_def by simp
  from command_line_wins [OF sc g] sc show ?thesis by (simp add: last_arg_def seven)
qed

lemma print_peers_fails:
  "x + k \<le> length ps \<Longrightarrow> print_peers k x ps = Inl Uninitialised \<longleftrightarrow> (\<exists>j<k. ps ! (x + j) = None)"
proof (induction k x ps rule: print_peers.induct)
  case (2 k x ps)
  show ?case
  proof (cases "ps ! x")
    case None
    then show ?thesis using 2(2) by (auto intro!: exI [of _ 0])
  next
    case (Some p)
    have "(\<exists>j<Suc k. ps ! (x + j) = None) \<longleftrightarrow> (\<exists>j<k. ps ! (Suc x + j) = None)"
      using Some by (metis (no_types, opaque_lifting) add_Suc_shift less_Suc_eq_0_disj option.distinct(1) add_0_right)
    then show ?thesis using Some 2 by (auto split: sum.splits)
  qed
qed simp

text \<open>
  Property C37: an operand without a colon is not counted as a peer but keeps its place, so that the
  peers after it are at indices the server does not reach: with \<open>k\<close> good operands the server uses the
  first \<open>k\<close> entries, and printing them reads memory that was never written exactly when a malformed
  operand is among the first \<open>k\<close>.
\<close>

theorem malformed_operand_hides_peer:
  assumes "fetch_cmndLine args sc = Inr sc'" and "getopt_all args = (evs, ops)" and "ops \<noteq> []"
    and "k = length (filter (\<lambda>a. strstr1 a (CHR '':'')) ops)"
  shows "NO_PEERS sc' = int k \<and> (\<forall>i<length ops. peer_info sc' ! i \<noteq> None \<longleftrightarrow> strstr1 (ops ! i) (CHR '':'')) \<and>
    (print_config sc' = Inl Uninitialised \<longleftrightarrow> (\<exists>i<k. \<not> strstr1 (ops ! i) (CHR '':'')))"
proof -
  have p: "NO_PEERS sc' = int k" "length (peer_info sc') = length ops"
    "\<forall>i<length ops. peer_info sc' ! i \<noteq> None \<longleftrightarrow> strstr1 (ops ! i) (CHR '':'')"
    using fetch_cmndLine_operands [OF assms(1-3)] assms(4) by simp_all
  have k: "k \<le> length ops" using assms(4) by simp
  have "print_config sc' = Inl Uninitialised \<longleftrightarrow> print_peers k 0 (peer_info sc') = Inl Uninitialised"
    using p(1) by (auto simp: print_config_def split: sum.splits)
  also have "\<dots> \<longleftrightarrow> (\<exists>i<k. peer_info sc' ! i = None)"
    using print_peers_fails [of 0 k "peer_info sc'"] k p(2) by simp
  also have "\<dots> \<longleftrightarrow> (\<exists>i<k. \<not> strstr1 (ops ! i) (CHR '':''))"
    using p(3) k by (metis less_le_trans)
  finally show ?thesis using p by simp
qed

theorem malformed_operand_hides_peer_witness:
  "\<exists>sc'. fetch_cmndLine [''peer'', ''host:1''] (default_config []) = Inr sc' \<and> NO_PEERS sc' = 1 \<and>
     print_config sc' = Inl Uninitialised"
proof -
  have g: "getopt_all [''peer'', ''host:1''] = ([], [''peer'', ''host:1''])" by simp
  have t: "peer_text (''host'', 1) = ''host:1''" by (simp add: peer_text_def) code_simp
  have "parse_peer (Suc 0) (''host:1'' @ [NUL]) 0 = Inr (peer_entry 1 (''host'', 1), ''host'' @ NUL # ''1'' @ [NUL])"
    using parse_peer_text [of "(''host'', 1)" 1 "[]" "[]"] t by (simp add: peer_ok_def) code_simp
  then obtain sc' where "fetch_cmndLine [''peer'', ''host:1''] (default_config []) = Inr sc'"
    by (simp add: fetch_cmndLine_def Let_def strstr1_def)
  with malformed_operand_hides_peer [OF this g] show ?thesis by (auto simp: strstr1_def)
qed

section \<open>Lines without a value\<close>

lemma missing_start: "still_missing (scan_start junk)"
  by (simp add: scan_start_def still_missing_def)

lemma missing_first_line:
  assumes "w \<in> {''THMAX'', ''BBPORT'', ''SYNCPORT''}"
  shows "fetch_config junk (Some (conf_text (w # ls))) sc = Inl Uninitialised"
proof -
  have w: "NL \<notin> set w" "NUL \<notin> set w" "length w < 512" "list_all (\<lambda>c. \<not> str_sep c) w"
    using assms(1) by (auto simp: str_sep_def)
  define s1 where "s1 = store_tokens (scan_start junk) (w @ NUL # drop (Suc (length w)) (command (scan_start junk))) [0]"
  have s1: "cstr_at (command s1) 0 = w" "com_arg s1 1 = Inl Uninitialised"
    using w(2) by (simp_all add: s1_def com_arg_stored) (simp add: scan_start_def)
  have "fetch_line [0] sc s1 = Inl Uninitialised"
    using assms(1) unfolding fetch_line_def Let_def s1 by auto
  then show ?thesis
    using config_loop_words [of w w "[]" "scan_start junk" "[0]" _ fetch_line "conf_text ls" sc, OF _ missing_start w]
    by (simp add: fetch_config_def conf_reads_def s1_def)
qed

text \<open>The line \<open>BBPORT=p\<close>, and then the line \<open>THMAX\<close>.\<close>

lemma port_line:
  assumes "0 < p" "p < 2 ^ 31" and sc: "BP_IND sc = 0"
  shows "\<exists>t r. config_loop fetch_line (map Byte (''BBPORT='' @ show_ld p) @ Byte NL # fd) sc (scan_start junk) =
      config_loop fetch_line fd (sc\<lparr>BP := p, BP_IND := 2\<rparr>) t \<and>
    command t = ''BBPORT'' @ NUL # show_ld p @ NUL # r \<and> com_tok t 1 = Some 7 \<and> still_missing t"
proof -
  let ?l = "''BBPORT='' @ show_ld p"
  define r where "r = drop (Suc (length ?l)) (command (scan_start junk))"
  define buf where "buf = ''BBPORT'' @ NUL # show_ld p @ NUL # r"
  define t where "t = (store_tokens (scan_start junk) buf [0, 7])\<lparr>bp_ind := 1\<rparr>"
  have l: "NL \<notin> set ?l" "NUL \<notin> set ?l" "length ?l < 512"
    using show_ld_bytes [of p] int_show_length [of p] assms(1,2) by auto
  have arg: "cstr_at buf 7 = show_ld p"
    using cstr_at_drop [of "''BBPORT'' @ [NUL]" 7 "show_ld p @ NUL # r"] show_ld_bytes(1) [of p]
    by (simp add: buf_def)
  have word: "cstr_at buf 0 = ''BBPORT''" by (simp add: buf_def cstr_def)
  have "fetch_line [0, 7] sc (store_tokens (scan_start junk) buf [0, 7]) = Inr (sc\<lparr>BP := p, BP_IND := 2\<rparr>, t)"
    using assms unfolding fetch_line_def Let_def
    by (simp add: com_arg_stored arg word [simplified] atol_show_ld to_int32_id t_def)
  then have "config_loop fetch_line (map Byte ?l @ Byte NL # fd) sc (scan_start junk) =
      config_loop fetch_line fd (sc\<lparr>BP := p, BP_IND := 2\<rparr>) t"
    using config_loop_words [of ?l "''BBPORT''" "[(CHR ''='', show_ld p)]" "scan_start junk" "[0, 7]" buf fetch_line fd sc,
        OF _ missing_start l] show_ld_plain [of p]
    by (simp add: buf_def str_sep_def r_def)
  moreover have "com_tok t 1 = Some 7" "still_missing t" "command t = buf"
    by (simp_all add: t_def store_tokens_def still_missing_def scan_start_def)
  ultimately show ?thesis unfolding buf_def by blast
qed

lemma threads_line:
  assumes "0 < p" "p < 2 ^ 31" and sc: "T_MAX_IND sc = 0"
    and t: "command t = ''BBPORT'' @ NUL # show_ld p @ NUL # r" "com_tok t 1 = Some 7" "still_missing t"
  shows "config_loop fetch_line (conf_text [''THMAX'']) sc t = Inr (sc\<lparr>T_MAX := p, T_MAX_IND := 2\<rparr>)"
proof -
  define buf where "buf = ''THMAX'' @ NUL # drop (Suc (length ''THMAX'')) (command t)"
  have "drop (Suc (length ''THMAX'')) (command t) = NUL # show_ld p @ NUL # r" by (simp add: t)
  then have arg: "cstr_at buf 7 = show_ld p"
    using cstr_at_drop [of "''THMAX'' @ [NUL, NUL]" 7 "show_ld p @ NUL # r"] show_ld_bytes(1) [of p]
    by (simp add: buf_def)
  have word: "cstr_at buf 0 = ''THMAX''" by (simp add: buf_def cstr_def)
  have ct: "com_arg (store_tokens t buf [0]) 1 = Inr (show_ld p)"
    using arg t(2) by (simp add: com_arg_stored)
  have "fetch_line [0] sc (store_tokens t buf [0]) =
      Inr (sc\<lparr>T_MAX := p, T_MAX_IND := 2\<rparr>, (store_tokens t buf [0])\<lparr>tmax_ind := 1\<rparr>)"
    using assms(1-3) ct unfolding fetch_line_def Let_def
    by (simp add: word [simplified] atol_show_ld to_int32_id)
  then show ?thesis
    using config_loop_words [of "''THMAX''" "''THMAX''" "[]" t "[0]" buf fetch_line "[]" sc, OF _ t(3)]
    by (simp add: buf_def str_sep_def config_loop_end)
qed

text \<open>
  Property C38: a setting without a value reads the table of tokens where this line did not write it.
  In the first line of the file this is uninitialised memory; after a line with a value it is the text
  at the place where that value stood: here the number of threads becomes the client port.
\<close>

theorem missing_value:
  assumes "w \<in> {''THMAX'', ''BBPORT'', ''SYNCPORT''}" and "0 < p" "p < 2 ^ 31"
  shows "fetch_config junk (Some (conf_text (w # ls))) sc = Inl Uninitialised \<and>
    fetch_config junk (Some (conf_text [''BBPORT='' @ show_ld p, ''THMAX''])) (default_config bb) =
      Inr ((default_config bb)\<lparr>BP := p, BP_IND := 2, T_MAX := p, T_MAX_IND := 2\<rparr>)"
proof -
  let ?sc = "(default_config bb)\<lparr>BP := p, BP_IND := 2\<rparr>"
  obtain t r where port: "config_loop fetch_line (conf_text [''BBPORT='' @ show_ld p, ''THMAX'']) (default_config bb)
      (scan_start junk) = config_loop fetch_line (conf_text [''THMAX'']) ?sc t"
    "command t = ''BBPORT'' @ NUL # show_ld p @ NUL # r" "com_tok t 1 = Some 7" "still_missing t"
    using port_line [OF assms(2,3), of "default_config bb" "conf_text [''THMAX'']" junk]
    by (auto simp: default_config_def)
  show ?thesis
    using missing_first_line [OF assms(1)] threads_line [OF assms(2,3) _ port(2-4), of ?sc] port(1)
    by (simp add: fetch_config_def conf_reads_def default_config_def del: conf_text_Cons)
qed

theorem missing_value_witness:
  "fetch_config '''' (Some (conf_text [''THMAX''])) (default_config ''b'') = Inl Uninitialised \<and>
   fetch_config '''' (Some (conf_text [''BBPORT='' @ show_ld 9001, ''THMAX''])) (default_config ''b'') =
     Inr ((default_config ''b'')\<lparr>BP := 9001, BP_IND := 2, T_MAX := 9001, T_MAX_IND := 2\<rparr>)"
  using missing_value [of "''THMAX''" 9001 "''''" "[]" "default_config ''b''" "''b''"] by simp

section \<open>No file\<close>

lemma config_loop_fails: "config_loop line [Fail] sc (scan_start junk) = Inr sc"
  by (subst config_loop.simps) (simp add: missing_start readline_def recv_nodata_def numeral_eq_Suc Let_def)

section \<open>What a reload forgets\<close>

text \<open>
  Two servers that read the same file after a \<open>SIGHUP\<close>, the new array for \<open>BBFILE\<close> holding the same
  bytes: the settings are the same, whatever they were before, but for the peers, which only a line of the
  file replaces.
\<close>

definition same_settings :: "sconf \<Rightarrow> sconf \<Rightarrow> bool" where
  "same_settings a b \<longleftrightarrow> T_MAX a = T_MAX b \<and> T_MAX_IND a = T_MAX_IND b \<and> BP a = BP b \<and> BP_IND a = BP_IND b \<and>
     SPORT a = SPORT b \<and> SPORT_IND a = SPORT_IND b \<and> BBFILE a = BBFILE b \<and> BBFILE_IND a = BBFILE_IND b \<and>
     DETACH a = DETACH b \<and> DETACH_IND a = DETACH_IND b \<and> DEBUG_DELAY a = DEBUG_DELAY b \<and>
     DEBUG_DELAY_IND a = DEBUG_DELAY_IND b \<and> PEER_COMMS_IND a = PEER_COMMS_IND b \<and>
     (PEER_COMMS_IND a = 2 \<longrightarrow> peer_info a = peer_info b \<and> NO_PEERS a = NO_PEERS b)"

lemma conf_peers_same:
  "\<lbrakk>peer_info a = peer_info b; NO_PEERS a = NO_PEERS b\<rbrakk> \<Longrightarrow>
   (case conf_peers i offs buf a of
      Inl e \<Rightarrow> conf_peers i offs buf b = Inl e
    | Inr (buf', a') \<Rightarrow> conf_peers i offs buf b = Inr (buf', b\<lparr>NO_PEERS := NO_PEERS a', peer_info := peer_info a'\<rparr>) \<and>
        a' = a\<lparr>NO_PEERS := NO_PEERS a', peer_info := peer_info a'\<rparr>)"
proof (induction i offs buf a arbitrary: b rule: conf_peers.induct)
  case (1 i buf a)
  then show ?case by simp
next
  case (2 i off offs buf a)
  show ?case
  proof (cases "strstr1 (cstr_at buf off) (CHR '':'')")
    case True
    show ?thesis
    proof (cases "parse_peer i buf off")
      case (Inr x)
      obtain p buf1 where x: "parse_peer i buf off = Inr (p, buf1)" using Inr by (cases x) auto
      from 2(1) [OF True x refl, of "b\<lparr>NO_PEERS := NO_PEERS b + 1, peer_info := (peer_info b)[i := Some p]\<rparr>"] 2(3,4)
      show ?thesis using True x by (auto split: sum.splits)
    qed (simp add: True)
  next
    case False
    then have skip: "conf_peers i (off # offs) buf c = conf_peers (Suc i) offs buf c" for c by simp
    show ?thesis using 2(2) [OF False, of b] 2(3,4) unfolding skip by blast
  qed
qed

lemma force_line_same:
  assumes "same_settings a b"
  shows "(case force_line toks a s of
      Inl e \<Rightarrow> force_line toks b s = Inl e
    | Inr (a', s') \<Rightarrow> \<exists>b'. force_line toks b s = Inr (b', s') \<and> same_settings a' b')"
proof (cases "cstr_at (command s) 0 = ''PEERS''")
  case True
  let ?p = "\<lambda>sc. sc\<lparr>NO_PEERS := 0, peer_info := replicate (length toks - 1) None\<rparr>"
  have "1 < length toks \<Longrightarrow> ?thesis"
  proof -
    assume "1 < length toks"
    then have f: "force_line toks sc s = (case conf_peers 0 (tl toks) (command s) (?p sc) of Inl e \<Rightarrow> Inl e
        | Inr (buf, sc') \<Rightarrow> Inr (sc'\<lparr>PEER_COMMS_IND := 2\<rparr>, s\<lparr>command := buf\<rparr>))" for sc
      unfolding force_line_def Let_def True by simp
    have "peer_info (?p a) = peer_info (?p b)" "NO_PEERS (?p a) = NO_PEERS (?p b)" by simp_all
    note same = conf_peers_same [OF this, of 0 "tl toks" "command s"]
    show ?thesis
    proof (cases "conf_peers 0 (tl toks) (command s) (?p a)")
      case (Inl e)
      then show ?thesis using same by (simp add: f)
    next
      case (Inr x)
      obtain buf a1 where x: "x = (buf, a1)" by (cases x)
      have b1: "conf_peers 0 (tl toks) (command s) (?p b) =
          Inr (buf, (?p b)\<lparr>NO_PEERS := NO_PEERS a1, peer_info := peer_info a1\<rparr>)"
        and a1: "a1 = (?p a)\<lparr>NO_PEERS := NO_PEERS a1, peer_info := peer_info a1\<rparr>"
        using same Inr x by auto
      have "same_settings (a1\<lparr>PEER_COMMS_IND := 2\<rparr>)
          ((?p b)\<lparr>NO_PEERS := NO_PEERS a1, peer_info := peer_info a1, PEER_COMMS_IND := 2\<rparr>)"
        by (subst a1) (use assms in \<open>simp add: same_settings_def\<close>)
      then show ?thesis unfolding f Inr x b1 by simp
    qed
  qed
  moreover have "\<not> 1 < length toks \<Longrightarrow> ?thesis"
    using assms unfolding force_line_def Let_def True by simp
  ultimately show ?thesis by blast
next
  case False
  then show ?thesis
    using assms unfolding force_line_def Let_def same_settings_def
    by (simp split: sum.splits)
qed

lemma config_loop_same:
  assumes "same_settings a b" and "config_loop force_line fd a s = Inr a'"
  shows "\<exists>b'. config_loop force_line fd b s = Inr b' \<and> same_settings a' b'"
  using assms
proof (induction "length fd" arbitrary: fd a b s rule: less_induct)
  case less
  define r where "r = readline fd (command s) 512"
  define t where "t = str_tokenize (fst (snd r)) (length (cstr (fst (snd r))))"
  define s1 where "s1 = store_tokens s (fst t) (snd t)"
  show ?case
  proof (cases "\<not> still_missing s \<or> fst r = recv_nodata \<or> fst r < 0")
    case True
    then have "config_loop force_line fd sc s = Inr sc" for sc
      by (subst config_loop.simps) (auto simp: Let_def r_def)
    with less.prems show ?thesis by auto
  next
    case False
    have step: "config_loop force_line fd sc s = (case force_line (snd t) sc s1 of Inl e \<Rightarrow> Inl e
        | Inr q \<Rightarrow> config_loop force_line (snd (snd r)) (fst q) (snd q))" for sc
      using False unfolding s1_def t_def r_def by (subst config_loop.simps) (simp add: Let_def)
    with less.prems(2) obtain a1 s2 where l: "force_line (snd t) a s1 = Inr (a1, s2)"
      and c: "config_loop force_line (snd (snd r)) a1 s2 = Inr a'"
      by (cases "force_line (snd t) a s1") auto
    obtain b1 where b1: "force_line (snd t) b s1 = Inr (b1, s2)" "same_settings a1 b1"
      using force_line_same [OF less.prems(1), of "snd t" s1] l by auto
    have "length (snd (snd r)) < length fd"
      using False readline_consumes [of fd "command s" 512] by (auto simp: r_def)
    from less.hyps [OF this b1(2) c] b1(1) step [of b] show ?thesis by simp
  qed
qed

lemma force_line_peers:
  assumes "force_line toks sc s = Inr (sc', s')"
  shows "PEER_COMMS_IND sc' = 2 \<or>
    PEER_COMMS_IND sc' = PEER_COMMS_IND sc \<and> peer_info sc' = peer_info sc \<and> NO_PEERS sc' = NO_PEERS sc"
proof (cases "cstr_at (command s) 0 = ''PEERS''")
  case True
  then show ?thesis
    using assms unfolding force_line_def Let_def by (auto split: if_splits sum.splits prod.splits)
next
  case False
  then show ?thesis
    using assms unfolding force_line_def Let_def by (auto split: if_splits sum.splits)
qed

lemma force_line_length:
  assumes "force_line toks sc s = Inr (sc', s')"
  shows "length (command s') = length (command s)"
proof (cases "cstr_at (command s) 0 = ''PEERS''")
  case True
  then show ?thesis
    using assms unfolding force_line_def Let_def
    by (auto dest: conf_peers_length split: if_splits sum.splits prod.splits)
next
  case False
  then show ?thesis
    using assms unfolding force_line_def Let_def by (auto split: if_splits sum.splits)
qed

lemma reload_keeps_peers:
  assumes "reload_config bb junk files a = Inr a'"
  shows "PEER_COMMS_IND a' = 2 \<or> PEER_COMMS_IND a' = 0 \<and> peer_info a' = peer_info a \<and> NO_PEERS a' = NO_PEERS a"
proof -
  define I where "I = (\<lambda>sc::sconf. PEER_COMMS_IND sc = 2 \<or>
      PEER_COMMS_IND sc = 0 \<and> peer_info sc = peer_info a \<and> NO_PEERS sc = NO_PEERS a)"
  have line: "I sc' \<and> length (command s') = 513"
    if "force_line toks sc s = Inr (sc', s')" "I sc" "length (command s) = 513" for toks sc s sc' s'
    using force_line_peers [OF that(1)] force_line_length [OF that(1)] that(2,3)
    by (auto simp: I_def)
  have "I (hup_reset bb a)" by (simp add: I_def hup_reset_def)
  moreover have "length (command (scan_start junk)) = 513" by (simp add: scan_start_def min_def)
  ultimately have "I a'"
    using config_loop_inv [OF assms [unfolded reload_config_def force_fetch_config_def], of I] line by blast
  then show ?thesis by (simp add: I_def)
qed

text \<open>
  Property C26: a reload forgets what the command line and the earlier files said. Two servers with any
  settings whose configuration file has the same name and the same contents, and whose new array for the
  name of the board file happens to hold the same bytes, succeed together and then agree on threads, ports,
  board file, delay and detaching, and on the peers if the file names any; if it names none, each server
  keeps the peers it had.
\<close>

theorem reload_forgets:
  assumes "reload_config bb junk files a = Inr a'" and "CONF_FILE a = CONF_FILE b"
  shows "\<exists>b'. reload_config bb junk files b = Inr b' \<and> T_MAX a' = T_MAX b' \<and> BP a' = BP b' \<and>
    SPORT a' = SPORT b' \<and> BBFILE a' = BBFILE b' \<and> DEBUG_DELAY a' = DEBUG_DELAY b' \<and> DETACH a' = DETACH b' \<and>
    PEER_COMMS_IND a' = PEER_COMMS_IND b' \<and>
    (PEER_COMMS_IND a' = 2 \<longrightarrow> peer_info a' = peer_info b' \<and> NO_PEERS a' = NO_PEERS b') \<and>
    (PEER_COMMS_IND a' \<noteq> 2 \<longrightarrow> peer_info a' = peer_info a \<and> NO_PEERS a' = NO_PEERS a \<and>
       peer_info b' = peer_info b \<and> NO_PEERS b' = NO_PEERS b)"
proof -
  have "same_settings (hup_reset bb a) (hup_reset bb b)"
    by (simp add: same_settings_def hup_reset_def)
  moreover have "config_loop force_line (conf_reads (files (CONF_FILE b))) (hup_reset bb a) (scan_start junk) = Inr a'"
    using assms by (simp add: reload_config_def force_fetch_config_def)
  ultimately obtain b' where b': "reload_config bb junk files b = Inr b'" "same_settings a' b'"
    unfolding reload_config_def force_fetch_config_def using config_loop_same by blast
  moreover have "PEER_COMMS_IND a' = PEER_COMMS_IND b'" using b'(2) by (simp add: same_settings_def)
  ultimately show ?thesis
    using reload_keeps_peers [OF assms(1)] reload_keeps_peers [OF b'(1)]
    by (intro exI [of _ b']) (auto simp: same_settings_def)
qed

text \<open>Two servers without a file: the number of threads of the command line is forgotten, the peers stay.\<close>

theorem reload_forgets_witness:
  "\<exists>b'. reload_config ''b'' [] (\<lambda>_. None)
      ((default_config [])\<lparr>T_MAX := 7, T_MAX_IND := 1, NO_PEERS := 1, peer_info := [Some (peer_entry 0 (''h'', 1))]\<rparr>) =
      Inr b' \<and> T_MAX b' = 20 \<and> NO_PEERS b' = 1"
proof -
  let ?b = "(default_config [])\<lparr>T_MAX := 7, T_MAX_IND := 1, NO_PEERS := 1,
      peer_info := [Some (peer_entry 0 (''h'', 1))]\<rparr>"
  have "reload_config ''b'' [] (\<lambda>_. None) (default_config []) = Inr (hup_reset ''b'' (default_config []))"
    by (simp add: reload_config_def force_fetch_config_def conf_reads_def config_loop_fails)
  from reload_forgets [OF this, of ?b] show ?thesis
    by (auto simp: default_config_def hup_reset_def)
qed

end
