(* ===== verification/Accept.thy ===== *)
theory Accept
  imports Config
begin

text \<open>
  The two accept loops, \<open>bb_server\<close> of \<open>src/bbserv.cc\<close> for clients and \<open>peer_receiver_control\<close> of
  \<open>src/peer_operations.cc\<close> for peers, and what the sessions they start see. Both fill one
  \<open>client_t\<close> over and over; the loop of the clients hands a copy to the team, the loop of the peers
  the object itself. A session reads its argument when a worker starts it, so that connections and
  starts can come in any order: a run is a list of events.
\<close>

section \<open>State\<close>

record client_t =
  c_sd :: int
  c_ip :: string

text \<open>
  The objects allocated so far (a pointer is an index), the one the loop fills, the arguments of the
  work that no worker has started, in order, and what the sessions that were started have read.
  \<open>client_addr\<close> is the address of the last connection.
\<close>

record listener =
  clients :: "client_t list"
  clnt :: nat
  client_addr :: "32 word"
  works :: "nat list"
  sessions :: "client_t list"
  accepting :: bool
  team_gone :: bool

text \<open>A connection carries the answer of \<open>malloc\<close> in \<open>add_work_to_team\<close>.\<close>

datatype event =
    Connection int "32 word" bool
  | Interrupted
  | Accept_failed
  | Begin

definition start_listener :: "client_t \<Rightarrow> 32 word \<Rightarrow> listener" where
  "start_listener junk addr = \<lparr>clients = [junk], clnt = 0, client_addr = addr, works = [], sessions = [],
     accepting = True, team_gone = False\<rparr>"

text \<open>\<open>clnt->sd = ssock\<close> and \<open>ip_to_dotted(client_addr, clnt->ip)\<close>\<close>

definition store_client :: "int \<Rightarrow> 32 word \<Rightarrow> listener \<Rightarrow> listener" where
  "store_client ssock addr l = l\<lparr>clients := (clients l)[clnt l := \<lparr>c_sd = ssock, c_ip = ip_to_dotted addr\<rparr>],
     client_addr := addr\<rparr>"

section \<open>Clients\<close>

definition pass_to_team :: "bool \<Rightarrow> listener \<Rightarrow> c_error + int \<times> listener" where
  "pass_to_team mem l =
     (let l1 = l\<lparr>clients := clients l @ [clients l ! clnt l]\<rparr> in
      if team_gone l then Inl Dangling_pointer
      else if \<not> mem then Inr (- 1, l1\<lparr>team_gone := True\<rparr>)
      else Inr (0, l1\<lparr>works := works l @ [length (clients l)]\<rparr>))"

text \<open>A round of the loop of \<open>bb_server\<close>. The result of \<open>pass_to_team\<close> is not looked at.\<close>

fun bb_accept :: "event \<Rightarrow> listener \<Rightarrow> c_error + listener" where
  "bb_accept (Connection ssock addr mem) l =
     (case pass_to_team mem (store_client ssock addr l) of Inl e \<Rightarrow> Inl e | Inr (_, l') \<Rightarrow> Inr l')"
| "bb_accept Interrupted l = Inr (store_client (- 1) (client_addr l) l)"
| "bb_accept Accept_failed l = Inr ((store_client (- 1) (client_addr l) l)\<lparr>accepting := False\<rparr>)"
| "bb_accept Begin l = Inr l"

section \<open>Peers\<close>

text \<open>
  A round of the loop of \<open>peer_receiver_control\<close>: a failing \<open>accept\<close> terminates the team even when
  the loop goes on.
\<close>

fun peer_accept :: "event \<Rightarrow> listener \<Rightarrow> c_error + listener" where
  "peer_accept (Connection ssock addr mem) l =
     (let l1 = store_client ssock addr l in
      if team_gone l then Inl Dangling_pointer
      else if \<not> mem then Inr (l1\<lparr>team_gone := True, accepting := False\<rparr>)
      else Inr (l1\<lparr>works := works l @ [clnt l]\<rparr>))"
| "peer_accept Interrupted l =
     (if team_gone l then Inl Dangling_pointer
      else Inr ((store_client (- 1) (client_addr l) l)\<lparr>team_gone := True\<rparr>))"
| "peer_accept Accept_failed l =
     (if team_gone l then Inl Dangling_pointer
      else Inr ((store_client (- 1) (client_addr l) l)\<lparr>team_gone := True, accepting := False\<rparr>))"
| "peer_accept Begin l = Inr l"

section \<open>Runs\<close>

text \<open>A worker starts the first work: the session copies \<open>sd\<close> and \<open>ip\<close> of its argument.\<close>

definition begin_session :: "listener \<Rightarrow> listener" where
  "begin_session l = (case works l of [] \<Rightarrow> l
     | w # ws \<Rightarrow> l\<lparr>works := ws, sessions := sessions l @ [clients l ! w]\<rparr>)"

fun run_listener :: "(event \<Rightarrow> listener \<Rightarrow> c_error + listener) \<Rightarrow> event list \<Rightarrow> listener \<Rightarrow> c_error + listener" where
  "run_listener acc [] l = Inr l"
| "run_listener acc (ev # evs) l =
     (if ev = Begin then run_listener acc evs (begin_session l)
      else if accepting l then (case acc ev l of Inl e \<Rightarrow> Inl e | Inr l' \<Rightarrow> run_listener acc evs l')
      else run_listener acc evs l)"

text \<open>The connections accepted: those before the loop ends.\<close>

fun accepted :: "event list \<Rightarrow> client_t list" where
  "accepted [] = []"
| "accepted (Connection ssock addr mem # evs) = \<lparr>c_sd = ssock, c_ip = ip_to_dotted addr\<rparr> # accepted evs"
| "accepted (Accept_failed # evs) = []"
| "accepted (Interrupted # evs) = accepted evs"
| "accepted (Begin # evs) = accepted evs"

fun enough_memory :: "event list \<Rightarrow> bool" where
  "enough_memory [] = True"
| "enough_memory (Connection ssock addr mem # evs) \<longleftrightarrow> mem \<and> enough_memory evs"
| "enough_memory (_ # evs) \<longleftrightarrow> enough_memory evs"

section \<open>Each client has its session\<close>

text \<open>What the sessions that started, and then those waiting, have read or will read.\<close>

definition served :: "listener \<Rightarrow> client_t list" where
  "served l = sessions l @ map (\<lambda>w. clients l ! w) (works l)"

definition own_copies :: "listener \<Rightarrow> bool" where
  "own_copies l \<longleftrightarrow> clnt l < length (clients l) \<and> \<not> team_gone l \<and>
     (\<forall>w\<in>set (works l). w < length (clients l) \<and> w \<noteq> clnt l)"

lemma begin_session_served [simp]: "served (begin_session l) = served l"
  by (simp add: begin_session_def served_def split: list.splits)

lemma begin_session_own: "own_copies l \<Longrightarrow> own_copies (begin_session l)"
  by (auto simp: begin_session_def own_copies_def split: list.splits)

lemma begin_session_accepting [simp]: "accepting (begin_session l) = accepting l"
  by (simp add: begin_session_def split: list.splits)

lemma store_client_own:
  "own_copies l \<Longrightarrow> own_copies (store_client s a l) \<and> served (store_client s a l) = served l \<and>
     accepting (store_client s a l) = accepting l"
  by (auto simp: own_copies_def store_client_def served_def)

lemma bb_connection:
  assumes "own_copies l"
  shows "\<exists>l'. bb_accept (Connection s a True) l = Inr l' \<and> own_copies l' \<and> accepting l' = accepting l \<and>
    served l' = served l @ [\<lparr>c_sd = s, c_ip = ip_to_dotted a\<rparr>]"
  using assms by (auto simp: pass_to_team_def store_client_def own_copies_def served_def nth_append Let_def)

lemma stopped_listener:
  "\<not> accepting l \<Longrightarrow> \<exists>l'. run_listener acc evs l = Inr l' \<and> served l' = served l"
proof (induction evs arbitrary: l)
  case (Cons ev evs)
  from Cons.IH [OF Cons.prems] Cons.IH [of "begin_session l"] Cons.prems
  show ?case by (cases "ev = Begin") auto
qed simp

lemma bb_run:
  assumes "own_copies l" and "accepting l" and "enough_memory evs"
  shows "\<exists>l'. run_listener bb_accept evs l = Inr l' \<and> served l' = served l @ accepted evs"
  using assms
proof (induction evs arbitrary: l rule: accepted.induct)
  case (2 s a mem evs)
  from bb_connection [OF 2(2), of s a] obtain l1 where
    l1: "bb_accept (Connection s a True) l = Inr l1" "own_copies l1" "accepting l1 = accepting l"
      "served l1 = served l @ [\<lparr>c_sd = s, c_ip = ip_to_dotted a\<rparr>]" by blast
  show ?case using 2(1) [OF l1(2)] 2(3,4) l1 by auto
next
  case (3 evs)
  let ?l = "(store_client (- 1) (client_addr l) l)\<lparr>accepting := False\<rparr>"
  have "served ?l = served l" using store_client_own [OF 3(1)] by (simp add: served_def)
  with stopped_listener [of ?l bb_accept evs] 3(2) show ?case by auto
next
  case (4 evs)
  let ?l = "store_client (- 1) (client_addr l) l"
  have "own_copies ?l" "accepting ?l" "served ?l = served l"
    using store_client_own [OF 4(2)] 4(3) by simp_all
  with 4(1) [of ?l] 4(3,4) show ?case by simp
next
  case (5 evs)
  with 5(1) [OF begin_session_own [OF 5(2)]] show ?case by simp
qed simp

text \<open>
  Property C13: every client that connects gets one session with its own socket and address, in the
  order of the connections, however connections, interrupted calls and starts of sessions interleave,
  as long as there is memory for the work.
\<close>

theorem clients_served_once:
  assumes "enough_memory evs"
  shows "\<exists>l. run_listener bb_accept evs (start_listener junk addr) = Inr l \<and>
    sessions l @ map (\<lambda>w. clients l ! w) (works l) = accepted evs"
proof -
  have "own_copies (start_listener junk addr)" by (simp add: own_copies_def start_listener_def)
  from bb_run [OF this _ assms] show ?thesis by (simp add: served_def start_listener_def)
qed

theorem clients_served_once_witness:
  "\<exists>l. run_listener bb_accept [Connection 4 1 True, Connection 5 2 True, Begin, Begin] (start_listener \<lparr>c_sd = 0, c_ip = ''''\<rparr> 0) = Inr l \<and>
    sessions l @ map (\<lambda>w. clients l ! w) (works l) =
      [\<lparr>c_sd = 4, c_ip = ip_to_dotted 1\<rparr>, \<lparr>c_sd = 5, c_ip = ip_to_dotted 2\<rparr>]"
  using clients_served_once [of "[Connection 4 1 True, Connection 5 2 True, Begin, Begin]"] by simp

section \<open>Peers share one object\<close>

lemma peer_connections:
  assumes "clnt l = 0" "clients l \<noteq> []" "accepting l" "\<not> team_gone l" "conns \<noteq> []"
  shows "run_listener peer_accept (map (\<lambda>(s, a). Connection s a True) conns @ evs) l =
    run_listener peer_accept evs (l\<lparr>clients := (clients l)[0 := \<lparr>c_sd = fst (last conns), c_ip = ip_to_dotted (snd (last conns))\<rparr>],
      client_addr := snd (last conns), works := works l @ replicate (length conns) 0\<rparr>)"
  using assms
proof (induction conns arbitrary: l)
  case (Cons c conns)
  obtain s a where c: "c = (s, a)" by (cases c)
  let ?l = "(store_client s a l)\<lparr>works := works l @ [0]\<rparr>"
  have step: "run_listener peer_accept (map (\<lambda>(s, a). Connection s a True) (c # conns) @ evs) l =
      run_listener peer_accept (map (\<lambda>(s, a). Connection s a True) conns @ evs) ?l"
    using Cons.prems c by simp
  show ?case
  proof (cases "conns = []")
    case True
    then show ?thesis using step Cons.prems(1) c by (simp add: store_client_def)
  next
    case False
    then show ?thesis
      using step Cons.IH [of ?l] Cons.prems by (simp add: store_client_def)
  qed
qed simp

lemma begin_all:
  "works l = replicate n 0 \<Longrightarrow> run_listener acc (replicate n Begin) l =
     Inr (l\<lparr>works := [], sessions := sessions l @ replicate n (clients l ! 0)\<rparr>)"
proof (induction n arbitrary: l)
  case (Suc n)
  have "begin_session l = l\<lparr>works := replicate n 0, sessions := sessions l @ [clients l ! 0]\<rparr>"
    using Suc.prems by (simp add: begin_session_def)
  then show ?case using Suc.IH [of "begin_session l"] by simp
qed simp

text \<open>
  Property C34: the sessions of peers read the object that the next connection overwrites. When several
  peers connect before the first session starts, every session serves the socket of the last one, and
  the sockets of the others are served by none.
\<close>

theorem peer_sessions_mixed_up:
  assumes "conns \<noteq> []"
  shows "\<exists>l. run_listener peer_accept (map (\<lambda>(s, a). Connection s a True) conns @ replicate (length conns) Begin)
      (start_listener junk addr) = Inr l \<and>
    sessions l = replicate (length conns) \<lparr>c_sd = fst (last conns), c_ip = ip_to_dotted (snd (last conns))\<rparr>"
  using assms
  by (subst peer_connections) (simp_all add: start_listener_def begin_all)

theorem peer_sessions_mixed_up_witness:
  "\<exists>l. run_listener peer_accept [Connection 4 1 True, Connection 5 2 True, Begin, Begin] (start_listener \<lparr>c_sd = 0, c_ip = ''''\<rparr> 0) = Inr l \<and>
    sessions l = [\<lparr>c_sd = 5, c_ip = ip_to_dotted 2\<rparr>, \<lparr>c_sd = 5, c_ip = ip_to_dotted 2\<rparr>]"
  using peer_sessions_mixed_up [of "[(4, 1), (5, 2)]" "\<lparr>c_sd = 0, c_ip = ''''\<rparr>" 0] by (simp add: numeral_2_eq_2)

end
