(* ===== verification/Housekeep.thy ===== *)
theory Housekeep
  imports MessageStore
begin

text \<open>
  \<open>housekeep_descriptor\<close> of \<open>src/descriptor.cc\<close>: copy every line that is not pure backspaces
  to \<open>bbfile_cache\<close>, remove the board file and rename the copy. None of the calls is checked
  before the next one. The board file is taken to be another file than \<open>bbfile_cache\<close>.
\<close>

section \<open>The function\<close>

definition cache_name :: string where
  "cache_name = ''bbfile_cache''"

fun count_bs :: "nat \<Rightarrow> string \<Rightarrow> nat" where
  "count_bs n_c [] = n_c"
| "count_bs n_c (c # cs) = count_bs (if c = BS then n_c + 1 else n_c) cs"

definition garbage :: "string \<Rightarrow> bool" where
  "garbage buff \<longleftrightarrow> count_bs 0 buff \<noteq> 0 \<and> count_bs 0 buff = length buff"

text \<open>
  The copying loop: \<open>dest\<close> tells whether the cache could be opened, \<open>off\<close> is its file offset,
  which a failing \<open>write\<close> does not move.
\<close>

fun copy_loop ::
  "bool \<Rightarrow> nat \<Rightarrow> int \<Rightarrow> (string \<times> nat) list \<Rightarrow> board_state \<Rightarrow> int \<times> board_state" where
  "copy_loop dest off rec_found [] st = (rec_found, st)"
| "copy_loop dest off rec_found ((buff, pos) # ls) st =
     (if garbage buff then copy_loop dest off (rec_found + 1) ls st
      else if dest then
        (case write_at cache_name off (buff @ [NL]) st of (w, st') \<Rightarrow>
           copy_loop dest (if w < 0 then off else off + nat w) rec_found ls st')
      else copy_loop dest off rec_found ls st)"

definition remove_file :: "string \<Rightarrow> board_state \<Rightarrow> int \<times> board_state" where
  "remove_file name st =
     (if dir_writable st \<and> files st name \<noteq> None then (0, st\<lparr>files := (files st)(name := None)\<rparr>)
      else (- 1, st))"

definition rename_file :: "string \<Rightarrow> string \<Rightarrow> board_state \<Rightarrow> int \<times> board_state" where
  "rename_file old new st =
     (if dir_writable st \<and> files st old \<noteq> None
      then (0, st\<lparr>files := (files st)(old := None, new := files st old)\<rparr>)
      else (- 1, st))"

definition housekeep_descriptor :: "board_state \<Rightarrow> c_error + (int \<times> board_state)" where
  "housekeep_descriptor st = (case open_rd (source_file st) st of
      None \<Rightarrow> Inl Never_returns
    | Some st1 \<Rightarrow>
        let (dest, st2) = (case open_create False cache_name st1 of
              None \<Rightarrow> (False, st1) | Some s \<Rightarrow> (True, s));
            (rec_found, st3) = copy_loop dest 0 0 (scan st1) st2;
            st4 = (if dest then close_fd (close_fd st3) else close_fd st3);
            (rm, st5) = remove_file (source_file st4) st4;
            orig_del = (if rm = 0 then 1 else - 1 :: int);
            (mv, st6) = rename_file cache_name (source_file st5) st5;
            cac_rnm = (if mv = 0 then 1 else - 1 :: int)
        in Inr (if rec_found = 1 \<and> orig_del = 1 \<and> cac_rnm = 1 then 0 else - 1, st6))"

section \<open>Garbage\<close>

lemma count_bs_spec: "count_bs n s = n + length (filter (\<lambda>c. c = BS) s)"
  by (induction n s rule: count_bs.induct) auto

lemma length_filter_all: "length (filter P l) = length l \<longleftrightarrow> (\<forall>c \<in> set l. P c)"
proof
  assume eq: "length (filter P l) = length l"
  show "\<forall>c \<in> set l. P c"
  proof (rule ccontr)
    assume "\<not> (\<forall>c \<in> set l. P c)"
    then obtain c where "c \<in> set l" "\<not> P c" by blast
    then have "length (filter P l) < length l" by (rule length_filter_less)
    with eq show False by simp
  qed
qed (simp add: filter_True)

lemma filter_all_nonempty:
  "length (filter P l) \<noteq> 0 \<and> (\<forall>c \<in> set l. P c) \<longleftrightarrow> l \<noteq> [] \<and> (\<forall>c \<in> set l. P c)"
  by (cases l) auto

lemma garbage_iff: "garbage l \<longleftrightarrow> l \<noteq> [] \<and> (\<forall>c \<in> set l. c = BS)"
  unfolding garbage_def count_bs_spec add_0 length_filter_all by (rule filter_all_nonempty)

lemma erased_garbage: "l \<noteq> [] \<Longrightarrow> garbage (replicate (length l) BS)"
  by (simp add: garbage_def count_bs_spec)

lemma garbage_num: "garbage l \<Longrightarrow> \<not> ok_num (msg_num l)"
proof -
  assume g: "garbage l"
  then have "\<forall>c \<in> set l. c = BS" unfolding garbage_iff by blast
  then have "replicate (length l) BS = l" by (rule replicate_length_same)
  then show ?thesis using msg_num_erased [of "length l"] by simp
qed

section \<open>Copying\<close>

definition kept :: "string list \<Rightarrow> string list" where
  "kept ls = filter (\<lambda>l. \<not> garbage l) ls"

definition cache_put :: "bool \<Rightarrow> bool \<Rightarrow> string list \<Rightarrow> board_state \<Rightarrow> board_state" where
  "cache_put a b ls st = st\<lparr>files := (files st)(cache_name \<mapsto>
     \<lparr>bytes = render ls, may_read = a, may_write = b\<rparr>)\<rparr>"

lemma cache_put_simps [simp]:
  "cache_put a b ls (cache_put a b ms st) = cache_put a b ls st"
  "disk_full (cache_put a b ls st) = disk_full st"
  "files (cache_put a b ls st) cache_name = Some \<lparr>bytes = render ls, may_read = a, may_write = b\<rparr>"
  by (simp_all add: cache_put_def)

lemma copy_loop_board:
  "\<not> disk_full st \<Longrightarrow> files st cache_name = Some \<lparr>bytes = render done_lines, may_read = a, may_write = b\<rparr> \<Longrightarrow>
   off = length (render done_lines) \<Longrightarrow>
   copy_loop True off r (positions p ls) st =
     (r + int (length (filter garbage ls)), cache_put a b (done_lines @ kept ls) st)"
proof (induction ls arbitrary: st done_lines off r p)
  case Nil
  then show ?case by (simp add: kept_def cache_put_def fun_upd_idem)
next
  case (Cons l ls)
  show ?case
  proof (cases "garbage l")
    case True
    with Cons.IH [OF Cons.prems(1,2,3)] show ?thesis by (simp add: kept_def)
  next
    case False
    let ?st' = "cache_put a b (done_lines @ [l]) st"
    have w: "write_at cache_name off (l @ [NL]) st = (int (length l + 1), ?st')"
      using Cons.prems by (simp add: write_at_def file_bytes_def cache_put_def)
    have "copy_loop True (off + length (l @ [NL])) r (positions (p + length l + 1) ls) ?st' =
      (r + int (length (filter garbage ls)), cache_put a b ((done_lines @ [l]) @ kept ls) ?st')"
      using Cons.prems by (intro Cons.IH) auto
    with w False show ?thesis by (simp add: kept_def add.commute nat_add_distrib)
  qed
qed

lemma lookup_kept: "ok_num k \<Longrightarrow> lookup k (kept ls) = lookup k ls"
  by (induction ls) (auto simp: kept_def garbage_num)

lemma unique_kept: "unique_nums ls \<Longrightarrow> unique_nums (kept ls)"
proof -
  have "filter ok_num (map msg_num (kept ls)) = filter ok_num (map msg_num ls)"
    by (induction ls) (auto simp: kept_def garbage_num)
  then show "unique_nums ls \<Longrightarrow> unique_nums (kept ls)" by (simp add: unique_nums_def)
qed

section \<open>What housekeeping achieves\<close>

definition housekeep_ready :: "board_state \<Rightarrow> bool" where
  "housekeep_ready st \<longleftrightarrow> board_ok st \<and> dir_writable st \<and> Suc (open_fds st) < fd_limit st \<and>
     files st cache_name = None \<and> source_file st \<noteq> cache_name"

lemma housekeep_board:
  assumes r: "housekeep_ready st" and ls: "has_lines st ls"
  shows "\<exists>st'. housekeep_descriptor st =
      Inr (if length (filter garbage ls) = 1 then 0 else - 1, st') \<and>
    board_ok st' \<and> has_lines st' (kept ls) \<and> files st' cache_name = None \<and>
    source_file st' = source_file st \<and> open_fds st' = open_fds st"
proof -
  let ?st1 = "st\<lparr>open_fds := Suc (open_fds st)\<rparr>"
  let ?st2 = "?st1\<lparr>open_fds := Suc (Suc (open_fds st)),
    files := (files st)(cache_name \<mapsto> \<lparr>bytes = render [], may_read = True, may_write = True\<rparr>)\<rparr>"
  have ok: "board_ok st" "source_file st \<noteq> cache_name" "dir_writable st" "files st cache_name = None"
    using r by (auto simp: housekeep_ready_def)
  have o: "open_rd (source_file st) st = Some ?st1" using ok by (simp add: open_board)
  have c: "open_create False cache_name ?st1 = Some ?st2"
    using r by (simp add: housekeep_ready_def open_create_def)
  have loop: "copy_loop True 0 0 (scan ?st1) ?st2 =
      (int (length (filter garbage ls)), cache_put True True (kept ls) ?st2)"
    using copy_loop_board [of ?st2 "[]" True True 0 0 0 ls] ok scan_lines [OF ls]
    by (simp add: board_ok_def)
  have src: "files st (source_file st) \<noteq> None" using ok(1) by (auto simp: board_ok_def split: option.splits)
  have wf: "wf_board (kept ls)" using ls by (auto simp: has_lines_def wf_board_def kept_def)
  show ?thesis
    using o c loop ok src wf
    by (simp add: housekeep_descriptor_def remove_file_def rename_file_def cache_put_def close_fd_def
        board_ok_def has_lines_def file_bytes_def)
qed

lemma garbage_set: "garbage l \<longleftrightarrow> l \<noteq> [] \<and> set l \<subseteq> {BS}"
  unfolding garbage_iff by blast

lemma kept_lines: "kept ls = filter (\<lambda>l. l = [] \<or> \<not> set l \<subseteq> {BS}) ls"
  unfolding kept_def by (rule filter_cong [OF refl]) (simp add: garbage_set)

text \<open>
  Property C22: housekeeping removes exactly the erased lines, those that consist of backspaces only, in
  place and without a file left behind, and no reader notices: the messages of all valid numbers read as
  before.
\<close>

theorem housekeep_keeps_messages:
  assumes r: "housekeep_ready st" and inv: "board_inv st"
  shows "\<exists>ret st'. housekeep_descriptor st = Inr (ret, st') \<and> board_inv st' \<and>
    (\<forall>ls. has_lines st ls \<longrightarrow> has_lines st' (filter (\<lambda>l. l = [] \<or> \<not> set l \<subseteq> {BS}) ls)) \<and>
    source_file st' = source_file st \<and> files st' cache_name = None \<and>
    (\<forall>k. ok_num k \<longrightarrow> read_view st' k = read_view st k)"
proof -
  obtain ls where ls: "board_ok st" "has_lines st ls" "unique_nums ls"
    using inv by (rule board_invE)
  from housekeep_board [OF r ls(2)] obtain ret st' where
    h: "housekeep_descriptor st = Inr (ret, st')" "board_ok st'" "has_lines st' (kept ls)"
      "files st' cache_name = None" "source_file st' = source_file st" by blast
  have "board_inv st'" using h unique_kept [OF ls(3)] by (auto simp: board_inv_def)
  moreover have "read_view st' k = read_view st k" if "ok_num k" for k
    using read_view_lines [OF h(2,3)] read_view_lines [OF ls(1,2)] lookup_kept [OF that] by simp
  moreover have "has_lines st' (filter (\<lambda>l. l = [] \<or> \<not> set l \<subseteq> {BS}) ms)" if "has_lines st ms" for ms
    using housekeep_board [OF r that] h(1) unfolding kept_lines [symmetric] by auto
  ultimately show ?thesis using h(1,4,5) by blast
qed

lemma copy_loop_no_dest: "snd (copy_loop False off r ls st) = st"
  by (induction ls arbitrary: r) auto

text \<open>
  Property C39: when the cache cannot be opened because the board file took the last descriptor,
  nothing is copied, but the board file is removed all the same: every message is lost.
\<close>

theorem housekeep_loses_board:
  assumes "board_ok st" and "Suc (open_fds st) = fd_limit st" and "dir_writable st"
    and "files st cache_name = None" and "source_file st \<noteq> cache_name"
  shows "\<exists>st'. housekeep_descriptor st = Inr (- 1, st') \<and> files st' (source_file st') = None"
proof -
  let ?st1 = "st\<lparr>open_fds := Suc (open_fds st)\<rparr>"
  have o: "open_rd (source_file st) st = Some ?st1" using assms(1) by (simp add: open_board)
  have c: "open_create False cache_name ?st1 = None" using assms by (simp add: open_create_def)
  obtain r where loop: "copy_loop False 0 0 (scan ?st1) ?st1 = (r, ?st1)"
    using copy_loop_no_dest [of 0 0 "scan ?st1" ?st1] by (metis prod.collapse)
  have "files st (source_file st) \<noteq> None" using assms(1) by (auto simp: board_ok_def split: option.splits)
  then show ?thesis
    using o c loop assms
    by (simp add: housekeep_descriptor_def remove_file_def rename_file_def close_fd_def)
qed

section \<open>Examples\<close>

lemma sample_ready: "housekeep_ready (sample_board ls)"
  using sample_board_ok [of ls] by (simp add: housekeep_ready_def) (simp add: sample_board_def cache_name_def)

lemma sample_erased: "wf_board [''1/bob/hi'', [BS, BS]]" "unique_nums [''1/bob/hi'', [BS, BS]]"
  "read_view (sample_board [''1/bob/hi'', [BS, BS]]) ''1'' = Some ''bob/hi''"
proof -
  show w: "wf_board [''1/bob/hi'', [BS, BS]]" by (simp add: wf_board_def wf_line_def)
  show "unique_nums [''1/bob/hi'', [BS, BS]]"
    by (simp add: unique_nums_def msg_num_def ok_num_def)
  show "read_view (sample_board [''1/bob/hi'', [BS, BS]]) ''1'' = Some ''bob/hi''"
    using sample_line_view by (simp add: sample_view [OF w] sample_view [OF sample_line(1)] msg_num_def)
qed

theorem housekeep_keeps_messages_witness:
  "\<exists>ret st'. housekeep_descriptor (sample_board [''1/bob/hi'', [BS, BS]]) = Inr (ret, st') \<and>
    read_view st' ''1'' = Some ''bob/hi'' \<and> has_lines st' [''1/bob/hi'']"
proof -
  obtain ret st' where h: "housekeep_descriptor (sample_board [''1/bob/hi'', [BS, BS]]) = Inr (ret, st')"
    "\<forall>ls. has_lines (sample_board [''1/bob/hi'', [BS, BS]]) ls \<longrightarrow>
       has_lines st' (filter (\<lambda>l. l = [] \<or> \<not> set l \<subseteq> {BS}) ls)"
    "\<forall>k. ok_num k \<longrightarrow> read_view st' k = read_view (sample_board [''1/bob/hi'', [BS, BS]]) k"
    using housekeep_keeps_messages [OF sample_ready sample_inv [OF sample_erased(1,2)]] by blast
  have "has_lines st' (filter (\<lambda>l. l = [] \<or> \<not> set l \<subseteq> {BS}) [''1/bob/hi'', [BS, BS]])"
    using h(2) sample_has_lines [OF sample_erased(1)] by blast
  with h(1,3) ok_num_digits(1) sample_erased(3) show ?thesis by auto
qed

definition full_table :: "board_state" where
  "full_table = (sample_board [''1/bob/hi''])\<lparr>open_fds := 1023\<rparr>"

theorem housekeep_loses_board_witness:
  "\<exists>st'. housekeep_descriptor full_table = Inr (- 1, st') \<and> files st' (source_file st') = None"
proof -
  have "board_ok full_table" by (simp add: board_ok_def full_table_def sample_board_def)
  moreover have "Suc (open_fds full_table) = fd_limit full_table" "dir_writable full_table"
    "files full_table cache_name = None" "source_file full_table \<noteq> cache_name"
    by (simp_all add: full_table_def sample_board_def cache_name_def)
  ultimately show ?thesis by (rule housekeep_loses_board)
qed

end
