(* ===== verification/WorkQueue.thy ===== *)
theory WorkQueue
  imports Chain
begin

text \<open>
  The work queue of \<open>src/thrd_mgmt.cc\<close>: the chain of \<open>work\<close> nodes, its counter, and the flag
  \<open>pol\<close> of the semaphore \<open>work_pending\<close>. Each function runs under the queue's mutex and is a
  state transformer here. What a node holds, a function pointer and its argument, is a type
  parameter. \<open>free\<close> is not modelled: an address that was handed out stays allocated.
\<close>

section \<open>Data\<close>

record 'w work_queue =
  nodes :: "'w store"
  queue :: ends
  pol :: int

section \<open>The semaphore\<close>

definition create_sem :: "int \<Rightarrow> 'w work_queue \<Rightarrow> 'w work_queue" where
  "create_sem val q = (if val < 0 \<or> val > 1 then q else q\<lparr>pol := val\<rparr>)"

definition reset_sem :: "'w work_queue \<Rightarrow> 'w work_queue" where
  "reset_sem q = create_sem 0 q"

definition sem_post :: "'w work_queue \<Rightarrow> 'w work_queue" where
  "sem_post q = q\<lparr>pol := 1\<rparr>"

section \<open>The queue\<close>

definition create_work_queue :: "'w store \<Rightarrow> 'w work_queue" where
  "create_work_queue h = create_sem 0
     \<lparr>nodes = h, queue = \<lparr>first = None, last_ptr = None, count = 0\<rparr>, pol = 0\<rparr>"

definition push_work :: "addr \<Rightarrow> 'w work_queue \<Rightarrow> c_error + 'w work_queue" where
  "push_work new_work q =
     (case nodes q new_work of
        None \<Rightarrow> Inl Null_pointer
      | Some n \<Rightarrow>
          let h1 = (nodes q)(new_work \<mapsto> n\<lparr>prev := None\<rparr>);
              l = queue q;
              linked =
                (if count l = 0
                 then Inr (h1, l\<lparr>first := Some new_work, last_ptr := Some new_work\<rparr>)
                 else (case last_ptr l of
                     None \<Rightarrow> Inl Null_pointer
                   | Some b \<Rightarrow> (case h1 b of
                       None \<Rightarrow> Inl Null_pointer
                     | Some nb \<Rightarrow> Inr (h1(b \<mapsto> nb\<lparr>prev := Some new_work\<rparr>), l\<lparr>last_ptr := Some new_work\<rparr>))))
          in (case linked of
                Inl e \<Rightarrow> Inl e
              | Inr (h2, l2) \<Rightarrow>
                  Inr (sem_post (q\<lparr>nodes := h2, queue := l2\<lparr>count := count l2 + 1\<rparr>\<rparr>))))"

definition pull_work :: "'w work_queue \<Rightarrow> c_error + addr option \<times> 'w work_queue" where
  "pull_work q = (let l = queue q; work_a = first l in
     if count l = 0 then Inr (work_a, q)
     else if count l = 1
     then Inr (work_a, q\<lparr>queue := l\<lparr>first := None, last_ptr := None, count := 0\<rparr>\<rparr>)
     else (case work_a of
         None \<Rightarrow> Inl Null_pointer
       | Some a \<Rightarrow> (case nodes q a of
           None \<Rightarrow> Inl Null_pointer
         | Some n \<Rightarrow> Inr (work_a,
             sem_post (q\<lparr>queue := l\<lparr>first := prev n, count := count l - 1\<rparr>\<rparr>)))))"

text \<open>The loop of \<open>clear_work_queue\<close>, at most as many rounds as there is work to be done.\<close>

fun clear_loop :: "nat \<Rightarrow> 'w work_queue \<Rightarrow> c_error + 'w work_queue" where
  "clear_loop k q =
     (if count (queue q) > 0 then
        (case k of 0 \<Rightarrow> Inl Never_returns
         | Suc k' \<Rightarrow> (case pull_work q of Inl e \<Rightarrow> Inl e | Inr (_, q') \<Rightarrow> clear_loop k' q'))
      else Inr q)"

declare clear_loop.simps [simp del]

definition clear_work_queue :: "'w work_queue \<Rightarrow> c_error + 'w work_queue" where
  "clear_work_queue q = (case clear_loop (nat (count (queue q))) q of
      Inl e \<Rightarrow> Inl e
    | Inr q1 \<Rightarrow> Inr ((reset_sem (q1\<lparr>queue := (queue q1)\<lparr>first := None, last_ptr := None\<rparr>\<rparr>))
        \<lparr>queue := \<lparr>first = None, last_ptr = None, count = 0\<rparr>\<rparr>))"

text \<open>
  \<open>add_work_to_team\<close>: \<open>malloc\<close> answered \<open>mem\<close>, the address of the new node or nothing. The node's
  link is not set before \<open>push_work\<close>.
\<close>

definition add_work_to_team :: "addr option \<Rightarrow> 'w \<Rightarrow> 'w work_queue \<Rightarrow> c_error + int \<times> 'w work_queue" where
  "add_work_to_team mem w q = (case mem of
      None \<Rightarrow> Inr (- 1, q)
    | Some a \<Rightarrow> (case push_work a (q\<lparr>nodes := (nodes q)(a \<mapsto> \<lparr>prev = None, content = w\<rparr>)\<rparr>) of
          Inl e \<Rightarrow> Inl e
        | Inr q' \<Rightarrow> Inr (0, q')))"

text \<open>What a worker of \<open>activate_employee\<close> takes: the function and the argument of the node.\<close>

definition next_work :: "'w work_queue \<Rightarrow> c_error + 'w option \<times> 'w work_queue" where
  "next_work q = (case pull_work q of
      Inl e \<Rightarrow> Inl e
    | Inr (None, q') \<Rightarrow> Inr (None, q')
    | Inr (Some a, q') \<Rightarrow> (case nodes q' a of
          None \<Rightarrow> Inl Null_pointer
        | Some n \<Rightarrow> Inr (Some (content n), q')))"

definition submit :: "addr \<Rightarrow> 'w \<Rightarrow> 'w work_queue \<Rightarrow> c_error + 'w work_queue" where
  "submit a w q = (case add_work_to_team (Some a) w q of Inl e \<Rightarrow> Inl e | Inr (r, q') \<Rightarrow> Inr q')"

section \<open>The queue is first in, first out\<close>

definition wf_queue :: "'w work_queue \<Rightarrow> bool" where
  "wf_queue q = wf_ends (nodes q, queue q)"

definition pending :: "'w work_queue \<Rightarrow> 'w list" where
  "pending q = items (nodes q, queue q)"

definition fresh_node :: "addr \<Rightarrow> 'w work_queue \<Rightarrow> bool" where
  "fresh_node a q = fresh_addr a (nodes q, queue q)"

lemma wf_queueI: "repr (nodes q) (queue q) as \<Longrightarrow> wf_queue q \<and> pending q = contents (nodes q) as"
  unfolding wf_queue_def pending_def by (rule repr_wf)

lemma wf_queueE:
  "wf_queue q \<Longrightarrow> \<exists>as. repr (nodes q) (queue q) as \<and> pending q = contents (nodes q) as"
  unfolding wf_queue_def pending_def by (rule wf_repr)

lemma wf_queue_pol [simp]:
  "wf_queue (q\<lparr>pol := p\<rparr>) = wf_queue q" "pending (q\<lparr>pol := p\<rparr>) = pending q"
  by (simp_all add: wf_queue_def pending_def)

lemma create_work_queue_wf: "wf_queue (create_work_queue h)" "pending (create_work_queue h) = []"
  using wf_queueI [of "create_work_queue h" "[]"]
  by (simp_all add: create_work_queue_def create_sem_def repr_def)

lemma submit_repr:
  assumes r: "repr (nodes q) (queue q) as" and a: "nodes q a = None"
  shows "\<exists>q'. submit a w q = Inr q' \<and> repr (nodes q') (queue q') (as @ [a]) \<and>
    contents (nodes q') (as @ [a]) = contents (nodes q) as @ [w] \<and> pol q' = 1 \<and>
    (\<forall>b. b \<noteq> a \<longrightarrow> nodes q b = None \<longrightarrow> nodes q' b = None)"
proof -
  obtain h l where hl: "nodes q = h" "queue q = l" by blast
  have na: "a \<notin> set as" using fresh_notin [OF r] a by (simp add: fresh_addr_def)
  show ?thesis
  proof (cases as rule: rev_cases)
    case Nil
    with r have c: "count l = 0" by (simp add: repr_def hl)
    show ?thesis using Nil c repr_push_first [of h l a w] r hl
      by (auto simp: submit_def add_work_to_team_def push_work_def sem_post_def Let_def)
  next
    case (snoc bs b)
    with r obtain nb where nb: "h b = Some nb" by (auto simp: repr_def hl dest: chain_node)
    have l: "count l \<noteq> 0" "last_ptr l = Some b" using r snoc by (auto simp: repr_def hl)
    have "b \<noteq> a" using snoc na by auto
    then have p: "submit a w q = Inr (q\<lparr>nodes := h(b \<mapsto> nb\<lparr>prev := Some a\<rparr>, a \<mapsto> \<lparr>prev = None, content = w\<rparr>),
        queue := l\<lparr>last_ptr := Some a, count := count l + 1\<rparr>, pol := 1\<rparr>)"
      using l nb by (simp add: submit_def add_work_to_team_def push_work_def sem_post_def Let_def
          hl fun_upd_twist)
    have "contents (h(b \<mapsto> nb\<lparr>prev := Some a\<rparr>, a \<mapsto> \<lparr>prev = None, content = w\<rparr>)) as = contents h as"
      using na nb by (auto simp: contents_def)
    with p snoc na nb repr_push_last [of h l bs b a w] r hl show ?thesis by auto
  qed
qed

lemma next_work_repr:
  assumes r: "repr (nodes q) (queue q) as"
  shows "\<exists>q'. next_work q =
      Inr (case contents (nodes q) as of [] \<Rightarrow> None | x # _ \<Rightarrow> Some x, q') \<and>
    nodes q' = nodes q \<and> repr (nodes q) (queue q') (tl as) \<and>
    pol q' = (if length as \<ge> 2 then 1 else pol q)"
proof (cases as)
  case Nil
  with r show ?thesis by (auto simp: repr_def next_work_def pull_work_def Let_def)
next
  case (Cons a bs)
  with r obtain n where n: "nodes q a = Some n"
    by (auto simp: repr_def split: option.splits)
  have f: "first (queue q) = Some a" "count (queue q) = int (length bs) + 1"
    using r Cons n by (auto simp: repr_def)
  show ?thesis
  proof (cases bs)
    case Nil
    with Cons f n r show ?thesis
      by (auto simp: next_work_def pull_work_def Let_def repr_def contents_def)
  next
    case c: (Cons b cs)
    with f have "count (queue q) \<noteq> 0" "count (queue q) \<noteq> 1" by auto
    moreover have "repr (nodes q) ((queue q)\<lparr>first := prev n, count := count (queue q) - 1\<rparr>) bs"
      using repr_drop_first [of "nodes q" "queue q" a bs n] r n Cons c by simp
    ultimately show ?thesis using f n Cons c
      by (auto simp: next_work_def pull_work_def Let_def sem_post_def contents_def)
  qed
qed

interpretation wq: pull_structure wf_queue pending fresh_node submit next_work
proof unfold_locales
  fix s :: "'w work_queue" and a w
  assume "wf_queue s" and f: "fresh_node a s"
  then obtain as where as: "repr (nodes s) (queue s) as" "pending s = contents (nodes s) as"
    using wf_queueE by blast
  from f have a: "nodes s a = None" by (simp add: fresh_node_def fresh_addr_def)
  from submit_repr [OF as(1) a, of w] obtain q' where
    q: "submit a w s = Inr q'" "repr (nodes q') (queue q') (as @ [a])"
      "contents (nodes q') (as @ [a]) = contents (nodes s) as @ [w]"
      "\<forall>b. b \<noteq> a \<longrightarrow> nodes s b = None \<longrightarrow> nodes q' b = None" by blast
  then show "\<exists>s'. submit a w s = Inr s' \<and> wf_queue s' \<and> pending s' = pending s @ [w]"
    using wf_queueI as(2) by metis
  fix b s'
  assume "submit a w s = Inr s'" "fresh_node b s" "b \<noteq> a"
  then show "fresh_node b s'" using q by (simp add: fresh_node_def fresh_addr_def)
next
  fix s :: "'w work_queue"
  assume "wf_queue s"
  then obtain as where as: "repr (nodes s) (queue s) as" "pending s = contents (nodes s) as"
    using wf_queueE by blast
  from next_work_repr [OF as(1)] obtain q' where
    q: "next_work s = Inr (case contents (nodes s) as of [] \<Rightarrow> None | x # _ \<Rightarrow> Some x, q')"
      "nodes q' = nodes s" "repr (nodes s) (queue q') (tl as)" by blast
  then have "wf_queue q'" "pending q' = tl (pending s)"
    using wf_queueI [of q' "tl as"] as by (auto simp: contents_def map_tl)
  then show "\<exists>s'. wf_queue s' \<and>
      next_work s = Inr (case pending s of [] \<Rightarrow> None | x # _ \<Rightarrow> Some x, s') \<and> pending s' = tl (pending s)"
    using q as by auto
qed

text \<open>What a push and a pull do to the flag.\<close>

lemma submit_pol: "wf_queue q \<Longrightarrow> fresh_node a q \<Longrightarrow> submit a w q = Inr q' \<Longrightarrow> pol q' = 1"
  using wf_queueE submit_repr unfolding fresh_node_def fresh_addr_def
  by (metis fst_conv old.sum.inject(2))

lemma next_work_pol:
  assumes "wf_queue q" and "next_work q = Inr (r, q')"
  shows "pol q' = (if length (pending q) \<ge> 2 then 1 else pol q)"
proof -
  obtain as where as: "repr (nodes q) (queue q) as" "pending q = contents (nodes q) as"
    using wf_queueE [OF assms(1)] by blast
  from next_work_repr [OF as(1)] as(2) assms(2) show ?thesis by auto
qed

lemma next_work_pending:
  assumes "wf_queue q" and "next_work q = Inr (r, q')"
  shows "wf_queue q' \<and> pending q' = tl (pending q) \<and>
    r = (case pending q of [] \<Rightarrow> None | x # _ \<Rightarrow> Some x)"
  using wq.pull_law [OF assms(1)] assms(2) by auto

lemma submit_pending:
  assumes "wf_queue q" "fresh_node a q" and "submit a w q = Inr q'"
  shows "wf_queue q' \<and> pending q' = pending q @ [w]"
  using wq.push_law [OF assms(1,2), of w] assms(3) by auto

section \<open>Clearing\<close>

lemma clear_loop_empties:
  "repr (nodes q) (queue q) as \<Longrightarrow> length as \<le> k \<Longrightarrow>
   \<exists>q'. clear_loop k q = Inr q' \<and> nodes q' = nodes q"
proof (induction as arbitrary: q k)
  case Nil
  then show ?case by (auto simp: repr_def clear_loop.simps)
next
  case (Cons a as)
  from Cons.prems(2) obtain k' where k: "k = Suc k'" by (cases k) auto
  have c: "count (queue q) > 0" using Cons.prems(1) by (simp add: repr_def)
  from next_work_repr [OF Cons.prems(1)] obtain r q1 where
    q1: "next_work q = Inr (r, q1)" "nodes q1 = nodes q" "repr (nodes q) (queue q1) as" by auto
  then obtain p where p: "pull_work q = Inr (p, q1)"
    by (auto simp: next_work_def split: sum.splits option.splits)
  from Cons.IH [of q1 k'] q1 k Cons.prems(2) obtain q' where
    "clear_loop k' q1 = Inr q'" "nodes q' = nodes q1" by auto
  with q1 p c k show ?case by (subst clear_loop.simps) simp
qed

lemma clear_work_queue_empties:
  assumes "wf_queue q"
  shows "\<exists>q'. clear_work_queue q = Inr q' \<and> wf_queue q' \<and> pending q' = [] \<and> pol q' = 0"
proof -
  obtain as where as: "repr (nodes q) (queue q) as" using wf_queueE [OF assms] by blast
  then have "length as \<le> nat (count (queue q))" by (simp add: repr_def)
  from clear_loop_empties [OF as this] obtain q1 where "clear_loop (nat (count (queue q))) q = Inr q1"
    by blast
  then obtain q' where q': "clear_work_queue q = Inr q'" "pol q' = 0"
    "queue q' = \<lparr>first = None, last_ptr = None, count = 0\<rparr>"
    by (simp add: clear_work_queue_def reset_sem_def create_sem_def)
  then show ?thesis using wf_queueI [of q' "[]"] by (simp add: repr_def)
qed

end
