(* ===== verification/WorkerTeam.thy ===== *)
theory WorkerTeam
  imports WorkQueue Transition
begin

text \<open>
  A team of worker threads (\<open>src/thrd_mgmt.cc\<close>): the workers of \<open>activate_employee\<close>, the
  semaphore they wait on (\<open>bsem_wait\<close>), the clients that add work, and \<open>terminate_team\<close>. A step
  is what a thread does under one mutex. \<open>pthread_cond_signal\<close> wakes some waiting worker, and a
  waiting worker may also wake by itself, which \<open>bsem_wait\<close> does not check. The steps concern one team:
  that \<open>create_team\<close> for another team raises the shared variable \<open>threads_keepalive\<close> again is in theory
  \<open>Teams\<close>. A job that runs may end or not; no progress that is claimed needs it to end. The fields
  \<open>submitted\<close> and \<open>taken\<close> record the work added and started so far; no step reads them.
\<close>

section \<open>State\<close>

text \<open>
  \<open>Left\<close> is a worker that has taken itself off the counter but still logs its number and gives the
  mutex back; \<open>terminate_team\<close> reads the counter without the mutex.
\<close>

datatype 'w stage =
    Looping | Entering | Blocked | Signalled | Awake
  | Pulling | Running 'w | Ending | Leaving | Left | Gone

record 'w team =
  work_queue_a :: "'w work_queue"
  stage :: "nat \<Rightarrow> 'w stage"
  hired :: nat
  no_of_employees_available :: int
  no_of_employees_working :: int
  threads_keepalive :: bool
  submitted :: "'w list"
  taken :: "'w list"

text \<open>
  The counters of a team, and the loop that waits for them.
\<close>

definition is_working :: "'w team \<Rightarrow> int" where
  "is_working s = no_of_employees_working s"

definition is_available :: "'w team \<Rightarrow> int" where
  "is_available s = no_of_employees_available s"

definition wait_for_ready :: "'w team \<Rightarrow> int \<Rightarrow> c_error + int" where
  "wait_for_ready s num_of_emps =
     (if no_of_employees_available s \<noteq> num_of_emps then Inl Never_returns else Inr 0)"

text \<open>
  \<open>create_employee\<close>: \<open>mem\<close> is the answer of \<open>malloc\<close>. The new thread makes itself available before
  its loop. The loop of \<open>create_team\<close> ignores the result.
\<close>

definition create_employee :: "bool \<Rightarrow> nat \<Rightarrow> 'w team \<Rightarrow> int \<times> 'w team" where
  "create_employee mem i s =
     (if \<not> mem then (- 1, s)
      else (0, s\<lparr>hired := Suc (hired s), stage := (stage s)(i := Looping),
              no_of_employees_available := no_of_employees_available s + 1\<rparr>))"

fun hire_loop :: "(nat \<Rightarrow> bool) \<Rightarrow> nat list \<Rightarrow> 'w team \<Rightarrow> 'w team" where
  "hire_loop mem [] s = s"
| "hire_loop mem (i # is) s = hire_loop mem is (snd (create_employee (mem i) i s))"

text \<open>
  \<open>create_team\<close>: a negative size is 0. The answers of \<open>malloc\<close> for the team, its semaphore and its
  table, and for each employee, are arguments. An employee that could not be created is not
  reported, and the last loop then waits for it forever. The type is copied into 50 bytes.
\<close>

definition create_team ::
  "int \<Rightarrow> string \<Rightarrow> bool \<Rightarrow> bool \<Rightarrow> bool \<Rightarrow> (nat \<Rightarrow> bool) \<Rightarrow> 'w store \<Rightarrow> c_error + 'w team option" where
  "create_team num type team_mem queue_mem table_mem employee_mem h =
     (let n = nat num in
      if \<not> team_mem then Inr None
      else if length type \<ge> 50 then Inl Out_of_bounds
      else if \<not> queue_mem then Inr None
      else if \<not> table_mem then Inr None
      else (let s = hire_loop employee_mem [0..<n] \<lparr>work_queue_a = create_work_queue h,
               stage = (\<lambda>_. Looping), hired = 0, no_of_employees_available = 0,
               no_of_employees_working = 0, threads_keepalive = True, submitted = [], taken = []\<rparr>
        in (case wait_for_ready s (int n) of Inl e \<Rightarrow> Inl e | Inr _ \<Rightarrow> Inr (Some s))))"

lemma hire_loop_all:
  "list_all mem is \<Longrightarrow> stage s = (\<lambda>_. Looping) \<Longrightarrow>
   hire_loop mem is s = s\<lparr>hired := hired s + length is,
     no_of_employees_available := no_of_employees_available s + int (length is)\<rparr>"
  by (induction "is" arbitrary: s) (auto simp: create_employee_def fun_upd_idem)

lemma hire_loop_available:
  "no_of_employees_available (hire_loop mem is s) =
   no_of_employees_available s + int (length (filter mem is))"
  by (induction "is" arbitrary: s) (auto simp: create_employee_def)

text \<open>The team is complete when \<open>create_team\<close> returns: it returns only if all could be hired.\<close>

lemma create_team_eq:
  "create_team num type team_mem queue_mem table_mem employee_mem h =
     (let n = nat num in
      if \<not> team_mem then Inr None
      else if length type \<ge> 50 then Inl Out_of_bounds
      else if \<not> queue_mem then Inr None
      else if \<not> table_mem then Inr None
      else if list_all employee_mem [0..<n]
      then Inr (Some \<lparr>work_queue_a = create_work_queue h, stage = (\<lambda>_. Looping), hired = n,
             no_of_employees_available = int n, no_of_employees_working = 0,
             threads_keepalive = True, submitted = [], taken = []\<rparr>)
      else Inl Never_returns)"
proof -
  have "\<not> list_all mem is \<Longrightarrow> length (filter mem is) < length is" for mem and "is" :: "nat list"
    using length_filter_less by (auto simp: list_all_iff)
  then have "\<not> list_all employee_mem [0..<nat num] \<Longrightarrow> length (filter employee_mem [0..<nat num]) \<noteq> nat num"
    by fastforce
  moreover have "list_all employee_mem [0..<nat num] \<Longrightarrow> filter employee_mem [0..<nat num] = [0..<nat num]"
    by (simp add: filter_id_conv list_all_iff)
  ultimately show ?thesis
    by (auto simp: create_team_def Let_def wait_for_ready_def hire_loop_all hire_loop_available)
qed

definition team_init :: "'w team \<Rightarrow> bool" where
  "team_init s \<longleftrightarrow> (\<exists>num type h. create_team num type True True True (\<lambda>_. True) h = Inr (Some s))"

section \<open>Steps\<close>

text \<open>\<open>pthread_cond_signal\<close>, and \<open>pthread_cond_broadcast\<close>.\<close>

definition signal_one :: "nat \<Rightarrow> (nat \<Rightarrow> 'w stage) \<Rightarrow> (nat \<Rightarrow> 'w stage) \<Rightarrow> bool" where
  "signal_one n st st' \<longleftrightarrow>
     (if \<exists>j<n. st j = Blocked then \<exists>j<n. st j = Blocked \<and> st' = st(j := Signalled) else st' = st)"

definition signal_all :: "(nat \<Rightarrow> 'w stage) \<Rightarrow> nat \<Rightarrow> 'w stage" where
  "signal_all st = (\<lambda>j. if st j = Blocked then Signalled else st j)"

definition took :: "'w option \<Rightarrow> 'w stage" where
  "took r = (case r of None \<Rightarrow> Ending | Some w \<Rightarrow> Running w)"

definition took_list :: "'w option \<Rightarrow> 'w list" where
  "took_list r = (case r of None \<Rightarrow> [] | Some w \<Rightarrow> [w])"

text \<open>
  \<open>bsem_wait\<close> of worker \<open>i\<close>: with the flag down it sleeps on the condition; \<open>bsem_leave\<close> is the rest, at
  once or after it was woken up, whatever the flag is then. \<open>bsem_post_all\<close> raises the flag and wakes
  all.
\<close>

definition bsem_leave :: "nat \<Rightarrow> 'w team \<Rightarrow> 'w team" where
  "bsem_leave i s = s\<lparr>stage := (stage s)(i := Awake), work_queue_a := (work_queue_a s)\<lparr>pol := 0\<rparr>\<rparr>"

definition bsem_wait :: "nat \<Rightarrow> 'w team \<Rightarrow> 'w team" where
  "bsem_wait i s =
     (if pol (work_queue_a s) \<noteq> 1 then s\<lparr>stage := (stage s)(i := Blocked)\<rparr> else bsem_leave i s)"

definition bsem_post_all :: "'w team \<Rightarrow> 'w team" where
  "bsem_post_all s = s\<lparr>stage := signal_all (stage s), work_queue_a := sem_post (work_queue_a s)\<rparr>"

lemmas bsem_defs [simp] = bsem_leave_def bsem_wait_def bsem_post_all_def

inductive team_step :: "'w team \<Rightarrow> 'w team \<Rightarrow> bool" where
  enter: "i < hired s \<Longrightarrow> stage s i = Looping \<Longrightarrow> threads_keepalive s \<Longrightarrow>
    team_step s (s\<lparr>stage := (stage s)(i := Entering)\<rparr>)"
| leave: "i < hired s \<Longrightarrow> stage s i = Looping \<Longrightarrow> \<not> threads_keepalive s \<Longrightarrow>
    team_step s (s\<lparr>stage := (stage s)(i := Leaving)\<rparr>)"
| count_out: "i < hired s \<Longrightarrow> stage s i = Leaving \<Longrightarrow>
    team_step s (s\<lparr>stage := (stage s)(i := Left),
      no_of_employees_available := no_of_employees_available s - 1\<rparr>)"
| gone: "i < hired s \<Longrightarrow> stage s i = Left \<Longrightarrow>
    team_step s (s\<lparr>stage := (stage s)(i := Gone)\<rparr>)"
| sem_wait: "i < hired s \<Longrightarrow> stage s i = Entering \<Longrightarrow> team_step s (bsem_wait i s)"
| wake_spurious: "i < hired s \<Longrightarrow> stage s i = Blocked \<Longrightarrow>
    team_step s (s\<lparr>stage := (stage s)(i := Signalled)\<rparr>)"
| sem_wake: "i < hired s \<Longrightarrow> stage s i = Signalled \<Longrightarrow> team_step s (bsem_leave i s)"
| begin_work: "i < hired s \<Longrightarrow> stage s i = Awake \<Longrightarrow> threads_keepalive s \<Longrightarrow>
    team_step s (s\<lparr>stage := (stage s)(i := Pulling),
      no_of_employees_working := no_of_employees_working s + 1\<rparr>)"
| no_work: "i < hired s \<Longrightarrow> stage s i = Awake \<Longrightarrow> \<not> threads_keepalive s \<Longrightarrow>
    team_step s (s\<lparr>stage := (stage s)(i := Looping)\<rparr>)"
| pull: "i < hired s \<Longrightarrow> stage s i = Pulling \<Longrightarrow> next_work (work_queue_a s) = Inr (r, q) \<Longrightarrow>
    (if count (queue (work_queue_a s)) \<in> {0, 1} then st = (stage s)(i := took r)
     else signal_one (hired s) ((stage s)(i := took r)) st) \<Longrightarrow>
    team_step s (s\<lparr>stage := st, work_queue_a := q, taken := taken s @ took_list r\<rparr>)"
| done_work: "i < hired s \<Longrightarrow> stage s i = Running w \<Longrightarrow>
    team_step s (s\<lparr>stage := (stage s)(i := Ending)\<rparr>)"
| end_work: "i < hired s \<Longrightarrow> stage s i = Ending \<Longrightarrow>
    team_step s (s\<lparr>stage := (stage s)(i := Looping),
      no_of_employees_working := no_of_employees_working s - 1\<rparr>)"
| add_work: "fresh_node a (work_queue_a s) \<Longrightarrow>
    add_work_to_team (Some a) w (work_queue_a s) = Inr (0, q) \<Longrightarrow> signal_one (hired s) (stage s) st \<Longrightarrow>
    team_step s (s\<lparr>stage := st, work_queue_a := q, submitted := submitted s @ [w]\<rparr>)"
| terminate: "team_step s (s\<lparr>threads_keepalive := False\<rparr>)"
| post_all: "\<not> threads_keepalive s \<Longrightarrow> team_step s (bsem_post_all s)"

section \<open>Counting workers\<close>

definition headcount :: "('w stage \<Rightarrow> bool) \<Rightarrow> (nat \<Rightarrow> 'w stage) \<Rightarrow> nat \<Rightarrow> int" where
  "headcount P st n = (\<Sum>j<n. of_bool (P (st j)))"

definition at_work :: "'w stage \<Rightarrow> bool" where
  "at_work x = (case x of Pulling \<Rightarrow> True | Running w \<Rightarrow> True | Ending \<Rightarrow> True | _ \<Rightarrow> False)"

definition present :: "'w stage \<Rightarrow> bool" where
  "present x \<longleftrightarrow> x \<noteq> Left \<and> x \<noteq> Gone"

lemma headcount_upd:
  "i < n \<Longrightarrow> headcount P (st(i := x)) n = headcount P st n + of_bool (P x) - of_bool (P (st i))"
proof -
  assume i: "i < n"
  have "headcount P f n = of_bool (P (f i)) + (\<Sum>j\<in>{..<n} - {i}. of_bool (P (f j)))" for f
    unfolding headcount_def by (rule sum.remove) (simp_all add: i)
  from this [of st] this [of "st(i := x)"] show ?thesis by simp
qed

lemma headcount_const: "headcount P (\<lambda>_. x) n = int n * of_bool (P x)"
  by (simp add: headcount_def)

lemma headcount_cong: "(\<And>j. P (st' j) = P (st j)) \<Longrightarrow> headcount P st' n = headcount P st n"
  by (simp add: headcount_def)

lemma stage_preds [simp]:
  "at_work Pulling" "at_work (Running w)" "at_work Ending" "\<not> at_work Looping" "\<not> at_work Entering"
  "\<not> at_work Blocked" "\<not> at_work Signalled" "\<not> at_work Awake" "\<not> at_work Leaving" "\<not> at_work Left" "\<not> at_work Gone"
  "present Pulling" "present (Running w)" "present Ending" "present Looping" "present Entering"
  "present Blocked" "present Signalled" "present Awake" "present Leaving" "\<not> present Left" "\<not> present Gone"
  by (simp_all add: at_work_def present_def)

lemma took_preds [simp]:
  "at_work (took r)" "present (took r)" "took r \<noteq> Blocked" "took r \<noteq> Signalled"
  by (simp_all add: took_def split: option.splits)

lemma signal_one_preds:
  "signal_one n st st' \<Longrightarrow> P Blocked = P Signalled \<Longrightarrow> P (st' j) = P (st j)"
  by (auto simp: signal_one_def split: if_splits)

lemma signal_one_counts:
  "signal_one n st st' \<Longrightarrow> headcount at_work st' n = headcount at_work st n"
  "signal_one n st st' \<Longrightarrow> headcount present st' n = headcount present st n"
  by (rule headcount_cong, erule signal_one_preds, simp)+

lemma signal_all_counts:
  "headcount at_work (signal_all st) n = headcount at_work st n"
  "headcount present (signal_all st) n = headcount present st n"
  by (rule headcount_cong, simp add: signal_all_def)+

text \<open>After a signal, some worker is on its way or none is blocked.\<close>

definition heard :: "nat \<Rightarrow> (nat \<Rightarrow> 'w stage) \<Rightarrow> bool" where
  "heard n st \<longleftrightarrow> (\<exists>j<n. st j = Signalled) \<or> (\<forall>j<n. st j \<noteq> Blocked)"

lemma signal_one_heard: "signal_one n st st' \<Longrightarrow> heard n st'"
  by (auto simp: signal_one_def heard_def split: if_splits)

lemma signal_all_heard: "heard n (signal_all st)"
  by (simp add: heard_def signal_all_def)

lemma heard_upd:
  "heard n st \<Longrightarrow> st i \<noteq> Signalled \<Longrightarrow> x \<noteq> Blocked \<Longrightarrow> heard n (st(i := x))"
  unfolding heard_def fun_upd_apply by metis

section \<open>The invariant\<close>

definition books :: "'w team \<Rightarrow> bool" where
  "books s \<longleftrightarrow> wf_queue (work_queue_a s) \<and>
     taken s @ pending (work_queue_a s) = submitted s \<and>
     no_of_employees_working s = headcount at_work (stage s) (hired s) \<and>
     no_of_employees_available s = headcount present (stage s) (hired s)"

definition on_the_way :: "'w team \<Rightarrow> bool" where
  "on_the_way s \<longleftrightarrow> (\<exists>i<hired s. stage s i = Awake \<or> stage s i = Pulling)"

definition watched :: "'w team \<Rightarrow> bool" where
  "watched s \<longleftrightarrow> (threads_keepalive s \<longrightarrow> pending (work_queue_a s) \<noteq> [] \<longrightarrow>
       pol (work_queue_a s) = 1 \<or> on_the_way s) \<and>
     (pol (work_queue_a s) = 1 \<longrightarrow> heard (hired s) (stage s))"

lemma add_work_submit: "add_work_to_team (Some a) w q = Inr (0, q') \<Longrightarrow> submit a w q = Inr q'"
  by (simp add: submit_def)

lemma count_pending: "wf_queue q \<Longrightarrow> count (queue q) = int (length (pending q))"
  using wf_queueE by (fastforce simp: repr_def)

lemma books_init: "team_init s \<Longrightarrow> books s"
  by (auto simp: team_init_def books_def create_team_eq Let_def create_work_queue_wf
      headcount_const split: if_splits)

lemma watched_init: "team_init s \<Longrightarrow> watched s"
  by (auto simp: team_init_def watched_def create_team_eq Let_def create_work_queue_wf heard_def
      split: if_splits)

lemma took_list_pending:
  "wf_queue q \<Longrightarrow> next_work q = Inr (r, q') \<Longrightarrow> took_list r @ pending q' = pending q"
  using next_work_pending by (fastforce simp: took_list_def split: list.splits)

lemma pull_stage:
  assumes "if c then st = f(i := took r) else signal_one n (f(i := took r)) st" and "i < n"
    and "f i = Pulling"
  shows "headcount at_work st n = headcount at_work f n \<and> headcount present st n = headcount present f n"
  using assms by (auto simp: signal_one_counts headcount_upd split: if_splits)

lemma books_step:
  assumes "books s" and "team_step s t"
  shows "books t"
  using assms(2,1)
proof cases
  case (pull i r q st)
  with assms(1) show ?thesis
    using next_work_pending [of "work_queue_a s" r q] took_list_pending [of "work_queue_a s" r q]
      pull_stage [OF pull(5,2,3)] by (simp add: books_def)
next
  case (add_work a w q st)
  with assms(1) show ?thesis
    using submit_pending [OF _ add_work(2) add_work_submit [OF add_work(3)]]
    by (auto simp: books_def signal_one_counts)
next
  case post_all
  with assms(1) show ?thesis by (simp add: books_def signal_all_counts sem_post_def)
qed (auto simp: books_def headcount_upd)

lemma tl_short: "\<not> 2 \<le> length l \<Longrightarrow> tl l = []"
  by (cases l) (auto simp: Suc_le_eq)

lemma watched_pull:
  assumes "books s" "watched s" and i: "i < hired s" "stage s i = Pulling"
    and n: "next_work (work_queue_a s) = Inr (r, q)"
    and st: "if count (queue (work_queue_a s)) \<in> {0, 1} then st = (stage s)(i := took r)
      else signal_one (hired s) ((stage s)(i := took r)) st"
  shows "watched (s\<lparr>stage := st, work_queue_a := q, taken := tk\<rparr>)"
proof (cases "length (pending (work_queue_a s)) \<ge> 2")
  case True
  have wf: "wf_queue (work_queue_a s)" using assms(1) by (simp add: books_def)
  then have "count (queue (work_queue_a s)) \<notin> {0, 1}" using True by (auto simp: count_pending)
  with st have "signal_one (hired s) ((stage s)(i := took r)) st" by (simp split: if_splits)
  then have "heard (hired s) st" by (rule signal_one_heard)
  moreover have "pol q = 1" using next_work_pol [OF wf n] True by simp
  ultimately show ?thesis by (simp add: watched_def)
next
  case False
  have wf: "wf_queue (work_queue_a s)" using assms(1) by (simp add: books_def)
  then have "count (queue (work_queue_a s)) \<in> {0, 1}" using False
    by (cases "pending (work_queue_a s)") (auto simp: count_pending not_less_eq_eq [symmetric])
  then have "st = (stage s)(i := took r)" using st by simp
  moreover have "pending q = []" using next_work_pending [OF wf n] False
    by (simp add: tl_short)
  moreover have "pol q = pol (work_queue_a s)" using next_work_pol [OF wf n] False by simp
  ultimately show ?thesis using assms(2) i by (auto simp: watched_def intro: heard_upd)
qed

lemma on_the_way_upd:
  "on_the_way s \<Longrightarrow> stage s i \<noteq> Awake \<Longrightarrow> stage s i \<noteq> Pulling \<Longrightarrow>
   on_the_way (s\<lparr>stage := (stage s)(i := x)\<rparr>)"
  by (auto simp: on_the_way_def)

lemma on_the_way_awake:
  "i < hired s \<Longrightarrow> x = Awake \<or> x = Pulling \<Longrightarrow> on_the_way (s\<lparr>stage := (stage s)(i := x)\<rparr>)"
  by (auto simp: on_the_way_def)

lemma on_the_way_more [simp]:
  "on_the_way (s\<lparr>work_queue_a := q\<rparr>) = on_the_way s"
  "on_the_way (s\<lparr>stage := st, work_queue_a := q\<rparr>) = on_the_way (s\<lparr>stage := st\<rparr>)"
  "on_the_way (s\<lparr>stage := st, no_of_employees_working := n\<rparr>) = on_the_way (s\<lparr>stage := st\<rparr>)"
  "on_the_way (s\<lparr>stage := st, no_of_employees_available := n\<rparr>) = on_the_way (s\<lparr>stage := st\<rparr>)"
  by (simp_all add: on_the_way_def)

lemma watched_upd:
  assumes "watched s" "stage s i \<notin> {Signalled, Awake, Pulling}" "x \<noteq> Blocked"
  shows "watched (s\<lparr>stage := (stage s)(i := x)\<rparr>)"
  using assms by (auto simp: watched_def intro: heard_upd on_the_way_upd)

lemma watched_more [simp]:
  "watched (s\<lparr>stage := st, no_of_employees_working := n\<rparr>) = watched (s\<lparr>stage := st\<rparr>)"
  "watched (s\<lparr>stage := st, no_of_employees_available := n\<rparr>) = watched (s\<lparr>stage := st\<rparr>)"
  by (simp_all add: watched_def)

lemma watched_step:
  assumes b: "books s" and w: "watched s" and step: "team_step s t"
  shows "watched t"
  using step
proof cases
  case (sem_wait i)
  then show ?thesis using w
    by (cases "pol (work_queue_a s) = 1") (auto simp: watched_def on_the_way_awake intro: on_the_way_upd)
next
  case (wake_spurious i)
  then show ?thesis using w by (simp add: watched_upd)
next
  case (sem_wake i)
  then show ?thesis by (simp add: watched_def on_the_way_awake)
next
  case (begin_work i)
  then show ?thesis using w by (auto simp: watched_def intro: heard_upd on_the_way_awake)
next
  case (no_work i)
  then show ?thesis using w by (auto simp: watched_def intro: heard_upd)
next
  case (pull i r q st)
  then show ?thesis using watched_pull [OF b w pull(2-5)] by simp
next
  case (add_work a v q st)
  have "wf_queue (work_queue_a s)" using b by (simp add: books_def)
  from submit_pol [OF this add_work(2) add_work_submit [OF add_work(3)]] add_work
  show ?thesis by (simp add: watched_def signal_one_heard)
next
  case terminate
  then show ?thesis using w by (simp add: watched_def)
next
  case post_all
  then show ?thesis by (simp add: watched_def signal_all_heard)
qed (use w in \<open>auto intro!: watched_upd\<close>)

definition team_inv :: "'w team \<Rightarrow> bool" where
  "team_inv s \<longleftrightarrow> books s \<and> watched s"

interpretation tm: inductive_invariant team_init team_step team_inv
  by unfold_locales (auto simp: team_inv_def intro: books_init watched_init books_step watched_step)


section \<open>Waiting for the team, and shutting it down\<close>

text \<open>
  \<open>team_wait\<close> waits on \<open>team_meet\<close> while there is work; nothing signals that condition.
\<close>

definition team_wait :: "'w team \<Rightarrow> c_error + unit" where
  "team_wait s = (if count (queue (work_queue_a s)) \<noteq> 0 \<or> no_of_employees_working s \<noteq> 0
     then Inl Never_returns else Inr ())"











lemma signal_one_ex: "\<exists>st'. signal_one n st st'"
  by (auto simp: signal_one_def)



lemma headcount_zero: "headcount P st n = 0 \<longleftrightarrow> (\<forall>j<n. \<not> P (st j))"
proof -
  have "headcount P st n = int (card {j \<in> {..<n}. P (st j)})"
    by (simp add: headcount_def Collect_conj_eq lessThan_def [symmetric])
  then show ?thesis by auto
qed

section \<open>Taking work\<close>

text \<open>Worker \<open>i\<close> leaves the queue with its first piece of work, if there is one.\<close>

definition takes_next :: "'w team \<Rightarrow> nat \<Rightarrow> 'w team \<Rightarrow> bool" where
  "takes_next s i t \<longleftrightarrow> (case pending (work_queue_a s) of
      [] \<Rightarrow> stage t i = Ending \<and> taken t = taken s
    | w # ws \<Rightarrow> stage t i = Running w \<and> taken t = taken s @ [w] \<and> pending (work_queue_a t) = ws)"

lemma pull_stage_own:
  assumes "if c then st = f(i := took r) else signal_one n (f(i := took r)) st"
  shows "st i = took r"
  using assms signal_one_preds [of n "f(i := took r)" st "\<lambda>x. x = took r" i]
  by (auto simp: took_def split: if_splits option.splits)

lemma pull_takes_next:
  assumes "wf_queue (work_queue_a s)" and "next_work (work_queue_a s) = Inr (r, q)"
    and "if c then st = (stage s)(i := took r) else signal_one n ((stage s)(i := took r)) st"
  shows "takes_next s i (s\<lparr>stage := st, work_queue_a := q, taken := taken s @ took_list r\<rparr>)"
  using next_work_pending [OF assms(1,2)] pull_stage_own [OF assms(3)]
  by (auto simp: takes_next_def took_def took_list_def split: list.splits)

lemma pulling_takes_next:
  assumes "wf_queue (work_queue_a s)" and "i < hired s" and "stage s i = Pulling"
  shows "\<exists>t. team_step s t \<and> takes_next s i t"
    and "team_step s t \<Longrightarrow> stage t i \<noteq> Pulling \<Longrightarrow> takes_next s i t"
proof -
  obtain r q where n: "next_work (work_queue_a s) = Inr (r, q)"
    using wq.pull_law [OF assms(1)] by blast
  obtain st where st: "if count (queue (work_queue_a s)) \<in> {0, 1} then st = (stage s)(i := took r)
      else signal_one (hired s) ((stage s)(i := took r)) st"
    using signal_one_ex by (metis (full_types))
  show "\<exists>t. team_step s t \<and> takes_next s i t"
    using team_step.pull [OF assms(2,3) n st] pull_takes_next [OF assms(1) n st] by blast
  assume step: "team_step s t" and away: "stage t i \<noteq> Pulling"
  show "takes_next s i t"
    using step
  proof cases
    case (pull j r q st)
    have "st i = Pulling" if "i \<noteq> j"
      using pull(5) that assms(3) by (auto simp: signal_one_def split: if_splits)
    with away pull(1) have "i = j" by auto
    with pull pull_takes_next [OF assms(1) pull(4,5)] show ?thesis by simp
  next
    case (add_work a w q st)
    then show ?thesis using away assms(3) by (auto simp: signal_one_def split: if_splits)
  qed (use away assms(3) in \<open>auto simp: signal_all_def split: if_splits\<close>)
qed

section \<open>What a team guarantees\<close>

text \<open>A team of one worker with one piece of work, for the witnesses.\<close>

definition small_team :: "nat team" where
  "small_team = \<lparr>work_queue_a = create_work_queue Map.empty, stage = (\<lambda>_. Looping), hired = 1,
     no_of_employees_available = 1, no_of_employees_working = 0,
     threads_keepalive = True, submitted = [], taken = []\<rparr>"

definition busy_team :: "nat team" where
  "busy_team = small_team\<lparr>work_queue_a :=
     \<lparr>nodes = [4 \<mapsto> \<lparr>prev = None, content = 7\<rparr>],
      queue = \<lparr>first = Some 4, last_ptr = Some 4, count = 1\<rparr>, pol = 1\<rparr>, submitted := [7]\<rparr>"

lemma small_team_reach: "reach team_init team_step small_team"
proof (rule reach_init)
  have "create_team 1 ''w'' True True True (\<lambda>_. True) Map.empty = Inr (Some small_team)"
    by (simp add: create_team_eq small_team_def Let_def)
  then show "team_init small_team" unfolding team_init_def by blast
qed

lemma busy_team_reach: "reach team_init team_step busy_team"
proof (rule reach_step [OF small_team_reach])
  let ?q = "create_work_queue Map.empty"
  have "add_work_to_team (Some 4) 7 ?q = Inr (0, work_queue_a busy_team)"
    by (simp add: add_work_to_team_def push_work_def create_work_queue_def create_sem_def
        sem_post_def busy_team_def)
  then have "team_step small_team (small_team\<lparr>stage := stage small_team,
      work_queue_a := work_queue_a busy_team, submitted := submitted small_team @ [7]\<rparr>)"
    by (intro add_work) (simp_all add: small_team_def fresh_node_def fresh_addr_def
        create_work_queue_def create_sem_def signal_one_def)
  then show "team_step small_team busy_team" by (simp add: busy_team_def small_team_def)
qed

text \<open>
  Whatever the interleaving, the work the team has started, followed by the work in
  its queue, is the work that was added, in the order it was added: nothing is lost, run twice or
  reordered; and the counter of working employees is the number of workers between waking up and
  going to sleep.
\<close>

theorem work_fifo:
  assumes "reach team_init team_step s"
  shows "taken s @ pending (work_queue_a s) = submitted s \<and>
    no_of_employees_working s = headcount at_work (stage s) (hired s)"
  using tm.reach_inv [OF assms] by (simp add: team_inv_def books_def)

theorem work_fifo_witness:
  "taken busy_team @ pending (work_queue_a busy_team) = [7]"
  using work_fifo [OF busy_team_reach] by (simp add: busy_team_def)

text \<open>
  Property C12: no wake-up is lost. While the team is alive and its queue is not empty, some worker
  is on its way to the queue, or the semaphore is up and no worker sleeps on it. (The team is one that
  was not stopped and revived by a later \<open>create_team\<close>.)
\<close>

theorem work_not_stranded:
  assumes "reach team_init team_step s" and "threads_keepalive s" and "pending (work_queue_a s) \<noteq> []"
  shows "(\<exists>i<hired s. stage s i \<in> {Signalled, Awake, Pulling}) \<or>
    (pol (work_queue_a s) = 1 \<and> (\<forall>i<hired s. stage s i \<noteq> Blocked))"
  using tm.reach_inv [OF assms(1)] assms(2,3)
  by (auto simp: team_inv_def watched_def on_the_way_def heard_def)

theorem work_not_stranded_witness:
  "pol (work_queue_a busy_team) = 1 \<and> stage busy_team 0 \<noteq> Blocked"
proof -
  have "pending (work_queue_a busy_team) = [7]"
    by (simp add: busy_team_def pending_def items_def nodes_of_def)
  then show ?thesis
    using work_not_stranded [OF busy_team_reach] by (simp add: busy_team_def small_team_def)
qed




text \<open>
  \<open>clear_work_queue\<close> empties a well-formed queue and lowers its semaphore; its loop
  ends.
\<close>

theorem clear_work_queue_clears:
  assumes "wf_queue q"
  shows "\<exists>q'. clear_work_queue q = Inr q' \<and> wf_queue q' \<and> pending q' = [] \<and> pol q' = 0"
  using assms by (rule clear_work_queue_empties)

theorem clear_work_queue_clears_witness:
  "\<exists>q'. clear_work_queue (work_queue_a busy_team) = Inr q' \<and> pending q' = [] \<and> pol q' = 0"
proof -
  have "wf_queue (work_queue_a busy_team)"
    by (simp add: busy_team_def wf_queue_def wf_ends_def nodes_of_def repr_def)
  from clear_work_queue_clears [OF this] show ?thesis by blast
qed

end
