(* ===== verification/TeamEnd.thy ===== *)
theory TeamEnd
  imports WorkerTeam
begin

text \<open>
  The end of a team (\<open>terminate_team\<close> of \<open>src/thrd_mgmt.cc\<close>): what it does once its waiting loop is
  left, and what the steps of the team guarantee then. The loop itself, which posts the semaphore
  until no employee is available, is the step \<open>post_all\<close> of theory \<open>WorkerTeam\<close>; the first
  second of it is the same loop with a bound. \<open>threads_keepalive\<close> is one variable of the whole
  program: a team can find it 0 because another team is being terminated.
\<close>

section \<open>Freeing\<close>

text \<open>\<open>free\<close> on the semaphore is not modelled.\<close>

definition terminate_work_queue :: "'w work_queue \<Rightarrow> c_error + 'w work_queue" where
  "terminate_work_queue q = clear_work_queue q"

text \<open>
  The loop over the employees: \<open>avail\<close> is \<open>no_of_employees_available\<close> as it was at the beginning,
  \<open>n\<close> the size of the table. The result is the indices that were freed. The counter is read without
  the mutex of the team, so that workers which have counted themselves out may still be \<open>Left\<close>: nothing
  here waits until they are \<open>Gone\<close>.
\<close>

fun fire_loop :: "nat \<Rightarrow> nat \<Rightarrow> nat \<Rightarrow> c_error + nat list" where
  "fire_loop n i 0 = Inr []"
| "fire_loop n i (Suc k) =
     (if n \<le> i then Inl Out_of_bounds
      else (case fire_loop n (Suc i) k of Inl e \<Rightarrow> Inl e | Inr is \<Rightarrow> Inr (i # is)))"

definition terminate_rest :: "int \<Rightarrow> 'w team \<Rightarrow> c_error + nat list \<times> 'w work_queue" where
  "terminate_rest avail s =
     (if no_of_employees_available s \<noteq> 0 then Inl Never_returns
      else (case terminate_work_queue (work_queue_a s) of
          Inl e \<Rightarrow> Inl e
        | Inr q \<Rightarrow> (case fire_loop (hired s) 0 (nat avail) of Inl e \<Rightarrow> Inl e | Inr freed \<Rightarrow> Inr (freed, q))))"

lemma fire_loop_all: "i + k \<le> n \<Longrightarrow> fire_loop n i k = Inr [i..<i + k]"
  by (induction n i k rule: fire_loop.induct) (auto simp: upt_conv_Cons)

section \<open>What stays\<close>

lemma team_step_hired: "team_step s t \<Longrightarrow> hired t = hired s"
  by (induction rule: team_step.induct) auto

lemma team_step_stopped: "team_step s t \<Longrightarrow> \<not> threads_keepalive s \<Longrightarrow> \<not> threads_keepalive t"
  by (induction rule: team_step.induct) auto

text \<open>
  Since \<open>s0\<close>, where the variable was 0, works were started only by workers that were then between the
  test of the variable and the queue; each of them counts once.
\<close>

definition pulling :: "'w team \<Rightarrow> int" where
  "pulling s = headcount (\<lambda>x. x = Pulling) (stage s) (hired s)"

definition stopped_from :: "'w team \<Rightarrow> 'w team \<Rightarrow> bool" where
  "stopped_from s0 s \<longleftrightarrow> \<not> threads_keepalive s \<and>
     (\<exists>ws. taken s = taken s0 @ ws \<and> int (length ws) + pulling s \<le> pulling s0)"

lemma signal_one_pulling:
  "signal_one n st st' \<Longrightarrow> headcount (\<lambda>x. x = Pulling) st' m = headcount (\<lambda>x. x = Pulling) st m"
  by (rule headcount_cong, erule signal_one_preds, simp)

lemma signal_all_pulling:
  "headcount (\<lambda>x. x = Pulling) (signal_all st) m = headcount (\<lambda>x. x = Pulling) st m"
  by (rule headcount_cong) (simp add: signal_all_def)

lemma took_pulling: "took r \<noteq> Pulling" "length (took_list r) \<le> 1"
  by (simp_all add: took_def took_list_def split: option.split)

lemma stopped_from_frame:
  "stopped_from s0 s \<Longrightarrow> \<not> threads_keepalive t \<Longrightarrow> taken t = taken s \<Longrightarrow> pulling t \<le> pulling s \<Longrightarrow> stopped_from s0 t"
  by (auto simp: stopped_from_def)

lemma stopped_step:
  assumes step: "team_step s t" and inv: "stopped_from s0 s"
  shows "stopped_from s0 t"
proof -
  have flag: "\<not> threads_keepalive t"
    using team_step_stopped [OF step] inv by (simp add: stopped_from_def)
  from step show ?thesis
  proof cases
    case (pull i r q st)
    have "headcount (\<lambda>x. x = Pulling) st (hired s) = pulling s - 1"
      using pull(2,3,5) took_pulling(1) [of r]
      by (auto simp: pulling_def headcount_upd signal_one_pulling split: if_splits)
    moreover obtain ws where "taken s = taken s0 @ ws" "int (length ws) + pulling s \<le> pulling s0"
      using inv by (auto simp: stopped_from_def)
    ultimately show ?thesis
      using flag pull(1) took_pulling(2) [of r]
      by (auto simp: stopped_from_def pulling_def intro!: exI [of _ "ws @ took_list r"])
  next
    case (add_work a w q st)
    then show ?thesis by (intro stopped_from_frame [OF inv flag]) (simp_all add: pulling_def signal_one_pulling)
  next
    case post_all
    then show ?thesis by (intro stopped_from_frame [OF inv flag]) (simp_all add: pulling_def signal_all_pulling)
  next
    case (begin_work i)
    then show ?thesis using inv by (simp add: stopped_from_def)
  qed (intro stopped_from_frame [OF inv flag]; simp add: pulling_def headcount_upd)+
qed

interpretation stp: inductive_invariant
  "\<lambda>s. s = s0 \<and> stopped_from s0 s" team_step "stopped_from s0" for s0 :: "'w team"
  by unfold_locales (auto intro: stopped_step)

interpretation same_size: inductive_invariant
  "\<lambda>s. s = s0" team_step "\<lambda>s. hired s = hired s0" for s0 :: "'w team"
  by unfold_locales (auto dest: team_step_hired)

lemma reach_conj: "reach (\<lambda>s. s = s0) step s \<Longrightarrow> P s0 \<Longrightarrow> reach (\<lambda>s. s = s0 \<and> P s) step s"
  by (induction rule: reach.induct) (auto intro: reach.intros)

lemma left_stays:
  assumes "team_step s t" and "stage s i = Left \<or> stage s i = Gone"
  shows "stage t i = stage s i \<or> stage t i = Gone"
  using assms
proof (induction rule: team_step.induct)
  case (pull j s r q st)
  then show ?case by (auto simp: signal_one_def split: if_splits)
next
  case (add_work a s w q st)
  then show ?case by (auto simp: signal_one_def split: if_splits)
qed (auto simp: signal_all_def)

lemma headcount_full: "headcount P st n = int n \<longleftrightarrow> (\<forall>j<n. P (st j))"
proof -
  have "headcount P st n + headcount (\<lambda>x. \<not> P x) st n = int n"
    by (induction n) (auto simp: headcount_def)
  then show ?thesis using headcount_zero [of "\<lambda>x. \<not> P x" st n] by auto
qed

lemma headcount_range: "0 \<le> headcount P st n \<and> headcount P st n \<le> int n"
proof -
  have "headcount P st n = int (card {j \<in> {..<n}. P (st j)})"
    by (simp add: headcount_def Collect_conj_eq lessThan_def [symmetric])
  moreover have "card {j \<in> {..<n}. P (st j)} \<le> n"
    using card_mono [of "{..<n}" "{j \<in> {..<n}. P (st j)}"] by auto
  ultimately show ?thesis by simp
qed

section \<open>What termination guarantees\<close>

text \<open>
  Property C25: after \<open>threads_keepalive\<close> is 0, and as long as no team is created, which would set it
  again, only workers that were already past the test of it start a job, and each at most one; all other
  work, queued or still added, stays in the queue in its order. (The variable is shared by all teams, so
  this holds of the senders as soon as \<open>quit_handler\<close> terminates the team of the clients.)
\<close>

theorem no_start_after_stop:
  assumes "\<not> threads_keepalive s0"
    and "reach (\<lambda>s. s = s0) team_step s" and "reach team_init team_step s0"
  shows "\<exists>ws. taken s = taken s0 @ ws \<and>
    int (length ws) \<le> headcount (\<lambda>x. x = Pulling) (stage s0) (hired s0) \<and>
    pending (work_queue_a s) = drop (length (taken s0) + length ws) (submitted s)"
proof -
  have "stopped_from s0 s0" using assms(1) by (simp add: stopped_from_def)
  from stp.reach_inv [OF reach_conj [OF assms(2), of "stopped_from s0", OF this]]
  obtain ws where ws: "taken s = taken s0 @ ws" "int (length ws) + pulling s \<le> pulling s0"
    by (auto simp: stopped_from_def)
  have "team_inv s" by (rule tm.reach_inv [OF reach_trans [OF assms(2,3)]])
  then have "taken s @ pending (work_queue_a s) = submitted s" by (simp add: team_inv_def books_def)
  then have "pending (work_queue_a s) = drop (length (taken s)) (submitted s)" by (metis append_eq_conv_conj)
  moreover have "0 \<le> pulling s" using headcount_range by (auto simp: pulling_def)
  ultimately show ?thesis using ws by (auto simp: pulling_def)
qed

text \<open>A stopped team of one worker with a job in its queue, the worker leaving, and it having left.\<close>

definition stopped_team :: "nat team" where
  "stopped_team = busy_team\<lparr>threads_keepalive := False\<rparr>"

definition left_team :: "nat team" where
  "left_team = stopped_team\<lparr>stage := (\<lambda>_. Looping)(0 := Left), no_of_employees_available := 0\<rparr>"

lemmas end_teams = left_team_def stopped_team_def busy_team_def small_team_def

lemma left_team_reach: "reach (\<lambda>s. s = stopped_team) team_step left_team"
proof -
  let ?s = "stopped_team\<lparr>stage := (\<lambda>_. Looping)(0 := Leaving)\<rparr>"
  have "team_step stopped_team ?s"
    using leave [of 0 stopped_team] by (simp add: end_teams)
  moreover have "team_step ?s left_team"
    using count_out [of 0 ?s] by (simp add: end_teams)
  ultimately show ?thesis by (blast intro: reach.intros)
qed

lemma stopped_team_reach: "reach team_init team_step stopped_team"
  unfolding stopped_team_def by (rule reach_step [OF busy_team_reach terminate])

theorem no_start_after_stop_witness: "taken left_team = [] \<and> pending (work_queue_a left_team) = [7]"
proof -
  have "\<not> threads_keepalive stopped_team" "hired stopped_team = 1" "stage stopped_team = (\<lambda>_. Looping)"
    "taken stopped_team = []" "submitted left_team = [7]" by (simp_all add: end_teams)
  then show ?thesis
    using no_start_after_stop [OF _ left_team_reach stopped_team_reach] by (auto simp: headcount_const)
qed

text \<open>
  Property C24: when \<open>terminate_team\<close> finds the counter at 0, whatever happened since it began, no worker
  runs a job or comes back to the queue: each has at most its last statements before it. The rest of
  \<open>terminate_team\<close> then ends: the jobs in the queue are dropped, and the employees that were available
  at the beginning are freed, which is all of them exactly when none had left before. It does not
  wait for those last statements, and they still read the employee: a worker that is \<open>Left\<close> can have had
  its employee freed.
\<close>

theorem terminate_team_ends:
  assumes "reach team_init team_step s0" and "reach (\<lambda>s. s = s0) team_step s"
    and "no_of_employees_available s = 0"
  shows "(\<forall>i<hired s. (stage s i = Left \<or> stage s i = Gone) \<and>
      (\<forall>t. team_step s t \<longrightarrow> stage t i = stage s i \<or> stage t i = Gone)) \<and>
    taken s @ pending (work_queue_a s) = submitted s \<and>
    (\<exists>freed q. terminate_rest (no_of_employees_available s0) s = Inr (freed, q) \<and> pending q = [] \<and>
      freed = [0..<nat (no_of_employees_available s0)] \<and>
      (length freed = hired s \<longleftrightarrow> (\<forall>i<hired s0. stage s0 i \<noteq> Left \<and> stage s0 i \<noteq> Gone)))"
proof -
  have i0: "books s0" using tm.reach_inv [OF assms(1)] by (simp add: team_inv_def)
  have i: "books s" using tm.reach_inv [OF reach_trans [OF assms(2,1)]] by (simp add: team_inv_def)
  have h: "hired s = hired s0" by (rule same_size.reach_inv [OF assms(2)])
  have gone: "stage s i = Left \<or> stage s i = Gone" if "i < hired s" for i
    using i assms(3) headcount_zero [of present "stage s" "hired s"] that by (auto simp: books_def present_def)
  have stays: "stage t i = stage s i \<or> stage t i = Gone" if "i < hired s" "team_step s t" for i t
    using that(2) by (rule left_stays) (use gone [OF that(1)] in auto)
  let ?n = "no_of_employees_available s0"
  have n: "?n = headcount present (stage s0) (hired s0)" using i0 by (simp add: books_def)
  have r: "0 \<le> ?n" "?n \<le> int (hired s0)" using headcount_range n by metis+
  have all: "?n = int (hired s0) \<longleftrightarrow> (\<forall>i<hired s0. stage s0 i \<noteq> Left \<and> stage s0 i \<noteq> Gone)"
    using headcount_full [of present "stage s0" "hired s0"] n by (simp add: present_def)
  obtain q where q: "clear_work_queue (work_queue_a s) = Inr q" "pending q = []"
    using clear_work_queue_empties [of "work_queue_a s"] i by (auto simp: books_def)
  have "fire_loop (hired s) 0 (nat ?n) = Inr [0..<nat ?n]"
    using fire_loop_all [of 0 "nat ?n" "hired s"] r h by simp
  then have "terminate_rest ?n s = Inr ([0..<nat ?n], q)"
    using assms(3) q by (simp add: terminate_rest_def terminate_work_queue_def)
  moreover have "length [0..<nat ?n] = hired s \<longleftrightarrow> (\<forall>i<hired s0. stage s0 i \<noteq> Left \<and> stage s0 i \<noteq> Gone)"
    using all r h by auto
  ultimately show ?thesis using gone stays i q(2) by (simp add: books_def)
qed

theorem terminate_team_ends_witness:
  "\<exists>q. terminate_rest (no_of_employees_available stopped_team) left_team = Inr ([0], q) \<and> pending q = []"
  using terminate_team_ends [OF stopped_team_reach left_team_reach]
  by (auto simp: end_teams)

text \<open>
  A worker whose employee is freed before it is done with it: the counter is 0, \<open>terminate_team\<close> frees
  employee 0, and worker 0 has still to log the number in it.
\<close>

lemma freed_before_gone:
  "\<exists>q. terminate_rest (no_of_employees_available stopped_team) left_team = Inr ([0], q) \<and>
     stage left_team 0 = Left \<and> team_step left_team (left_team\<lparr>stage := (stage left_team)(0 := Gone)\<rparr>)"
proof -
  have "wf_queue (work_queue_a left_team)"
    by (simp add: end_teams wf_queue_def wf_ends_def nodes_of_def repr_def)
  then obtain q where "clear_work_queue (work_queue_a left_team) = Inr q"
    using clear_work_queue_empties by blast
  then have "terminate_rest (no_of_employees_available stopped_team) left_team = Inr ([0], q)"
    by (simp add: terminate_rest_def terminate_work_queue_def end_teams)
  moreover have "team_step left_team (left_team\<lparr>stage := (stage left_team)(0 := Gone)\<rparr>)"
    by (rule gone) (simp_all add: end_teams)
  ultimately show ?thesis by (auto simp: end_teams)
qed

end
