(* ===== verification/Server.thy ===== *)
theory Server
  imports ConfigProps Accept Housekeep LinkedList TeamEnd
begin

text \<open>
  The life of the server: start (\<open>start_server\<close>, \<open>bb_server\<close> and \<open>main\<close> of \<open>src/bbserv.cc\<close>,
  \<open>peer_establisher\<close> of \<open>src/peer_operations.cc\<close>), shutting down (\<open>quit_handler\<close>), and the restart
  on \<open>SIGHUP\<close>. The accept loops are in theory \<open>Accept\<close>, the teams in \<open>WorkerTeam\<close> and \<open>TeamEnd\<close>; here a
  team is what its pointer denotes. The threads that start up are run to their accept loops, and
  \<open>quit_handler\<close> from there. A socket is a descriptor number; the board file, its descriptors and the
  list of clients are those of the other theories.
\<close>

section \<open>State\<close>

text \<open>What a variable of type \<open>team*\<close> holds: null, a team of some size, or a team that was freed.\<close>

datatype team_ref = No_team | Live nat | Freed

text \<open>
  The globals, and the two local variables of \<open>peer_establisher\<close> and \<open>peer_receiver_control\<close> that have
  the names of globals and hide them.
\<close>

record server =
  server_config :: sconf
  bealive :: bool
  clients_list :: sockets
  master_socket :: int
  peer_listener_master_socket :: int
  file_team :: team_ref
  peer_receiver_team :: team_ref
  peer_sender_team :: team_ref
  peer_control_team :: team_ref
  local_control_team :: team_ref
  local_receiver_team :: team_ref
  board_files :: board_state
  closed_sockets :: "int list"
  shut_clients :: "int list"

definition boot_server :: "sconf \<Rightarrow> board_state \<Rightarrow> int store \<Rightarrow> server" where
  "boot_server sc b h = \<lparr>server_config = sc, bealive = True, clients_list = (h, createList),
     master_socket = 0, peer_listener_master_socket = 0, file_team = No_team, peer_receiver_team = No_team,
     peer_sender_team = No_team, peer_control_team = No_team, local_control_team = No_team,
     local_receiver_team = No_team, board_files = b, closed_sockets = [], shut_clients = []\<rparr>"

section \<open>Starting\<close>

text \<open>\<open>create_team\<close> with enough memory.\<close>

definition new_team :: "int \<Rightarrow> string \<Rightarrow> team_ref" where
  "new_team num type = (case create_team num type True True True (\<lambda>_. True) (Map.empty :: unit store) of
      Inr (Some t) \<Rightarrow> Live (hired t) | _ \<Rightarrow> No_team)"

text \<open>
  \<open>peer_establisher\<close>, and \<open>peer_receiver_control\<close> up to its loop, in the worker of the control team.
  The value of \<open>passivesocket\<close> is not looked at. Ports are cut to 16 bits.
\<close>

definition peer_receiver_control :: "net_env \<Rightarrow> server \<Rightarrow> server" where
  "peer_receiver_control env sv =
     sv\<lparr>peer_listener_master_socket := fst (passivesocket env (word_of_int (SPORT (server_config sv))) 32),
        local_receiver_team := new_team (2 * T_MAX (server_config sv)) ''Peer receiver''\<rparr>"

definition peer_establisher :: "net_env \<Rightarrow> server \<Rightarrow> server" where
  "peer_establisher env sv =
     (peer_receiver_control env (sv\<lparr>local_control_team := new_team 1 ''Peer Comms Control''\<rparr>))
       \<lparr>peer_sender_team := new_team (2 * T_MAX (server_config sv)) ''Peer sender''\<rparr>"

text \<open>\<open>bb_server\<close> up to its loop.\<close>

definition bb_server :: "net_env \<Rightarrow> server \<Rightarrow> server" where
  "bb_server peer_env sv =
     peer_establisher peer_env (sv\<lparr>file_team := new_team (T_MAX (server_config sv)) ''Server worker''\<rparr>)"

definition start_server :: "net_env \<Rightarrow> net_env \<Rightarrow> server \<Rightarrow> int \<times> server" where
  "start_server env peer_env sv =
     (let sv1 = sv\<lparr>bealive := True, clients_list := (fst (clients_list sv), createList)\<rparr>;
          bpsock = fst (passivesocket env (word_of_int (BP (server_config sv))) 32) in
      if bpsock < 0 then (1, sv1)
      else (case initiate_descriptor (BBFILE (server_config sv)) (board_files sv1) of
          (init_ret, b) \<Rightarrow>
            if init_ret \<noteq> 0 then (1, sv1\<lparr>board_files := b\<rparr>)
            else (0, bb_server peer_env (sv1\<lparr>board_files := b, master_socket := bpsock\<rparr>))))"

section \<open>Shutting down\<close>

text \<open>
  \<open>terminate_team\<close> on what a pointer denotes; \<open>drains\<close> tells whether all workers of a team of that
  size leave.
\<close>

definition terminate_team :: "(nat \<Rightarrow> bool) \<Rightarrow> team_ref \<Rightarrow> c_error + team_ref" where
  "terminate_team drains t = (case t of
      No_team \<Rightarrow> Inr No_team
    | Live n \<Rightarrow> if drains n then Inr Freed else Inl Never_returns
    | Freed \<Rightarrow> Inl Dangling_pointer)"

text \<open>The peers' accept loop ends when its socket is closed, and terminates its own team.\<close>

definition peer_loop_ends :: "(nat \<Rightarrow> bool) \<Rightarrow> server \<Rightarrow> c_error + server" where
  "peer_loop_ends drains sv = (case terminate_team drains (local_receiver_team sv) of
      Inl e \<Rightarrow> Inl e | Inr t \<Rightarrow> Inr (sv\<lparr>local_receiver_team := t\<rparr>))"

definition quit_handler :: "(nat \<Rightarrow> bool) \<Rightarrow> server \<Rightarrow> c_error + server" where
  "quit_handler drains sv =
     (let sv1 = sv\<lparr>bealive := False,
          closed_sockets := closed_sockets sv @ [master_socket sv, peer_listener_master_socket sv]\<rparr> in
      case shutdownList (clients_list sv1) of Inl e \<Rightarrow> Inl e | Inr socks \<Rightarrow>
      case terminate_team drains (file_team sv1) of Inl e \<Rightarrow> Inl e | Inr t1 \<Rightarrow>
      case terminate_team drains (peer_receiver_team sv1) of Inl e \<Rightarrow> Inl e | Inr t2 \<Rightarrow>
      case terminate_team drains (peer_sender_team sv1) of Inl e \<Rightarrow> Inl e | Inr t3 \<Rightarrow>
      case housekeep_descriptor (board_files sv1) of Inl e \<Rightarrow> Inl e | Inr (_, b) \<Rightarrow>
      case terminate_team drains (peer_control_team sv1) of Inl e \<Rightarrow> Inl e | Inr t4 \<Rightarrow>
      Inr (sv1\<lparr>shut_clients := shut_clients sv @ socks, file_team := t1, peer_receiver_team := t2,
        peer_sender_team := t3, board_files := b, peer_control_team := t4\<rparr>))"

section \<open>The main loop\<close>

text \<open>
  One signal: the server is shut down, and after a \<open>SIGHUP\<close> it reads its file again and starts anew.
  A \<open>restart\<close> holds what the environment does then.
\<close>

record restart =
  r_drains :: "nat \<Rightarrow> bool"
  r_bb :: string
  r_junk :: string
  r_files :: "string \<Rightarrow> rd list option"
  r_env :: net_env
  r_peer_env :: net_env

definition sighup :: "restart \<Rightarrow> server \<Rightarrow> c_error + int \<times> server" where
  "sighup r sv =
     (case quit_handler (r_drains r) sv of Inl e \<Rightarrow> Inl e | Inr sv1 \<Rightarrow>
      case reload_config (r_bb r) (r_junk r) (r_files r) (server_config sv1) of Inl e \<Rightarrow> Inl e | Inr sc \<Rightarrow>
      Inr (start_server (r_env r) (r_peer_env r) (sv1\<lparr>server_config := sc\<rparr>)))"

text \<open>
  The loop of \<open>main\<close> with the two signal handlers, around the state of the server. The main thread is at
  the top of the loop (\<open>Loading\<close>), has created the thread of \<open>start_server\<close> (\<open>Spawned\<close>), waits, runs
  \<open>quit_handler\<close>, or is at the test of \<open>quitReceived\<close> (\<open>Checking\<close>). The handlers set a flag and signal the
  condition; \<open>pthread_cond_wait\<close> is called once, without looking at the flags, and may also return by
  itself. The handler of \<open>SIGHUP\<close> is installed before the loop, that of \<open>SIGQUIT\<close> only by \<open>bb_server\<close>, in the
  thread of a \<open>start_server\<close> that got that far, and it stays installed: until then the default action of
  \<open>SIGQUIT\<close> kills the process. \<open>starting\<close> counts the threads of \<open>start_server\<close> that have not run yet; each
  runs in one step, so that a signal comes before or after it. A \<open>quit_handler\<close> that does not return has no
  step. The handlers' own calls of \<open>logger\<close> and of the mutex are left out.
\<close>

datatype main_place = Loading | Spawned | Waiting | Quitting | Checking | Derezzed | Killed

datatype main_event = Sighup | Sigquit | Spurious | Main_thread | Server_thread

record main_state =
  place :: main_place
  hupReceived :: int
  quitReceived :: int
  quit_installed :: bool
  starting :: nat
  main_server :: server

definition main_start :: "main_state \<Rightarrow> bool" where
  "main_start m \<longleftrightarrow> place m = Loading \<and> hupReceived m = 0 \<and> quitReceived m = 0 \<and> \<not> quit_installed m \<and> starting m = 0"

definition in_process :: "main_state \<Rightarrow> bool" where
  "in_process m \<longleftrightarrow> place m \<noteq> Derezzed \<and> place m \<noteq> Killed"

definition wake_main :: "main_state \<Rightarrow> main_state" where
  "wake_main m = (if place m = Waiting then m\<lparr>place := Quitting\<rparr> else m)"

definition sighup_handler :: "main_state \<Rightarrow> main_state" where
  "sighup_handler m = wake_main (m\<lparr>hupReceived := 1\<rparr>)"

definition sigquit_handler :: "main_state \<Rightarrow> main_state" where
  "sigquit_handler m = wake_main (m\<lparr>quitReceived := 1\<rparr>)"

text \<open>The top of the loop: the settings are read again after a \<open>SIGHUP\<close>; the flag stays set.\<close>

definition loop_top :: "restart \<Rightarrow> main_state \<Rightarrow> c_error + sconf" where
  "loop_top r m = (if hupReceived m = 1
     then reload_config (r_bb r) (r_junk r) (r_files r) (server_config (main_server m))
     else Inr (server_config (main_server m)))"

inductive main_step :: "main_event \<Rightarrow> main_state \<Rightarrow> main_state \<Rightarrow> bool" where
  sighupHandler: "in_process m \<Longrightarrow> main_step Sighup m (sighup_handler m)"
| sigQuitHandler: "in_process m \<Longrightarrow> quit_installed m \<Longrightarrow> main_step Sigquit m (sigquit_handler m)"
| default_action: "in_process m \<Longrightarrow> \<not> quit_installed m \<Longrightarrow> main_step Sigquit m (m\<lparr>place := Killed\<rparr>)"
| spurious: "place m = Waiting \<Longrightarrow> main_step Spurious m (m\<lparr>place := Quitting\<rparr>)"
| spawn: "place m = Loading \<Longrightarrow> loop_top r m = Inr sc \<Longrightarrow> n \<in> {starting m, Suc (starting m)} \<Longrightarrow>
    main_step Main_thread m (m\<lparr>place := Spawned, starting := n, main_server := (main_server m)\<lparr>server_config := sc\<rparr>\<rparr>)"
| wait: "place m = Spawned \<Longrightarrow> main_step Main_thread m (m\<lparr>place := Waiting\<rparr>)"
| quit: "place m = Quitting \<Longrightarrow> quit_handler drains (main_server m) = Inr sv \<Longrightarrow>
    main_step Main_thread m (m\<lparr>place := Checking, main_server := sv\<rparr>)"
| derezz: "place m = Checking \<Longrightarrow> quitReceived m \<noteq> 0 \<Longrightarrow> main_step Main_thread m (m\<lparr>place := Derezzed\<rparr>)"
| respawn: "place m = Checking \<Longrightarrow> quitReceived m = 0 \<Longrightarrow> main_step Main_thread m (m\<lparr>place := Loading\<rparr>)"
| started: "in_process m \<Longrightarrow> 0 < starting m \<Longrightarrow> start_server env peer_env (main_server m) = (ret, sv) \<Longrightarrow>
    main_step Server_thread m (m\<lparr>starting := starting m - 1, main_server := sv,
      quit_installed := (quit_installed m \<or> ret = 0)\<rparr>)"

inductive_cases main_stepE: "main_step ev m m'"

fun main_runs :: "main_event list \<Rightarrow> main_state \<Rightarrow> main_state \<Rightarrow> bool" where
  "main_runs [] m m' \<longleftrightarrow> m' = m"
| "main_runs (ev # evs) m m' \<longleftrightarrow> (\<exists>m1. main_step ev m m1 \<and> main_runs evs m1 m')"

section \<open>Shutting down succeeds\<close>

definition team_usable :: "team_ref \<Rightarrow> bool" where
  "team_usable t \<longleftrightarrow> t \<noteq> Freed"

lemma terminate_usable:
  "team_usable t \<Longrightarrow> \<forall>n. drains n \<Longrightarrow>
   terminate_team drains t = Inr (if t = No_team then No_team else Freed)"
  by (cases t) (auto simp: terminate_team_def team_usable_def)

lemma terminate_no_team: "terminate_team drains No_team = Inr No_team"
  by (simp add: terminate_team_def)

text \<open>
  The teams of a running server: the two globals that are hidden by locals stay null (see
  \<open>hidden_teams_survive\<close>).
\<close>

definition teams_usable :: "server \<Rightarrow> bool" where
  "teams_usable sv \<longleftrightarrow> team_usable (file_team sv) \<and> team_usable (peer_sender_team sv) \<and>
     peer_receiver_team sv = No_team \<and> peer_control_team sv = No_team"

lemma quit_handler_ok:
  assumes "teams_usable sv" and "\<forall>n. drains n" and "wf_ends (clients_list sv)"
    and "housekeep_descriptor (board_files sv) = Inr (ret, b)"
  shows "\<exists>sv1. quit_handler drains sv = Inr sv1 \<and> server_config sv1 = server_config sv \<and>
    board_files sv1 = b \<and> shut_clients sv1 = shut_clients sv @ items (clients_list sv) \<and>
    clients_list sv1 = clients_list sv \<and> \<not> bealive sv1 \<and>
    file_team sv1 = (if file_team sv = No_team then No_team else Freed) \<and>
    peer_receiver_team sv1 = No_team \<and> peer_control_team sv1 = No_team \<and>
    closed_sockets sv1 = closed_sockets sv @ [master_socket sv, peer_listener_master_socket sv]"
  using assms shutdownList_all [OF assms(3)]
  by (simp add: quit_handler_def teams_usable_def terminate_usable terminate_no_team Let_def)

lemma initiate_existing:
  "board_ok b \<Longrightarrow> initiate_descriptor (source_file b) b = (0, b\<lparr>temp_list := []\<rparr>)"
  by (auto simp: initiate_descriptor_def board_ok_def open_rd_def close_fd_def Let_def split: option.splits)

lemma board_temp_list [simp]:
  "board_ok (b\<lparr>temp_list := l\<rparr>) = board_ok b" "has_lines (b\<lparr>temp_list := l\<rparr>) ls = has_lines b ls"
  by (simp_all add: board_ok_def has_lines_def file_bytes_def)

lemma bb_server_sel [simp]:
  "server_config (bb_server e sv) = server_config sv" "bealive (bb_server e sv) = bealive sv"
  "board_files (bb_server e sv) = board_files sv" "shut_clients (bb_server e sv) = shut_clients sv"
  "clients_list (bb_server e sv) = clients_list sv"
  "local_control_team (bb_server e sv) = new_team 1 ''Peer Comms Control''"
  "local_receiver_team (bb_server e sv) = new_team (2 * T_MAX (server_config sv)) ''Peer receiver''"
  "peer_control_team (bb_server e sv) = peer_control_team sv"
  "peer_receiver_team (bb_server e sv) = peer_receiver_team sv"
  by (simp_all add: bb_server_def peer_establisher_def peer_receiver_control_def)

lemma new_team_size: "length type < 50 \<Longrightarrow> new_team num type = Live (nat num)"
  by (simp add: new_team_def create_team_eq Let_def list_all_iff)

section \<open>Restarting\<close>

text \<open>
  Property C8: a restart on \<open>SIGHUP\<close> keeps the board. When the teams drain, the file can be housekept
  and the reloaded configuration names the same board file and a free port, the server comes back with
  the new configuration and an empty list of clients, it has shut every client of the old list once,
  and every message reads as before.
\<close>

theorem sighup_keeps_messages:
  assumes "teams_usable sv" and "\<forall>n. r_drains r n" and "wf_ends (clients_list sv)"
    and "housekeep_ready (board_files sv)" and "board_inv (board_files sv)"
    and "reload_config (r_bb r) (r_junk r) (r_files r) (server_config sv) = Inr sc"
    and "BBFILE sc = source_file (board_files sv)"
    and "0 \<le> fst (passivesocket (r_env r) (word_of_int (BP sc)) 32)"
  shows "\<exists>sv'. sighup r sv = Inr (0, sv') \<and> bealive sv' \<and> server_config sv' = sc \<and>
    board_inv (board_files sv') \<and> (\<forall>k. ok_num k \<longrightarrow> read_view (board_files sv') k = read_view (board_files sv) k) \<and>
    shut_clients sv' = shut_clients sv @ items (clients_list sv) \<and> items (clients_list sv') = [] \<and>
    teams_usable sv' \<and> wf_ends (clients_list sv')"
proof -
  obtain ls where ls: "board_ok (board_files sv)" "has_lines (board_files sv) ls" "unique_nums ls"
    using assms(5) by (rule board_invE)
  from housekeep_board [OF assms(4) ls(2)] obtain ret b where
    h: "housekeep_descriptor (board_files sv) = Inr (ret, b)" "board_ok b" "has_lines b (kept ls)"
      "source_file b = source_file (board_files sv)" by blast
  obtain sv1 where q: "quit_handler (r_drains r) sv = Inr sv1" "server_config sv1 = server_config sv"
    "board_files sv1 = b" "shut_clients sv1 = shut_clients sv @ items (clients_list sv)"
    "peer_receiver_team sv1 = No_team" "peer_control_team sv1 = No_team"
    using quit_handler_ok [OF assms(1-3) h(1)] by blast
  have i: "initiate_descriptor (BBFILE sc) b = (0, b\<lparr>temp_list := []\<rparr>)"
    using initiate_existing [OF h(2)] h(4) assms(7) by simp
  define sv' where sv': "sv' = snd (start_server (r_env r) (r_peer_env r) (sv1\<lparr>server_config := sc\<rparr>))"
  have "\<not> fst (passivesocket (r_env r) (word_of_int (BP sc)) 32) < 0" using assms(8) by simp
  note port = this
  then have s: "sighup r sv = Inr (0, sv')" "bealive sv'" "server_config sv' = sc"
    "board_files sv' = b\<lparr>temp_list := []\<rparr>" "shut_clients sv' = shut_clients sv1"
    "items (clients_list sv') = []" "wf_ends (clients_list sv')"
    using q assms(6) i by (simp_all add: sighup_def sv' start_server_def Let_def createList_items createList_wf)
  have u: "teams_usable sv'"
    using q(3,5,6) i port
    by (simp add: sv' start_server_def Let_def bb_server_def peer_establisher_def peer_receiver_control_def
        teams_usable_def team_usable_def new_team_size)
  have "read_view (b\<lparr>temp_list := []\<rparr>) k = read_view (board_files sv) k" if "ok_num k" for k
    using read_view_lines [of "b\<lparr>temp_list := []\<rparr>" "kept ls"] h read_view_lines [OF ls(1,2)]
      lookup_kept [OF that] by simp
  moreover have "board_inv (b\<lparr>temp_list := []\<rparr>)"
    using h unique_kept [OF ls(3)] by (auto simp: board_inv_def)
  ultimately show ?thesis using s u q(4) by auto
qed

text \<open>
  Property C35: a restart that cannot open its port or its board file cannot be shut down: the pointer
  to the team of the clients still denotes the team that was freed, and the next signal terminates it
  again.
\<close>

theorem failed_restart_dangles:
  assumes "teams_usable sv" and "\<forall>n. drains n" and "wf_ends (clients_list sv)"
    and "housekeep_ready (board_files sv)" and "board_inv (board_files sv)" and "file_team sv = Live n"
    and "quit_handler drains sv = Inr sv1" and "start_server env peer_env (sv1\<lparr>server_config := sc\<rparr>) = (1, sv2)"
  shows "quit_handler drains sv2 = Inl Dangling_pointer"
proof -
  obtain ls where ls: "has_lines (board_files sv) ls" using assms(5) by (rule board_invE)
  from housekeep_board [OF assms(4) ls] obtain ret b where
    h: "housekeep_descriptor (board_files sv) = Inr (ret, b)" by blast
  have "file_team sv1 = Freed" using quit_handler_ok [OF assms(1-3) h] assms(6,7) by auto
  then have "file_team sv2 = Freed" "snd (clients_list sv2) = createList"
    using assms(8) by (auto simp: start_server_def Let_def split: if_splits prod.splits)
  then show ?thesis
    by (simp add: quit_handler_def Let_def shutdownList_def createList_def terminate_team_def)
qed

text \<open>
  A first start that cannot open its port has no board file, and shutting it down never returns: the
  loop of \<open>housekeep_descriptor\<close> reads from the descriptor \<open>-1\<close> for ever.
\<close>

theorem failed_start_hangs:
  assumes "start_server env peer_env (boot_server sc b h) = (1, sv)" and "fst (passivesocket env (word_of_int (BP sc)) 32) < 0"
    and "files b (source_file b) = None"
  shows "quit_handler drains sv = Inl Never_returns"
  using assms
  by (auto simp: start_server_def boot_server_def quit_handler_def Let_def shutdownList_def createList_def
      terminate_team_def housekeep_descriptor_def open_rd_def)

text \<open>
  The local variables hide the globals: a server that was started has null in the globals
  \<open>peer_receiver_team\<close> and \<open>peer_control_team\<close>, and \<open>quit_handler\<close> leaves the two teams that were created
  for them as they are. The control team is never terminated.
\<close>

theorem hidden_teams_survive:
  assumes "start_server env peer_env (boot_server sc b h) = (0, sv)" and "quit_handler drains sv = Inr sv'"
  shows "peer_receiver_team sv = No_team \<and> peer_control_team sv = No_team \<and>
    local_control_team sv' = Live 1 \<and> local_receiver_team sv' = Live (nat (2 * T_MAX sc))"
proof -
  have sv: "local_control_team sv = Live 1 \<and> local_receiver_team sv = Live (nat (2 * T_MAX sc)) \<and>
      peer_receiver_team sv = No_team \<and> peer_control_team sv = No_team"
    using assms(1)
    by (auto simp: start_server_def boot_server_def Let_def new_team_size split: if_splits prod.splits)
  have "local_control_team sv' = local_control_team sv \<and> local_receiver_team sv' = local_receiver_team sv"
    using assms(2) by (auto simp: quit_handler_def Let_def split: sum.splits prod.splits)
  with sv show ?thesis by simp
qed

section \<open>Signals\<close>

definition any_step :: "main_state \<Rightarrow> main_state \<Rightarrow> bool" where
  "any_step m m' \<longleftrightarrow> (\<exists>ev. main_step ev m m')"

definition main_inv :: "main_state \<Rightarrow> bool" where
  "main_inv m \<longleftrightarrow> (place m = Derezzed \<longrightarrow> quitReceived m = 1) \<and> quitReceived m \<in> {0, 1} \<and>
     (quitReceived m = 1 \<longrightarrow> quit_installed m)"

lemmas signal_defs = wake_main_def sighup_handler_def sigquit_handler_def

interpretation mn: inductive_invariant main_start any_step main_inv
proof unfold_locales
  fix m m'
  assume "main_inv m" "any_step m m'"
  then show "main_inv m'"
    by (auto simp: any_step_def main_inv_def signal_defs elim!: main_stepE split: if_splits)
qed (simp add: main_start_def main_inv_def)

text \<open>With the flag set, a shutdown that has begun is the last: two steps of the main thread.\<close>

definition ending :: "nat \<Rightarrow> main_place" where
  "ending n = (if n = 0 then Quitting else if n = 1 then Checking else Derezzed)"

lemma ending_Derezzed: "ending n = Derezzed \<longleftrightarrow> 2 \<le> n" "ending n \<in> {Quitting, Checking, Derezzed}"
  by (auto simp: ending_def)

lemma ending_step:
  assumes "main_step ev m m'" and "quitReceived m = 1" "quit_installed m" "place m = ending n"
  shows "quitReceived m' = 1 \<and> quit_installed m' \<and> place m' = ending (n + of_bool (ev = Main_thread)) \<and>
    n + of_bool (ev = Main_thread) \<le> 2"
  using assms(1)
  by (cases rule: main_stepE) (use assms(2-4) in \<open>auto simp: ending_def in_process_def signal_defs split: if_splits\<close>)

lemma ending_runs:
  "\<lbrakk>main_runs evs m m'; quitReceived m = 1; quit_installed m; place m = ending n; n \<le> 2\<rbrakk> \<Longrightarrow>
   place m' = ending (n + length (filter (\<lambda>ev. ev = Main_thread) evs)) \<and>
   n + length (filter (\<lambda>ev. ev = Main_thread) evs) \<le> 2"
proof (induction evs arbitrary: m n)
  case (Cons ev evs)
  then obtain m1 where s: "main_step ev m m1" and r: "main_runs evs m1 m'" by auto
  note e = ending_step [OF s Cons.prems(2-4)]
  have "place m' = ending (n + of_bool (ev = Main_thread) + length (filter (\<lambda>ev. ev = Main_thread) evs)) \<and>
      n + of_bool (ev = Main_thread) + length (filter (\<lambda>ev. ev = Main_thread) evs) \<le> 2"
    using Cons.IH [OF r] e by blast
  then show ?case by (cases "ev = Main_thread") simp_all
qed simp

text \<open>Without a signal and without a wake-up, a main thread that has not begun to shut down does not.\<close>

lemma quiet_runs:
  "\<lbrakk>main_runs evs m m'; set evs \<subseteq> {Main_thread, Server_thread}; place m \<in> {Loading, Spawned, Waiting}\<rbrakk> \<Longrightarrow>
   place m' \<in> {Loading, Spawned, Waiting} \<and> quitReceived m' = quitReceived m \<and>
   (quit_installed m \<longrightarrow> quit_installed m')"
proof (induction evs arbitrary: m)
  case (Cons ev evs)
  then obtain m1 where s: "main_step ev m m1" and r: "main_runs evs m1 m'" by auto
  have "place m1 \<in> {Loading, Spawned, Waiting} \<and> quitReceived m1 = quitReceived m \<and>
      (quit_installed m \<longrightarrow> quit_installed m1)"
    using s by (cases rule: main_stepE) (use Cons.prems(2,3) in auto)
  with Cons.IH [OF r] Cons.prems(2) show ?case by auto
qed simp

text \<open>
  Property C36: what a \<open>SIGQUIT\<close> does, in every reachable state and whatever happens afterwards. Before a
  server was started that reached \<open>bb_server\<close>, it kills the process, without shutting down. When the main
  thread waits, it ends the server: no new one is started, and the server has ended when the main thread has
  taken two steps. When the main thread is on its way to the wait, the signal is lost: without another signal
  or a spurious wake-up the server stays up for good, and the next \<open>SIGHUP\<close> ends it instead of restarting it.
  The server never ends by itself without a \<open>SIGQUIT\<close>.
\<close>

theorem sigquit_ends_or_is_lost:
  assumes "reach main_start any_step m"
  shows "(place m = Derezzed \<longrightarrow> quitReceived m = 1 \<and> quit_installed m) \<and>
    (main_step Sigquit m m1 \<and> main_runs evs m1 m2 \<longrightarrow>
      (\<not> quit_installed m \<longrightarrow> place m2 = Killed) \<and>
      (quit_installed m \<and> place m = Waiting \<longrightarrow> place m2 \<in> {Quitting, Checking, Derezzed} \<and>
         (place m2 = Derezzed \<longleftrightarrow> length (filter (\<lambda>ev. ev = Main_thread) evs) = 2)) \<and>
      (quit_installed m \<and> place m \<in> {Loading, Spawned} \<and> set evs \<subseteq> {Main_thread, Server_thread} \<longrightarrow>
         place m2 \<in> {Loading, Spawned, Waiting} \<and>
         (\<forall>m3 m4 evs'. place m2 = Waiting \<and> main_step Sighup m2 m3 \<and> main_runs evs' m3 m4 \<longrightarrow>
            place m4 \<in> {Quitting, Checking, Derezzed})))"
proof (intro conjI impI allI; (elim conjE)?)
  show "quitReceived m = 1" "quit_installed m" if "place m = Derezzed"
    using mn.reach_inv [OF assms] that by (auto simp: main_inv_def)
next
  assume s: "main_step Sigquit m m1" "main_runs evs m1 m2" "\<not> quit_installed m"
  then have k: "place m1 = Killed" by (auto elim!: main_stepE)
  have "evs = []"
  proof (cases evs)
    case (Cons ev rest)
    then obtain x where "main_step ev m1 x" using s(2) by auto
    then show ?thesis by (cases rule: main_stepE) (use k in \<open>auto simp: in_process_def\<close>)
  qed simp
  with k s(2) show "place m2 = Killed" by simp
next
  assume s: "main_step Sigquit m m1" "main_runs evs m1 m2" "quit_installed m" "place m = Waiting"
  then have "quitReceived m1 = 1" "quit_installed m1" "place m1 = ending 0"
    by (auto simp: signal_defs ending_def elim!: main_stepE)
  from ending_runs [OF s(2) this]
  show "place m2 \<in> {Quitting, Checking, Derezzed}"
    "place m2 = Derezzed \<longleftrightarrow> length (filter (\<lambda>ev. ev = Main_thread) evs) = 2"
    by (simp_all only: ending_Derezzed add_0) auto
next
  assume s: "main_step Sigquit m m1" "main_runs evs m1 m2" "quit_installed m" "place m \<in> {Loading, Spawned}"
    "set evs \<subseteq> {Main_thread, Server_thread}"
  then have m1: "quitReceived m1 = 1" "quit_installed m1" "place m1 \<in> {Loading, Spawned, Waiting}"
    by (auto simp: signal_defs elim!: main_stepE)
  note m2 = quiet_runs [OF s(2,5) m1(3)]
  then show "place m2 \<in> {Loading, Spawned, Waiting}" by blast
  fix m3 m4 evs'
  assume h: "place m2 = Waiting" "main_step Sighup m2 m3" "main_runs evs' m3 m4"
  then have "quitReceived m3 = 1" "quit_installed m3" "place m3 = ending 0"
    using m1 m2 by (auto simp: signal_defs ending_def elim!: main_stepE)
  from ending_runs [OF h(3) this] show "place m4 \<in> {Quitting, Checking, Derezzed}"
    by (auto simp: ending_def)
qed

section \<open>Examples\<close>

definition sample_env :: "net_env" where
  "sample_env = \<lparr>gethostbyname = (\<lambda>_. True), getservbyname = (\<lambda>_. None), socket_ret = 5,
     connect_ret = (\<lambda>_ _. 0), bind_ret = (\<lambda>_ _. 0), listen_ret = (\<lambda>_. 0)\<rparr>"

definition busy_env :: "net_env" where
  "busy_env = sample_env\<lparr>bind_ret := (\<lambda>_ _. - 1)\<rparr>"

definition sample_conf :: sconf where
  "sample_conf = (default_config [])\<lparr>BBFILE := ''bbfile.txt'', T_MAX := 2\<rparr>"

definition sample_server :: server where
  "sample_server = snd (start_server sample_env sample_env
     (boot_server sample_conf (sample_board [''1/bob/hi'']) Map.empty))"

lemma sample_socket [simp]:
  "fst (passivesocket sample_env p n) = 5" "fst (passivesocket busy_env p n) = - 5"
  by (simp_all add: passivesocket_def passivesockaux_def sample_env_def busy_env_def err_bind_def)

lemma sample_start:
  "start_server sample_env sample_env (boot_server sample_conf (sample_board [''1/bob/hi'']) Map.empty) =
    (0, sample_server)"
  "teams_usable sample_server" "clients_list sample_server = (Map.empty, createList)"
  "board_files sample_server = sample_board [''1/bob/hi'']" "file_team sample_server = Live 2"
  "server_config sample_server = sample_conf"
proof -
  let ?b = "sample_board [''1/bob/hi'']"
  have b: "initiate_descriptor ''bbfile.txt'' ?b = (0, ?b)"
    using initiate_existing [OF sample_board_ok [of "[''1/bob/hi'']"]] by (simp add: sample_board_def)
  have "start_server sample_env sample_env (boot_server sample_conf ?b Map.empty) =
      (0, bb_server sample_env ((boot_server sample_conf ?b Map.empty)\<lparr>master_socket := 5\<rparr>))"
    using b by (simp add: start_server_def boot_server_def sample_conf_def Let_def)
  then show "start_server sample_env sample_env (boot_server sample_conf ?b Map.empty) = (0, sample_server)"
    "teams_usable sample_server" "clients_list sample_server = (Map.empty, createList)"
    "board_files sample_server = ?b" "file_team sample_server = Live 2"
    "server_config sample_server = sample_conf"
    by (simp_all add: sample_server_def teams_usable_def team_usable_def bb_server_def peer_establisher_def
        peer_receiver_control_def boot_server_def new_team_size sample_conf_def)
qed

definition sample_restart :: "net_env \<Rightarrow> restart" where
  "sample_restart env = \<lparr>r_drains = (\<lambda>_. True), r_bb = [], r_junk = [],
     r_files = (\<lambda>_. Some (conf_text [''BBFILE=bbfile.txt''])), r_env = env, r_peer_env = sample_env\<rparr>"

lemma sample_reload:
  "reload_config [] [] (\<lambda>_. Some (conf_text [''BBFILE=bbfile.txt''])) sc =
    Inr ((hup_reset [] sc)\<lparr>BBFILE := ''bbfile.txt'', BBFILE_IND := 2\<rparr>)"
proof -
  have "conf_step force_line ''BBFILE=bbfile.txt'' (hup_reset [] sc)
      ((hup_reset [] sc)\<lparr>BBFILE := ''bbfile.txt'', BBFILE_IND := 2\<rparr>)"
    by (rule conf_step_key [where key = "''BBFILE''" and v = "''bbfile.txt''"])
      (simp_all add: force_line_def str_sep_def plain_word_def)
  from conf_step_then [OF this] show ?thesis
    unfolding reload_config_def force_fetch_config_def conf_reads_def option.case
    by (simp add: scan_start_def config_loop_end del: conf_text_Cons)
qed

theorem sighup_keeps_messages_witness:
  "\<exists>sv'. sighup (sample_restart sample_env) sample_server = Inr (0, sv') \<and>
    read_view (board_files sv') ''1'' = Some ''bob/hi''"
proof -
  have "read_view (sample_board [''1/bob/hi'']) ''1'' = Some ''bob/hi''" "ok_num ''1''"
    using sample_line_view ok_num_digits(1) by auto
  then show ?thesis
    using sighup_keeps_messages [of sample_server "sample_restart sample_env"
        "(hup_reset [] sample_conf)\<lparr>BBFILE := ''bbfile.txt'', BBFILE_IND := 2\<rparr>"]
      sample_start sample_ready [of "[''1/bob/hi'']"] sample_inv [OF sample_line] sample_reload [of sample_conf]
    by (auto simp: sample_restart_def createList_wf) (auto simp: sample_board_def)
qed

theorem failed_restart_dangles_witness:
  "\<exists>sv1 sv2. quit_handler (\<lambda>_. True) sample_server = Inr sv1 \<and>
    start_server busy_env sample_env (sv1\<lparr>server_config := sample_conf\<rparr>) = (1, sv2) \<and>
    quit_handler (\<lambda>_. True) sv2 = Inl Dangling_pointer"
proof -
  have ready: "housekeep_ready (board_files sample_server)" "board_inv (board_files sample_server)"
    "wf_ends (clients_list sample_server)"
    using sample_start sample_ready sample_inv [OF sample_line] createList_wf by simp_all
  obtain ret b where h: "housekeep_descriptor (board_files sample_server) = Inr (ret, b)"
    using housekeep_board [OF ready(1)] board_invE [OF ready(2)] by metis
  obtain sv1 where q: "quit_handler (\<lambda>_. True) sample_server = Inr sv1"
    using quit_handler_ok [OF sample_start(2) _ ready(3) h, of "\<lambda>_. True"] by auto
  obtain sv2 where s: "start_server busy_env sample_env (sv1\<lparr>server_config := sample_conf\<rparr>) = (1, sv2)"
    by (simp add: start_server_def Let_def)
  from failed_restart_dangles [OF sample_start(2) _ ready(3,1,2) sample_start(5) q s] q s show ?thesis
    by simp
qed

theorem failed_start_hangs_witness:
  "\<exists>sv. start_server busy_env sample_env (boot_server sample_conf (sample_board []\<lparr>source_file := ''''\<rparr>) Map.empty) = (1, sv) \<and>
    quit_handler (\<lambda>_. True) sv = Inl Never_returns"
proof -
  let ?b = "sample_board []\<lparr>source_file := ''''\<rparr>"
  obtain sv where s: "start_server busy_env sample_env (boot_server sample_conf ?b Map.empty) = (1, sv)"
    by (simp add: start_server_def Let_def)
  have "files ?b (source_file ?b) = None" by (simp add: sample_board_def)
  from failed_start_hangs [OF s _ this] s show ?thesis by simp
qed

theorem hidden_teams_survive_witness:
  "\<exists>sv'. quit_handler (\<lambda>_. True) sample_server = Inr sv' \<and> local_control_team sv' = Live 1"
proof -
  have ready: "housekeep_ready (board_files sample_server)" "board_inv (board_files sample_server)"
    "wf_ends (clients_list sample_server)"
    using sample_start sample_ready sample_inv [OF sample_line] createList_wf by simp_all
  obtain ret b where h: "housekeep_descriptor (board_files sample_server) = Inr (ret, b)"
    using housekeep_board [OF ready(1)] board_invE [OF ready(2)] by metis
  obtain sv1 where q: "quit_handler (\<lambda>_. True) sample_server = Inr sv1"
    using quit_handler_ok [OF sample_start(2) _ ready(3) h, of "\<lambda>_. True"] by auto
  from hidden_teams_survive [OF sample_start(1) q] q show ?thesis by blast
qed

text \<open>
  A first start of which the thread has installed the handler before the main thread waits: the signal that
  comes then is lost.
\<close>

definition first_main :: "nat \<Rightarrow> bool \<Rightarrow> main_place \<Rightarrow> server \<Rightarrow> main_state" where
  "first_main n inst pl sv = \<lparr>place = pl, hupReceived = 0, quitReceived = 0, quit_installed = inst, starting = n,
     main_server = sv\<rparr>"

definition sample_boot :: server where
  "sample_boot = boot_server sample_conf (sample_board [''1/bob/hi'']) Map.empty"

lemma first_start: "reach main_start any_step (first_main 0 True Spawned sample_server)"
proof -
  let ?m0 = "first_main 0 False Loading sample_boot" and ?m1 = "first_main 1 False Spawned sample_boot"
  have "reach main_start any_step ?m0" by (rule reach_init) (simp add: main_start_def first_main_def)
  moreover have "main_step Main_thread ?m0 ?m1"
    using spawn [of ?m0 _ sample_conf 1] by (simp add: first_main_def loop_top_def sample_boot_def boot_server_def)
  moreover have "main_step Server_thread ?m1 (first_main 0 True Spawned sample_server)"
    using started [of ?m1 sample_env sample_env 0 sample_server] sample_start(1)
    by (simp add: first_main_def in_process_def sample_boot_def)
  ultimately show ?thesis unfolding any_step_def by (blast intro: reach_step)
qed

theorem sigquit_ends_or_is_lost_witness:
  "\<exists>m1 m2. main_step Sigquit (first_main 0 True Spawned sample_server) m1 \<and> main_runs [Main_thread] m1 m2 \<and>
     place m2 = Waiting \<and>
     (\<forall>m3 m4. main_step Sighup m2 m3 \<and> main_runs [Main_thread] m3 m4 \<longrightarrow> place m4 \<in> {Quitting, Checking, Derezzed})"
proof -
  let ?m = "first_main 0 True Spawned sample_server"
  let ?m2 = "?m\<lparr>quitReceived := 1, place := Waiting\<rparr>"
  have q: "main_step Sigquit ?m (?m\<lparr>quitReceived := 1\<rparr>)"
    using sigQuitHandler [of ?m] by (simp add: first_main_def in_process_def signal_defs)
  have w: "main_runs [Main_thread] (?m\<lparr>quitReceived := 1\<rparr>) ?m2"
    using wait [of "?m\<lparr>quitReceived := 1\<rparr>"] by (simp add: first_main_def)
  have p: "place ?m2 = Waiting" "quit_installed ?m" "place ?m \<in> {Loading, Spawned}" by (simp_all add: first_main_def)
  have "\<forall>m3 m4 evs'. place ?m2 = Waiting \<and> main_step Sighup ?m2 m3 \<and> main_runs evs' m3 m4 \<longrightarrow>
      place m4 \<in> {Quitting, Checking, Derezzed}"
    by (rule sigquit_ends_or_is_lost [OF first_start, THEN conjunct2, THEN mp, OF conjI [OF q w], THEN conjunct2,
          THEN conjunct2, THEN mp, THEN conjunct2]) (use p in simp)
  with q w p(1) show ?thesis by blast
qed

end
