(* ===== verification/Daemon.thy ===== *)
theory Daemon
  imports ConfigProps
begin

text \<open>
  What \<open>main\<close> of \<open>src/bbserv.cc\<close> does before its loop: it prints, reads the configuration, and detaches
  from the terminal. The process is its table of descriptors and the record of what it printed and
  where to. Signals, the process group and the mask of file modes are left out. \<open>write_pid\<close> is the file
  with the process number in \<open>start_server\<close>.
\<close>

section \<open>Descriptors\<close>

datatype channel = Terminal | Null_device | Log_file | Tty_device | Pid_file | Sock

type_synonym fd_table = "channel option list"

text \<open>The lowest descriptor that is not in use, which is what the kernel gives.\<close>

fun first_free :: "fd_table \<Rightarrow> nat option" where
  "first_free [] = None"
| "first_free (None # t) = Some 0"
| "first_free (Some c # t) = map_option Suc (first_free t)"

definition open_fd :: "channel \<Rightarrow> bool \<Rightarrow> fd_table \<Rightarrow> int \<times> fd_table" where
  "open_fd c ok t =
     (if ok then (case first_free t of None \<Rightarrow> (- 1, t) | Some i \<Rightarrow> (int i, t[i := Some c])) else (- 1, t))"

definition chan :: "int \<Rightarrow> fd_table \<Rightarrow> channel option" where
  "chan fd t = (if 0 \<le> fd \<and> fd < int (length t) then t ! nat fd else None)"

definition dup_fd :: "int \<Rightarrow> fd_table \<Rightarrow> int \<times> fd_table" where
  "dup_fd fd t = (case chan fd t of None \<Rightarrow> (- 1, t) | Some c \<Rightarrow> open_fd c True t)"

definition close_one :: "int \<Rightarrow> fd_table \<Rightarrow> fd_table" where
  "close_one fd t = (if 0 \<le> fd \<and> fd < int (length t) then t[nat fd := None] else t)"

text \<open>The loop from the size of the table, \<open>getdtablesize()\<close>, down to 0.\<close>

fun close_from :: "nat \<Rightarrow> fd_table \<Rightarrow> fd_table" where
  "close_from 0 t = t"
| "close_from (Suc i) t = close_from i (close_one (int i) t)"

lemma close_from_prefix: "k \<le> length t \<Longrightarrow> close_from k t = replicate k None @ drop k t"
proof (induction k arbitrary: t)
  case (Suc k)
  then have "close_from (Suc k) t = replicate k None @ drop k (t[k := None])"
    by (simp add: close_one_def)
  also have "drop k (t[k := None]) = None # drop (Suc k) t"
    using Suc.prems by (simp add: Cons_nth_drop_Suc [symmetric])
  also have "replicate k None @ None # drop (Suc k) t = replicate (Suc k) None @ drop (Suc k) t"
    by (simp add: replicate_app_Cons_same)
  finally show ?case .
qed simp

lemma close_all: "close_from (length t) t = replicate (length t) None"
  by (simp add: close_from_prefix)

section \<open>The process\<close>

record process =
  fds :: fd_table
  printed :: "(channel option \<times> string list) list"

text \<open>What the system answers: which of the files can be opened, and the result of \<open>fork\<close>.\<close>

record detach_env =
  null_ok :: bool
  log_ok :: bool
  tty_ok :: bool
  fork_pid :: int

definition print :: "string list \<Rightarrow> process \<Rightarrow> process" where
  "print ls p = p\<lparr>printed := printed p @ [(chan 1 (fds p), ls)]\<rparr>"

lemma print_simps [simp]:
  "fds (print ls p) = fds p" "printed (print ls p) = printed p @ [(chan 1 (fds p), ls)]"
  by (simp_all add: print_def)

text \<open>The result is what \<open>main\<close> returns, or nothing when it goes on.\<close>

definition detach :: "detach_env \<Rightarrow> process \<Rightarrow> int option \<times> process" where
  "detach env p =
     (let t0 = close_from (length (fds p)) (fds p);
          (fd0, t1) = open_fd Null_device (null_ok env) t0;
          (fd1, t2) = open_fd Log_file (log_ok env) t1;
          (fd2, t3) = dup_fd fd1 t2;
          (fd, t4) = open_fd Tty_device (tty_ok env) t3;
          p' = p\<lparr>fds := close_one fd t4\<rparr>
      in if fork_pid env < 0 then (Some 1, p')
         else if fork_pid env > 0 then (Some 0, p')
         else (None, p'))"

text \<open>
  \<open>main\<close> up to its loop; \<open>ts\<close> and \<open>ts'\<close> are the texts of the time. \<open>fetch_cmndLine\<close> logs the switches it
  does not know. \<open>fetch_config\<close> logs when the configuration file cannot be opened, and closes it before it
  returns. The record holds the standard output only: what \<open>getopt\<close> and \<open>perror\<close> write goes to the
  standard error.
\<close>

definition conf_log :: "string \<Rightarrow> (string \<Rightarrow> rd list option) \<Rightarrow> sconf \<Rightarrow> string list" where
  "conf_log ts files sc = (case files (CONF_FILE sc) of
      None \<Rightarrow> [logger ts (snprintf MAX_LEN (''Configuration file '' @ CONF_FILE sc @ '' not found''))]
    | Some f \<Rightarrow> [])"

definition switch_log :: "string \<Rightarrow> string list \<Rightarrow> string list" where
  "switch_log ts args = (case getopt_all args of (evs, ops) \<Rightarrow> option_log ts evs)"

definition main_start_up ::
  "string list \<Rightarrow> string \<Rightarrow> string \<Rightarrow> (string \<Rightarrow> rd list option) \<Rightarrow> detach_env \<Rightarrow> string \<Rightarrow> string \<Rightarrow>
   process \<Rightarrow> c_error + int option \<times> sconf \<times> process" where
  "main_start_up args bb junk files env ts ts' p =
     (let p1 = print (switch_log ts args) (print (welcome_message ts) p) in
      case start_config args bb junk files of
        Inl e \<Rightarrow> Inl e
      | Inr sc \<Rightarrow> (case print_config sc of
          Inl e \<Rightarrow> Inl e
        | Inr ls \<Rightarrow>
            let p2 = print ls (print (conf_log ts files sc) p1) in
            if \<not> DETACH sc then Inr (None, sc, p2)
            else (case detach env p2 of
                (Some r, p3) \<Rightarrow> Inr (Some r, sc, p3)
              | (None, p3) \<Rightarrow> Inr (None, sc, print ls (print (welcome_message ts') p3)))))"

text \<open>
  \<open>start_server\<close> from the file with the process number to the socket of the clients: the text that the
  file gets, if it could be opened, the descriptor of the socket, and the table.
\<close>

definition write_pid :: "bool \<Rightarrow> int \<Rightarrow> fd_table \<Rightarrow> string option \<times> fd_table" where
  "write_pid ok pid t =
     (let (pfd, t1) = open_fd Pid_file ok t
      in (if pfd < 0 then None else Some (show_ld pid @ [NL]), close_one pfd t1))"

definition first_socket :: "bool \<Rightarrow> int \<Rightarrow> fd_table \<Rightarrow> string option \<times> int \<times> fd_table" where
  "first_socket ok pid t = (case write_pid ok pid t of (text, t1) \<Rightarrow> (text, open_fd Sock True t1))"

section \<open>The daemon's descriptors\<close>

lemma first_free_Some: "first_free t = Some i \<Longrightarrow> i < length t \<and> t ! i = None"
  by (induction t arbitrary: i rule: first_free.induct) auto

text \<open>Opening a file and closing it again leaves the table as it was.\<close>

lemma close_opened: "close_one (fst (open_fd c ok t)) (snd (open_fd c ok t)) = t"
  by (auto simp: open_fd_def close_one_def list_update_same_conv dest: first_free_Some split: option.splits)

lemma open_null:
  "open_fd Null_device True (None # None # None # t) = (0, Some Null_device # None # None # t)"
  by (simp add: open_fd_def)

lemma detach_table:
  assumes "null_ok env" and "3 \<le> length (fds p)"
  shows "fds (snd (detach env p)) =
    (if log_ok env then Some Null_device # Some Log_file # Some Log_file # replicate (length (fds p) - 3) None
     else Some Null_device # replicate (length (fds p) - 1) None)"
proof -
  obtain n where n: "length (fds p) = Suc (Suc (Suc n))"
    using assms(2) by (metis Suc_le_D numeral_3_eq_3 le_Suc_ex add_Suc)
  then have all: "close_from (length (fds p)) (fds p) = None # None # None # replicate n None"
    using close_all [of "fds p"] by (simp add: n)
  define T where "T = Some Null_device # (if log_ok env then [Some Log_file, Some Log_file] else [None, None]) @ replicate n None"
  obtain f1 t2 where log: "open_fd Log_file (log_ok env) (Some Null_device # None # None # replicate n None) = (f1, t2)"
    by (rule prod.exhaust)
  then have std: "dup_fd f1 t2 = (if log_ok env then 2 else - 1, T)"
    by (auto simp: T_def open_fd_def dup_fd_def chan_def split: if_splits)
  obtain f t4 where tty: "open_fd Tty_device (tty_ok env) T = (f, t4)" by (rule prod.exhaust)
  then have "close_one f t4 = T" using close_opened [of Tty_device "tty_ok env" T] by simp
  then have "fds (snd (detach env p)) = T"
    by (simp add: detach_def all Let_def assms(1) open_null log std tty)
  then show ?thesis using n by (simp add: T_def)
qed

lemma detach_result:
  "fst (detach env p) = (if fork_pid env < 0 then Some 1 else if fork_pid env > 0 then Some 0 else None)"
  "printed (snd (detach env p)) = printed p"
  by (simp_all add: detach_def Let_def split: prod.splits)

lemma write_pid_table: "snd (write_pid ok pid t) = t"
  using close_opened [of Pid_file ok t] by (cases "open_fd Pid_file ok t") (simp add: write_pid_def)

lemma write_pid_text: "fst (write_pid ok pid t) = (if ok \<and> first_free t \<noteq> None then Some (show_ld pid @ [NL]) else None)"
  by (auto simp: write_pid_def open_fd_def split: option.splits)

lemma first_socket_fds: "first_free t = Some i \<Longrightarrow>
    first_socket ok pid t = (if ok then Some (show_ld pid @ [NL]) else None, int i, t[i := Some Sock])"
  using write_pid_table [of ok pid t] write_pid_text [of ok pid t]
  by (cases "write_pid ok pid t") (simp add: first_socket_def open_fd_def)

lemma first_free_detached:
  "first_free (Some a # Some b # Some c # replicate n None) = (if n = 0 then None else Some 3)"
  "first_free (Some a # replicate n None) = (if n = 0 then None else Some 1)"
  by (cases n; simp)+

text \<open>A detached process: the two branches of \<open>main_start_up\<close> for the process that goes on.\<close>

lemma start_up_detached:
  assumes "start_config args bb junk files = Inr sc" and "print_config sc = Inr ls" and "DETACH sc" and "fork_pid env = 0"
  shows "main_start_up args bb junk files env ts ts' p = Inr (None, sc,
    print ls (print (welcome_message ts')
      (snd (detach env (print ls (print (conf_log ts files sc) (print (switch_log ts args) (print (welcome_message ts) p))))))))"
  using detach_result(1) [of env "print ls (print (conf_log ts files sc) (print (switch_log ts args) (print (welcome_message ts) p)))"] assms
  by (auto simp: main_start_up_def Let_def split: prod.splits)

text \<open>
  Property C28: a server that runs in the background prints on its standard output its notice, the switches
  it did not know, whether the configuration file was missing, and its configuration to the terminal, and
  then the notice and the configuration to the log file; its standard input is the null device, both its
  outputs are the log, no other descriptor is open, and the socket of the clients gets descriptor 3.
\<close>

theorem daemon_streams:
  assumes "start_config args bb junk files = Inr sc" and "print_config sc = Inr ls" and "DETACH sc"
    and "null_ok env" and "log_ok env" and "fork_pid env = 0"
    and "fds p = Some Terminal # Some Terminal # Some Terminal # rest" and "rest \<noteq> []"
  shows "\<exists>p'. main_start_up args bb junk files env ts ts' p = Inr (None, sc, p') \<and>
      fds p' = [Some Null_device, Some Log_file, Some Log_file] @ replicate (length rest) None \<and>
      printed p' = printed p @ [(Some Terminal, welcome_message ts), (Some Terminal, switch_log ts args),
        (Some Terminal, conf_log ts files sc),
        (Some Terminal, ls), (Some Log_file, welcome_message ts'), (Some Log_file, ls)] \<and>
      first_socket pid_ok pid (fds p') =
        (if pid_ok then Some (show_ld pid @ [NL]) else None, 3, (fds p')[3 := Some Sock])"
proof -
  let ?p = "print ls (print (conf_log ts files sc) (print (switch_log ts args) (print (welcome_message ts) p)))"
  let ?d = "snd (detach env ?p)"
  have t: "fds ?d = Some Null_device # Some Log_file # Some Log_file # replicate (length rest) None"
    using detach_table [of env ?p] assms by simp
  have o: "printed ?d = printed p @ [(Some Terminal, welcome_message ts), (Some Terminal, switch_log ts args),
        (Some Terminal, conf_log ts files sc), (Some Terminal, ls)]"
    using assms(7) by (simp add: detach_result chan_def)
  have free: "first_free (Some Null_device # Some Log_file # Some Log_file # replicate (length rest) None) = Some 3"
    using assms(8) by (simp only: first_free_detached length_0_conv if_False)
  show ?thesis
    unfolding start_up_detached [OF assms(1-3,6)]
    by (simp add: o t chan_def first_socket_fds [OF free])
qed

text \<open>The process that the user started.\<close>

lemma parent_returns:
  assumes "start_config args bb junk files = Inr sc" and "print_config sc = Inr ls" and "DETACH sc" and "fork_pid env > 0"
  shows "\<exists>p'. main_start_up args bb junk files env ts ts' p = Inr (Some 0, sc, p')"
  using detach_result(1) [of env "print ls (print (conf_log ts files sc) (print (switch_log ts args) (print (welcome_message ts) p)))"] assms
  by (auto simp: main_start_up_def Let_def split: prod.splits)

text \<open>
  When the log file cannot be opened, the outputs stay closed, and the next file that is opened takes
  the place of the standard output: what the server prints goes to the socket on which it listens.
\<close>

theorem daemon_without_log:
  assumes "start_config args bb junk files = Inr sc" and "print_config sc = Inr ls" and "DETACH sc"
    and "null_ok env" and "\<not> log_ok env" and "fork_pid env = 0" and "3 \<le> length (fds p)"
  shows "\<exists>p'. main_start_up args bb junk files env ts ts' p = Inr (None, sc, p') \<and>
      chan 1 (fds p') = None \<and> chan 2 (fds p') = None \<and>
      (\<exists>text t. first_socket pid_ok pid (fds p') = (text, 1, t) \<and> chan 1 t = Some Sock)"
proof -
  let ?d = "snd (detach env (print ls (print (conf_log ts files sc) (print (switch_log ts args) (print (welcome_message ts) p)))))"
  obtain n where n: "length (fds p) = Suc (Suc (Suc n))"
    using assms(7) by (metis Suc_le_D numeral_3_eq_3 le_Suc_ex add_Suc)
  have t: "fds ?d = Some Null_device # None # None # replicate n None"
    using detach_table [of env "print ls (print (conf_log ts files sc) (print (switch_log ts args) (print (welcome_message ts) p)))"] assms(4,5) n
    by simp
  show ?thesis
    unfolding start_up_detached [OF assms(1-3,6)]
    by (simp add: t chan_def first_socket_fds)
qed

definition shell_process :: process where
  "shell_process = \<lparr>fds = [Some Terminal, Some Terminal, Some Terminal, None, None], printed = []\<rparr>"

definition good_env :: detach_env where
  "good_env = \<lparr>null_ok = True, log_ok = True, tty_ok = True, fork_pid = 0\<rparr>"

lemma default_start:
  "start_config [''-q''] ''b'' [] (\<lambda>_. None) = Inr (default_config ''b'')"
  "\<exists>ls. print_config (default_config ''b'') = Inr ls"
  by (simp_all add: start_config_def fetch_cmndLine_def fetch_config_def conf_reads_def default_config_def
      print_config_def config_loop_fails set_option_def)

lemma unknown_switch:
  "switch_log ''now_'' [''-q''] = [''now : -> This switch is unidentified : 63'' @ [NL]]"
  by code_simp

text \<open>A server started with a switch that does not exist.\<close>

theorem daemon_streams_witness:
  "\<exists>p'. main_start_up [''-q''] ''b'' [] (\<lambda>_. None) good_env ''now_'' ''now_'' shell_process =
      Inr (None, default_config ''b'', p') \<and>
    fds p' = [Some Null_device, Some Log_file, Some Log_file, None, None] \<and>
    printed p' ! 1 = (Some Terminal, [''now : -> This switch is unidentified : 63'' @ [NL]]) \<and>
    first_socket True 7 (fds p') =
      (Some (show_ld 7 @ [NL]), 3, [Some Null_device, Some Log_file, Some Log_file, Some Sock, None])"
proof -
  obtain ls where ls: "print_config (default_config ''b'') = Inr ls" using default_start(2) ..
  have p: "DETACH (default_config ''b'')" "null_ok good_env" "log_ok good_env" "fork_pid good_env = 0"
    "fds shell_process = Some Terminal # Some Terminal # Some Terminal # [None, None]" "[None, None] \<noteq> []"
    by (simp_all add: default_config_def good_env_def shell_process_def)
  from daemon_streams [OF default_start(1) ls p, of "''now_''" "''now_''" True 7] show ?thesis
    by (auto simp: numeral_2_eq_2 unknown_switch shell_process_def)
qed

end
