(* ===== verification/Teams.thy ===== *)
theory Teams
  imports TeamEnd
begin

text \<open>
  All teams of the program together (\<open>src/thrd_mgmt.cc\<close>). \<open>threads_keepalive\<close> is one variable:
  \<open>create_team\<close> sets it and \<open>terminate_team\<close> clears it, for every team. A state is the list of the
  teams created so far, each with a copy of the variable; the copies are equal, which is part of the
  invariant. A team that was terminated stays in the list, with no worker left.
\<close>

section \<open>Steps\<close>

text \<open>
  \<open>stop_all\<close> is the assignment in \<open>terminate_team\<close>, which concerns all teams. In \<open>hire_failed\<close> the memory
  was short, which \<open>create_team\<close> finds out after it has set the variable.
\<close>

inductive teams_step :: "'w team list \<Rightarrow> 'w team list \<Rightarrow> bool" where
  in_team: "k < length ts \<Longrightarrow> team_step (ts ! k) t \<Longrightarrow> threads_keepalive t = threads_keepalive (ts ! k) \<Longrightarrow>
    teams_step ts (ts[k := t])"
| stop_all: "teams_step ts (map (threads_keepalive_update (\<lambda>_. False)) ts)"
| hire: "create_team num type True True True (\<lambda>_. True) h = Inr (Some t) \<Longrightarrow>
    teams_step ts (map (threads_keepalive_update (\<lambda>_. True)) ts @ [t])"
| hire_failed: "create_team num type m1 m2 m3 m4 (h :: 'w store) = Inr None \<Longrightarrow>
    teams_step ts (map (threads_keepalive_update (\<lambda>_. True)) ts)"

section \<open>What holds of every team\<close>

definition teams_inv :: "'w team list \<Rightarrow> bool" where
  "teams_inv ts \<longleftrightarrow> (\<forall>t \<in> set ts. books t) \<and> (\<exists>b. \<forall>t \<in> set ts. threads_keepalive t = b)"

lemma books_keepalive [simp]: "books (t\<lparr>threads_keepalive := b\<rparr>) = books t"
  by (simp add: books_def)

lemma created_team:
  assumes "create_team num type True True True (\<lambda>_. True) h = Inr (Some t)"
  shows "books t \<and> threads_keepalive t"
proof -
  have "team_init t" using assms unfolding team_init_def by blast
  moreover have "threads_keepalive t" using assms by (auto simp: create_team_eq Let_def split: if_splits)
  ultimately show ?thesis using books_init by blast
qed

lemma teams_inv_step: "teams_step ts us \<Longrightarrow> teams_inv ts \<Longrightarrow> teams_inv us"
proof (induction rule: teams_step.induct)
  case (in_team k ts t)
  have m: "ts ! k \<in> set ts" using in_team.hyps(1) by simp
  then have b: "books t" using books_step [OF _ in_team.hyps(2)] in_team.prems by (simp add: teams_inv_def)
  obtain c where c: "\<forall>u \<in> set ts. threads_keepalive u = c" using in_team.prems by (auto simp: teams_inv_def)
  have "\<forall>u \<in> set (ts[k := t]). books u \<and> threads_keepalive u = c"
    using set_update_subset_insert [of ts k t] in_team.prems b c in_team.hyps(3) m
    by (auto simp: teams_inv_def dest!: subsetD)
  then show ?case unfolding teams_inv_def by blast
next
  case (hire num type h t ts)
  with created_team [OF hire(1)] show ?case by (auto simp: teams_inv_def intro: exI [of _ True])
qed (auto simp: teams_inv_def)

interpretation all_teams: inductive_invariant "\<lambda>ts. ts = []" teams_step teams_inv
  by unfold_locales (simp add: teams_inv_def, rule teams_inv_step)

section \<open>What the teams guarantee together\<close>

text \<open>
  Property C11: in every team, whatever the other teams do and however often the teams are stopped and new
  ones created, the works started are the first of the works added, in the order they were added: none is
  started twice or before an earlier one, and those not yet started are the queue, which is what
  \<open>terminate_team\<close> would drop. A worker that has reached the queue can take its first work, and does not get
  past the queue in any other way. The counters count the workers that are at work and those that have not
  left.
\<close>

theorem teams_fifo:
  assumes "reach (\<lambda>ts. ts = []) teams_step ts" and "t \<in> set ts"
  shows "taken t @ pending (work_queue_a t) = submitted t \<and>
    no_of_employees_working t = headcount at_work (stage t) (hired t) \<and>
    no_of_employees_available t = headcount present (stage t) (hired t) \<and>
    (\<forall>i<hired t. stage t i = Pulling \<longrightarrow> (\<exists>u. team_step t u \<and> takes_next t i u) \<and>
      (\<forall>u. team_step t u \<longrightarrow> stage u i \<noteq> Pulling \<longrightarrow> takes_next t i u))"
proof -
  have b: "books t" using all_teams.reach_inv [OF assms(1)] assms(2) by (simp add: teams_inv_def)
  then have "wf_queue (work_queue_a t)" by (simp add: books_def)
  with b pulling_takes_next [OF this] show ?thesis by (simp add: books_def)
qed

text \<open>A run for the witness: two teams of one worker each; the worker of the first reaches the queue with job 3.\<close>

definition one_work :: "nat \<Rightarrow> nat team" where
  "one_work w = small_team\<lparr>work_queue_a :=
     \<lparr>nodes = [4 \<mapsto> \<lparr>prev = None, content = w\<rparr>],
      queue = \<lparr>first = Some 4, last_ptr = Some 4, count = 1\<rparr>, pol = 1\<rparr>, submitted := [w]\<rparr>"

lemma one_work_step: "team_step small_team (one_work w)"
proof -
  have "add_work_to_team (Some 4) w (work_queue_a small_team) = Inr (0, work_queue_a (one_work w))"
    by (simp add: add_work_to_team_def push_work_def create_work_queue_def create_sem_def
        sem_post_def one_work_def small_team_def)
  then have "team_step small_team (small_team\<lparr>stage := stage small_team,
      work_queue_a := work_queue_a (one_work w), submitted := submitted small_team @ [w]\<rparr>)"
    by (intro add_work) (simp_all add: small_team_def fresh_node_def fresh_addr_def
        create_work_queue_def create_sem_def signal_one_def)
  then show ?thesis by (simp add: one_work_def small_team_def)
qed

definition worker_at :: "nat stage \<Rightarrow> nat team" where
  "worker_at x = (one_work 3)\<lparr>stage := (\<lambda>_. Looping)(0 := x)\<rparr>"

definition awake_team :: "nat team" where
  "awake_team = (worker_at Awake)\<lparr>work_queue_a := (work_queue_a (one_work 3))\<lparr>pol := 0\<rparr>\<rparr>"

definition pulling_team :: "nat team" where
  "pulling_team = awake_team\<lparr>stage := (\<lambda>_. Looping)(0 := Pulling), no_of_employees_working := 1\<rparr>"

lemmas sample_teams = pulling_team_def awake_team_def worker_at_def one_work_def small_team_def

lemma serving_steps:
  "team_step (one_work 3) (worker_at Entering)" "team_step (worker_at Entering) awake_team"
  "team_step awake_team pulling_team"
proof -
  show "team_step (one_work 3) (worker_at Entering)"
    using enter [of 0 "one_work 3"] by (simp add: sample_teams)
  show "team_step (worker_at Entering) awake_team"
    using sem_wait [of 0 "worker_at Entering"] by (simp add: sample_teams)
  show "team_step awake_team pulling_team"
    using begin_work [of 0 awake_team] by (simp add: sample_teams)
qed

lemma sample_first:
  assumes "team_step s t" "threads_keepalive t = threads_keepalive s"
  shows "teams_step [s, u] [t, u]"
  using in_team [of 0 "[s, u]" t] assms by simp

lemma created_pair: "reach (\<lambda>ts. ts = []) teams_step [small_team, small_team]"
proof -
  have c: "create_team 1 ''w'' True True True (\<lambda>_. True) Map.empty = Inr (Some small_team)"
    by (simp add: create_team_eq small_team_def Let_def)
  have k: "map (threads_keepalive_update (\<lambda>_. True)) [small_team] = [small_team]"
    by (simp add: small_team_def)
  have "teams_step [] [small_team]" using hire [OF c, of "[]"] by simp
  moreover have "teams_step [small_team] [small_team, small_team]"
    using hire [OF c, of "[small_team]"] unfolding k by simp
  ultimately show ?thesis by (blast intro: reach.intros)
qed

lemma pulling_reach: "reach (\<lambda>ts. ts = []) teams_step [pulling_team, small_team]"
proof -
  let ?u = small_team
  have "teams_step [?u, ?u] [one_work 3, ?u]"
    by (rule sample_first [OF one_work_step]) (simp add: sample_teams)
  moreover have "teams_step [one_work 3, ?u] [worker_at Entering, ?u]"
    by (rule sample_first [OF serving_steps(1)]) (simp add: sample_teams)
  moreover have "teams_step [worker_at Entering, ?u] [awake_team, ?u]"
    by (rule sample_first [OF serving_steps(2)]) (simp add: sample_teams)
  moreover have "teams_step [awake_team, ?u] [pulling_team, ?u]"
    by (rule sample_first [OF serving_steps(3)]) (simp add: sample_teams)
  ultimately have "run_from teams_step [?u, ?u] [[one_work 3, ?u], [worker_at Entering, ?u],
      [awake_team, ?u], [pulling_team, ?u]]"
    by simp
  from run_reach [OF created_pair this] show ?thesis by simp
qed

theorem teams_fifo_witness:
  "pending (work_queue_a pulling_team) = [3] \<and> (\<exists>u. team_step pulling_team u \<and> stage u 0 = Running 3 \<and> taken u = [3])"
proof -
  have m: "pulling_team \<in> set [pulling_team, small_team]" by simp
  have p: "0 < hired pulling_team" "stage pulling_team 0 = Pulling" "taken pulling_team = []" "submitted pulling_team = [3]"
    by (simp_all add: sample_teams)
  note f = teams_fifo [OF pulling_reach m]
  have "pending (work_queue_a pulling_team) = [3]" using f p(3,4) by simp
  moreover obtain u where "team_step pulling_team u" "takes_next pulling_team 0 u" using f p(1,2) by blast
  ultimately show ?thesis using p(3) by (auto simp: takes_next_def)
qed

end
