(* ===== verification/Spec2Isabelle.thy ===== *)
theory Spec2Isabelle
  imports Service ClusterReplace SyncFailures SyncPhase FileLock Server Daemon Teams
begin

text \<open>
  Bulletin Board Server: a verification library.

  The program is a replicated bulletin board in C++ (\<open>src/*.cc\<close>). Clients connect to one port and send
  lines (\<open>USER\<close>, \<open>READ\<close>, \<open>WRITE\<close>, \<open>REPLACE\<close>, \<open>QUIT\<close>); messages are kept in a text file, one line
  \<open>number/poster/message\<close> each; a write or a replacement is done on all servers of a group by a commit
  protocol with the peers over a second port. Teams of worker threads run the sessions. \<open>SIGHUP\<close>
  restarts the server with a new configuration, \<open>SIGQUIT\<close> ends it.

  How the parts interact. The main thread (\<open>main\<close>) reads the configuration, detaches from the terminal
  and starts a thread that runs \<open>start_server\<close>: it opens the port and the board file, creates the team
  of the clients, starts \<open>peer_establisher\<close> (the teams of the peers and their accept loop) and accepts
  clients. Every accepted socket becomes a work of a team; the worker that takes it runs
  \<open>server_operations\<close> (clients) or \<open>peer_receiver_operations\<close> (peers), which use the functions of
  \<open>descriptor.cc\<close> for the board file. A client's write or replacement runs \<open>sync_write\<close> or
  \<open>sync_replace\<close>, whose jobs, one for each peer, run on the team of the senders and talk to the peer
  sessions of the other servers. A signal makes the main thread run \<open>quit_handler\<close>.

  Theories, bottom up, and what they model.

  \<^item> \<open>Prelude\<close>: bytes, C strings, the errors of the model, the fragment of the C library in use (\<open>atoi\<close>,
    \<open>atol\<close>, \<open>snprintf\<close>, the decimal text of a number), fields of a line. \<open>Transition\<close>: reachable states
    and the contract of an inductive invariant (locale \<open>inductive_invariant\<close>).
  \<^item> \<open>Tokenize\<close> (\<open>tokenize.cc\<close>): the tokenizers, in place on the array of the caller, as the list of the
    array's bytes and the list of offsets of the tokens. They fit their arrays, and give the words of
    the line. \<open>tolwr\<close> writes one byte more than it allocates.
  \<^item> \<open>TcpUtils\<close> (\<open>tcp-utils.cc\<close>): \<open>readline\<close>, \<open>recv_nonblock\<close>, connecting and opening sockets. The
    system calls are an environment record, a parameter.
  \<^item> \<open>Descriptor\<close> (\<open>descriptor.cc\<close>): the board file as a string in a file system of named files, with
    open descriptors counted; every access as the code does it, seeks and overwriting included. \<open>Board\<close>:
    the file as a list of lines, and the refinement of the accesses to operations on that list.
    \<open>MessageStore\<close>: the contract of a store of messages (locale \<open>message_store\<close>: what is read after a post,
    an erasure, a replacement, an undo), proved for the board file. \<open>NumberGen\<close>: \<open>generate_number\<close> and
    \<open>release_number\<close>. \<open>Housekeep\<close>: \<open>housekeep_descriptor\<close>.
  \<^item> \<open>FileLock\<close> (\<open>descriptor.cc\<close>, \<open>file_queue_a\<close>): the readers-writer lock of \<open>read_descriptor\<close> and
    \<open>write_descriptor\<close>, with the four functions that open the board file without it, as a step relation of
    any number of threads: what the lock excludes and what it does not, and that some thread can always go on.
  \<^item> \<open>Chain\<close>: singly linked structures in an explicit store of nodes, with the contracts of a structure
    that is filled (locale \<open>push_structure\<close>) and emptied in order (\<open>pull_structure\<close>). \<open>LinkedList\<close>
    (\<open>linkedList.cc\<close>): the list of client sockets. \<open>WorkQueue\<close> (\<open>thrd_mgmt.cc\<close>): the queue of a team.
  \<^item> \<open>WorkerTeam\<close>, \<open>TeamEnd\<close> (\<open>thrd_mgmt.cc\<close>): a team as a step relation of its workers, of the threads
    that add work, and of the thread that terminates it: works are started once and in order, no
    wake-up is lost, after the stop only a worker that was past the test still starts a job, and only a job
    that does not return keeps a team from ending; what \<open>terminate_team\<close> frees, and what a leaving worker
    still uses then. \<open>Teams\<close>: all teams with the variable \<open>threads_keepalive\<close> that they share, which every
    \<open>create_team\<close> raises and every \<open>terminate_team\<close> clears.
  \<^item> \<open>Requests\<close>: reading, cutting and rebuilding of request lines, shared by both kinds of sessions.
    \<open>SyncOps\<close> (\<open>server_operations.cc\<close>): the master's side of the commit protocol, over a parameter network
    (\<open>'p wire\<close>) and schedule. The schedule says which work could be added, whether the master waits before
    the last reply, and whether its wait, which is not in a loop, returns by itself. \<open>SyncPhase\<close>: the
    interleavings of the jobs of one phase, with such a wake-up; the outcome of the jobs is that of one after
    the other. After a wake-up by itself the jobs of one phase run on into the next: what they then do to its
    counters is followed neither there nor in \<open>SyncOps\<close>, which lets the jobs of a phase end first.
    \<open>CommitNetwork\<close>: the contract of the peers (locale \<open>commit_network\<close>) and the outcome of a commit under
    it. \<open>SyncFailures\<close>: runs without peers, with a peer that sends nothing, which makes a job write before
    its array, and with a peer that is not resolved, which blocks the master. \<open>PeerReceiver\<close> (\<open>peer_operations.cc\<close>): the session of a peer. \<open>Cluster\<close>,
    \<open>ClusterReplace\<close>: a master and any number of peers, each the model of the peer session on its own
    board; they interpret \<open>commit_network\<close>, and show that writes and replacements are done everywhere or
    nowhere.
  \<^item> \<open>ClientSession\<close> (\<open>server_operations\<close>), \<open>Service\<close>: the session of a client, and what the client gets.
  \<^item> \<open>Config\<close>, \<open>ConfigFile\<close>, \<open>ConfigProps\<close> (\<open>bbserv_utils.cc\<close>, \<open>main\<close>): command line, configuration file,
    defaults, reload and printed summary; typing, precedence of the command line, the round trip of a file,
    what a reload forgets.
  \<^item> \<open>Daemon\<close> (\<open>main\<close>): what is printed on the standard output and where that goes, and the descriptors of the
    process in the background.
  \<^item> \<open>Accept\<close>: the two accept loops. \<open>Server\<close> (\<open>bbserv.cc\<close>): start, \<open>quit_handler\<close>, restart, and the
    loop of \<open>main\<close> with its signals as a step relation. Whether the workers of a team leave, when
    \<open>terminate_team\<close> is called on it, is a parameter there (\<open>drains\<close>), since it depends on the jobs they run;
    \<open>TeamEnd\<close> has what \<open>terminate_team\<close> does once they have.

  Conventions. A read or write outside an array, the use of a null or freed pointer, of memory that was
  not written, and a loop that does not end are values of \<open>c_error\<close>, the left side of a sum; a theorem that
  ends in \<open>Inr\<close> says that none of them happens. Numbers are \<open>int\<close> with the conversions of the code
  written out (\<open>to_int32\<close>, 64-bit words where a \<open>size_t\<close> is compared, 16-bit words for ports). Arrays that the code does not
  initialise are parameters (\<open>junk\<close>). State is passed explicitly; threads are step relations.

  Fuel. \<open>clear_loop\<close> has as many rounds as the counter of the queue says, which is the number of nodes in
  every reachable queue; the loops of \<open>linkedList.cc\<close> run on the counter of the list, and those that read
  the board on its lines. Running out of fuel is the value \<open>Never_returns\<close>, which also stands for the
  endless loops of the code itself: reading a board file that cannot be opened, the wait of the master for
  replies that do not come, the wait of \<open>create_team\<close> and \<open>terminate_team\<close> for workers. The waits whose end depends on
  other threads are step relations with theorems of progress.

  What is not modelled, and why. That a handler of a signal takes the mutexes of \<open>logger\<close> and of the
  condition, which the interrupted thread may hold. The delays of the debug mode and the log lines of the components other
  than \<open>logger\<close> itself, which change no state; \<open>free\<close> and \<open>delete\<close> (an address stays allocated, but a freed
  team is a value of its own); \<open>umask\<close> and the process group, \<open>term_handler\<close> (it prints a line) and
  the handlers that ignore signals; \<open>add_trailing_spaces\<close> (never called), \<open>hire_new_employees\<close> (declared only); the
  case \<open>x\<close> of the switch of \<open>fetch_cmndLine\<close>, which is not in its option string; the kernel and the network,
  which are parameters.
\<close>

end
